(* ===== verification/N2R_Prelude.thy ===== *)
theory N2R_Prelude
  imports Main "HOL-Library.Word"
begin

text \<open>
  What the component theories share: the types of the model (byte strings, Xbox user ids,
  instants and durations), Go's 64-bit integer arithmetic, maps keyed by Go map keys, and
  the generic lemmas and locales the component proofs rest on.

  \<^item> A Go \<open>string\<close> or \<open>[]byte\<close> is a \<open>string\<close>: a list of 8-bit characters.
  \<^item> A Go \<open>int\<close>, \<open>int64\<close> or \<open>time.Duration\<close> is an \<open>int\<close>; wherever the code's
    arithmetic could leave 64 bits the definition wraps with \<open>wrap64\<close>.
  \<^item> An instant (\<open>time.Time\<close>) is an \<open>int\<close>: nanoseconds since the Unix epoch. The clock
    is an argument of every operation that reads it.
\<close>

section \<open>Types\<close>

type_synonym xuid = string
type_synonym instant = int
type_synonym duration = int

text \<open>What opening a file for reading gives: absent, an error, or its bytes.\<close>

datatype file_view = Missing | Unreadable | Contents string

section \<open>Collections of facts\<close>

named_theorems go_string_simps "evaluation of the string operations of the Go library"
named_theorems invariant_intros "steps that keep a component's invariant"

section \<open>64-bit integers\<close>

definition max_int64 :: int where "max_int64 = 9223372036854775807"
definition min_int64 :: int where "min_int64 = - 9223372036854775808"

definition in_int64 :: "int \<Rightarrow> bool" where
  "in_int64 n \<longleftrightarrow> min_int64 \<le> n \<and> n \<le> max_int64"

definition wrap64 :: "int \<Rightarrow> int" where
  "wrap64 n = (n + 9223372036854775808) mod 18446744073709551616 - 9223372036854775808"

definition clamp64 :: "int \<Rightarrow> int" where
  "clamp64 n = max min_int64 (min n max_int64)"

text \<open>Go's integer division truncates towards zero.\<close>

definition go_div :: "int \<Rightarrow> int \<Rightarrow> int" where
  "go_div a b = sgn a * sgn b * (\<bar>a\<bar> div \<bar>b\<bar>)"

lemma wrap64_id [simp]: "in_int64 n \<Longrightarrow> wrap64 n = n"
  by (simp add: wrap64_def in_int64_def min_int64_def max_int64_def)

lemma wrap64_in [simp]: "in_int64 (wrap64 n)"
  by (simp add: wrap64_def in_int64_def min_int64_def max_int64_def)

lemma clamp64_id [simp]: "in_int64 n \<Longrightarrow> clamp64 n = n"
  by (simp add: clamp64_def in_int64_def)

lemma clamp64_mono: "a \<le> b \<Longrightarrow> clamp64 a \<le> clamp64 b"
  by (simp add: clamp64_def)

lemma go_div_pos: "0 \<le> a \<Longrightarrow> 0 < b \<Longrightarrow> go_div a b = a div b"
  by (cases "a = 0") (simp_all add: go_div_def)

lemma go_div_neg: "a \<le> 0 \<Longrightarrow> 0 < b \<Longrightarrow> go_div a b \<le> 0"
proof -
  assume "a \<le> 0" "0 < b"
  then have "0 \<le> (- a) div b" by (simp add: pos_imp_zdiv_nonneg_iff)
  with \<open>a \<le> 0\<close> \<open>0 < b\<close> show ?thesis
    by (cases "a = 0") (simp_all add: go_div_def)
qed

section \<open>Instants and durations\<close>

definition second :: duration where "second = 1000000000"
definition millisecond :: duration where "millisecond = 1000000"
definition minute :: duration where "minute = 60 * second"
definition hour :: duration where "hour = 60 * minute"

text \<open>
  \<open>t.Sub u\<close> is the exact difference, saturated to the range of a \<open>Duration\<close>.
  \<open>time.Unix(sec, 0)\<close> stores the seconds since year 1 in an \<open>int64\<close>, so extreme
  arguments wrap; \<open>t.Unix()\<close> drops the fraction of the second.
\<close>

definition time_sub :: "instant \<Rightarrow> instant \<Rightarrow> duration" where
  "time_sub t u = clamp64 (t - u)"

definition unix_to_internal :: int where "unix_to_internal = 62135596800"

definition time_unix :: "int \<Rightarrow> instant" where
  "time_unix sec = (wrap64 (sec + unix_to_internal) - unix_to_internal) * second"

definition unix_of :: "instant \<Rightarrow> int" where
  "unix_of t = t div second"

text \<open>Instants whose whole seconds a file can hold: \<open>time_unix\<close> does not wrap there.\<close>

definition sane_unix :: "int \<Rightarrow> bool" where
  "sane_unix s \<longleftrightarrow> - 9223372036854775808 \<le> s \<and> s \<le> 9223371974719179007"

lemma time_unix_sane: "sane_unix s \<Longrightarrow> time_unix s = s * second"
  by (simp add: sane_unix_def time_unix_def unix_to_internal_def wrap64_def)

lemma unix_of_time_unix: "sane_unix s \<Longrightarrow> unix_of (time_unix s) = s"
  by (simp add: time_unix_sane unix_of_def second_def)

lemma second_pos [simp]: "0 < second"
  by (simp add: second_def)

section \<open>Lists and maps\<close>

lemma map_upd_None: "(m(k \<mapsto> v)) x = None \<longleftrightarrow> x \<noteq> k \<and> m x = None"
  by simp

lemma map_upd_delete_other: "k \<noteq> k' \<Longrightarrow> (m(k := None)) k' = m k'"
  by simp

lemma card_dom_upd_new: "finite (dom m) \<Longrightarrow> m k = None \<Longrightarrow> card (dom (m(k \<mapsto> v))) = Suc (card (dom m))"
  by (simp add: domIff)

lemma card_dom_delete: "finite (dom m) \<Longrightarrow> m k = Some v \<Longrightarrow> card (dom (m(k := None))) = card (dom m) - 1"
  by (simp add: domI)

lemma card_dom_pos: "finite (dom m) \<Longrightarrow> m k = Some v \<Longrightarrow> 0 < card (dom m)"
  by (auto simp: card_gt_0_iff dom_def)

lemma filter_idem: "filter P (filter P xs) = filter P xs"
  by simp

section \<open>Deterministic machines and their invariants\<close>

text \<open>
  Several components are a state and a step function driven by outside events. The locale
  states the one law the invariants need, a single step; whole runs follow once, here.
\<close>

locale invariant_machine =
  fixes mstep :: "'s \<Rightarrow> 'e \<Rightarrow> 's"
    and minv :: "'s \<Rightarrow> bool"
  assumes step_keeps: "minv s \<Longrightarrow> minv (mstep s e)"
begin

lemma run_keeps: "minv s \<Longrightarrow> minv (foldl mstep s es)"
  by (induction es arbitrary: s) (auto intro: step_keeps)

lemma run_prefix_keeps: "minv s \<Longrightarrow> minv (foldl mstep s (take n es))"
  by (rule run_keeps)

end

end
