(* ===== verification/Go_Strings.thy ===== *)
theory Go_Strings
  imports N2R_Prelude "HOL-Library.Sublist" "HOL-Library.Char_ord"
begin

text \<open>
  The operations of Go's standard library on byte strings that the program uses
  (packages \<open>strings\<close>, \<open>strconv\<close>, \<open>bufio\<close>), with the facts about them the
  components share. Strings are UTF-8 bytes, as in Go; white space is the Unicode notion of
  \<open>unicode.IsSpace\<close>, recognised by its UTF-8 encodings.
\<close>

section \<open>Characters\<close>

definition newline :: char where "newline = CHR 0x0A"
definition carriage_return :: char where "carriage_return = CHR 0x0D"

text \<open>The UTF-8 encodings of the code points \<open>unicode.IsSpace\<close> accepts.\<close>

definition space_encodings :: "string list" where
  "space_encodings =
     [[CHR 0x09], [CHR 0x0A], [CHR 0x0B], [CHR 0x0C], [CHR 0x0D], [CHR 0x20],
      [CHR 0xC2, CHR 0x85], [CHR 0xC2, CHR 0xA0],
      [CHR 0xE1, CHR 0x9A, CHR 0x80],
      [CHR 0xE2, CHR 0x80, CHR 0x80], [CHR 0xE2, CHR 0x80, CHR 0x81],
      [CHR 0xE2, CHR 0x80, CHR 0x82], [CHR 0xE2, CHR 0x80, CHR 0x83],
      [CHR 0xE2, CHR 0x80, CHR 0x84], [CHR 0xE2, CHR 0x80, CHR 0x85],
      [CHR 0xE2, CHR 0x80, CHR 0x86], [CHR 0xE2, CHR 0x80, CHR 0x87],
      [CHR 0xE2, CHR 0x80, CHR 0x88], [CHR 0xE2, CHR 0x80, CHR 0x89],
      [CHR 0xE2, CHR 0x80, CHR 0x8A], [CHR 0xE2, CHR 0x80, CHR 0xA8],
      [CHR 0xE2, CHR 0x80, CHR 0xA9], [CHR 0xE2, CHR 0x80, CHR 0xAF],
      [CHR 0xE2, CHR 0x81, CHR 0x9F], [CHR 0xE3, CHR 0x80, CHR 0x80]]"

section \<open>Prefixes, suffixes, containment\<close>

definition has_prefix :: "string \<Rightarrow> string \<Rightarrow> bool" where
  "has_prefix s p \<longleftrightarrow> prefix p s"

definition has_suffix :: "string \<Rightarrow> string \<Rightarrow> bool" where
  "has_suffix s p \<longleftrightarrow> suffix p s"

text \<open>\<open>strings.CutPrefix\<close>: \<open>None\<close> is the result \<open>s, false\<close>.\<close>

definition cut_prefix :: "string \<Rightarrow> string \<Rightarrow> string option" where
  "cut_prefix s p = (if prefix p s then Some (drop (length p) s) else None)"

definition trim_prefix :: "string \<Rightarrow> string \<Rightarrow> string" where
  "trim_prefix s p = (if prefix p s then drop (length p) s else s)"

definition trim_suffix :: "string \<Rightarrow> string \<Rightarrow> string" where
  "trim_suffix s p = (if suffix p s then take (length s - length p) s else s)"

fun contains :: "string \<Rightarrow> string \<Rightarrow> bool" where
  "contains [] p = (p = [])"
| "contains (c # s) p = (prefix p (c # s) \<or> contains s p)"

definition count_byte :: "char \<Rightarrow> string \<Rightarrow> nat" where
  "count_byte c s = length (filter (\<lambda>d. d = c) s)"

definition remove_byte :: "char \<Rightarrow> string \<Rightarrow> string" where
  "remove_byte c s = filter (\<lambda>d. d \<noteq> c) s"

lemma cut_prefix_Some: "cut_prefix s p = Some r \<longleftrightarrow> s = p @ r"
  by (auto simp: cut_prefix_def prefix_def)

lemma cut_prefix_append [simp]: "cut_prefix (p @ r) p = Some r"
  by (simp add: cut_prefix_Some)

lemma remove_byte_notin [simp]: "c \<notin> set (remove_byte c s)"
  by (simp add: remove_byte_def)

lemma remove_byte_id: "c \<notin> set s \<Longrightarrow> remove_byte c s = s"
  by (auto simp: remove_byte_def filter_id_conv)

lemma contains_iff: "contains s p \<longleftrightarrow> (\<exists>u v. s = u @ p @ v)"
proof (induction s p rule: contains.induct)
  case (1 p)
  then show ?case by auto
next
  case (2 c s p)
  show ?case
  proof
    assume "contains (c # s) p"
    then consider "prefix p (c # s)" | "contains s p" by auto
    then show "\<exists>u v. c # s = u @ p @ v"
    proof cases
      case 1
      then obtain v where "c # s = p @ v" by (auto simp: prefix_def)
      then have "c # s = [] @ p @ v" by simp
      then show ?thesis by blast
    next
      case 2
      then obtain u v where "s = u @ p @ v" using "2.IH" by blast
      then have "c # s = (c # u) @ p @ v" by simp
      then show ?thesis by blast
    qed
  next
    assume "\<exists>u v. c # s = u @ p @ v"
    then obtain u v where uv: "c # s = u @ p @ v" by blast
    show "contains (c # s) p"
    proof (cases u)
      case Nil
      with uv have "prefix p (c # s)" by simp
      then show ?thesis by simp
    next
      case (Cons a u')
      with uv have "s = u' @ p @ v" by simp
      then show ?thesis using "2.IH" by auto
    qed
  qed
qed

lemma contains_self [simp]: "contains s s"
  by (cases s) auto

section \<open>Splitting and joining\<close>

text \<open>\<open>strings.Cut(s, sep)\<close> for a one-byte separator: before, after, found.\<close>

definition cut_byte :: "char \<Rightarrow> string \<Rightarrow> string \<times> string \<times> bool" where
  "cut_byte c s = (takeWhile (\<lambda>d. d \<noteq> c) s, drop 1 (dropWhile (\<lambda>d. d \<noteq> c) s), c \<in> set s)"

fun split_byte :: "char \<Rightarrow> string \<Rightarrow> string list" where
  "split_byte c [] = [[]]"
| "split_byte c (d # s) =
     (if d = c then [] # split_byte c s
      else (case split_byte c s of [] \<Rightarrow> [[d]] | w # ws \<Rightarrow> (d # w) # ws))"

text \<open>\<open>strings.SplitN(s, sep, n)\<close>: at most \<open>n\<close> pieces, the last one unsplit.\<close>

fun split_n :: "char \<Rightarrow> nat \<Rightarrow> string \<Rightarrow> string list" where
  "split_n c 0 s = []"
| "split_n c (Suc n) s =
     (if n = 0 \<or> c \<notin> set s then [s]
      else takeWhile (\<lambda>d. d \<noteq> c) s # split_n c n (drop 1 (dropWhile (\<lambda>d. d \<noteq> c) s)))"

fun join :: "string \<Rightarrow> string list \<Rightarrow> string" where
  "join sep [] = []"
| "join sep [w] = w"
| "join sep (w # ws) = w @ sep @ join sep ws"

lemma split_byte_nonempty [simp]: "split_byte c s \<noteq> []"
  by (cases s) (auto split: list.splits)

lemma takeWhile_hit [simp]:
  "c \<notin> set w \<Longrightarrow> takeWhile (\<lambda>d. d \<noteq> c) (w @ c # s) = w"
  by (induction w) auto

lemma dropWhile_hit [simp]:
  "c \<notin> set w \<Longrightarrow> dropWhile (\<lambda>d. d \<noteq> c) (w @ c # s) = c # s"
  by (induction w) auto

lemma takeWhile_miss [simp]:
  "c \<notin> set w \<Longrightarrow> takeWhile (\<lambda>d. d \<noteq> c) w = w"
  by (induction w) auto

lemma dropWhile_miss [simp]:
  "c \<notin> set w \<Longrightarrow> dropWhile (\<lambda>d. d \<noteq> c) w = []"
  by (induction w) auto

lemma cut_byte_hit [simp]: "c \<notin> set w \<Longrightarrow> cut_byte c (w @ c # s) = (w, s, True)"
  by (simp add: cut_byte_def)

lemma cut_byte_miss [simp]: "c \<notin> set w \<Longrightarrow> cut_byte c w = (w, [], False)"
  by (simp add: cut_byte_def)

lemma split_byte_hit [simp]: "c \<notin> set w \<Longrightarrow> split_byte c (w @ c # s) = w # split_byte c s"
  by (induction w) auto

lemma split_byte_miss [simp]: "c \<notin> set w \<Longrightarrow> split_byte c w = [w]"
  by (induction w) auto

lemma split_byte_notin: "w \<in> set (split_byte c s) \<Longrightarrow> c \<notin> set w"
  by (induction s arbitrary: w) (auto split: if_splits list.splits)

lemma hd_split_byte: "hd (split_byte c s) = takeWhile (\<lambda>d. d \<noteq> c) s"
  by (induction s) (auto split: list.splits)

lemma join_split_byte: "join [c] (split_byte c s) = s"
proof (induction s)
  case Nil
  then show ?case by simp
next
  case (Cons d s)
  obtain w ws where ws: "split_byte c s = w # ws"
    by (meson list.exhaust split_byte_nonempty)
  with Cons show ?case by (cases ws) auto
qed

lemma split_join_byte:
  "ws \<noteq> [] \<Longrightarrow> (\<And>w. w \<in> set ws \<Longrightarrow> c \<notin> set w) \<Longrightarrow> split_byte c (join [c] ws) = ws"
proof (induction ws)
  case Nil
  then show ?case by simp
next
  case (Cons w ws)
  then show ?case by (cases ws) simp_all
qed

section \<open>Trimming\<close>

definition space_len :: "string list \<Rightarrow> string \<Rightarrow> nat" where
  "space_len encs s = (case find (\<lambda>w. prefix w s) encs of None \<Rightarrow> 0 | Some w \<Rightarrow> length w)"

lemma space_len_le: "space_len encs s \<le> length s"
  by (auto simp: space_len_def find_Some_iff split: option.splits dest: prefix_length_le)

function strip :: "string list \<Rightarrow> string \<Rightarrow> string" where
  "strip encs s = (if space_len encs s = 0 then s else strip encs (drop (space_len encs s) s))"
  by pat_completeness auto
termination
proof (relation "measure (\<lambda>(encs, s). length s)", simp)
  fix encs s assume h: "space_len encs s \<noteq> 0"
  then have "s \<noteq> []" using space_len_le [of encs s] by auto
  with h show "((encs, drop (space_len encs s) s), encs, s) \<in> measure (\<lambda>(encs, s). length s)"
    by simp
qed

declare strip.simps [simp del]

definition trim_left_space :: "string \<Rightarrow> string" where
  "trim_left_space s = strip space_encodings s"

definition trim_right_space :: "string \<Rightarrow> string" where
  "trim_right_space s = rev (strip (map rev space_encodings) (rev s))"

definition trim_space :: "string \<Rightarrow> string" where
  "trim_space s = trim_right_space (trim_left_space s)"

text \<open>\<open>strings.TrimRight(s, cutset)\<close> for an ASCII cutset.\<close>

definition trim_right_set :: "char list \<Rightarrow> string \<Rightarrow> string" where
  "trim_right_set cs s = rev (dropWhile (\<lambda>c. c \<in> set cs) (rev s))"

text \<open>Bytes that begin or end no white space: trimming stops at them.\<close>

definition solid :: "char \<Rightarrow> bool" where
  "solid c \<longleftrightarrow> (\<forall>w \<in> set space_encodings. hd w \<noteq> c \<and> last w \<noteq> c)"

lemma strip_stop: "space_len encs s = 0 \<Longrightarrow> strip encs s = s"
  by (subst strip.simps) simp

lemma strip_space_len: "space_len encs (strip encs s) = 0"
  by (induction encs s rule: strip.induct) (subst (1) strip.simps, simp)

lemma strip_idem: "strip encs (strip encs s) = strip encs s"
  by (simp add: strip_stop strip_space_len)

lemma strip_suffix: "suffix (strip encs s) s"
proof (induction encs s rule: strip.induct)
  case (1 encs s)
  then show ?case
    by (subst strip.simps) (auto intro: suffix_order.trans suffix_drop)
qed

lemma space_len_solid:
  assumes "\<And>w. w \<in> set encs \<Longrightarrow> w \<noteq> []" "\<And>w. w \<in> set encs \<Longrightarrow> hd w \<noteq> c"
  shows "space_len encs (c # s) = 0"
proof -
  have "\<not> prefix w (c # s)" if "w \<in> set encs" for w
    using assms [OF that] by (cases w) auto
  then have "find (\<lambda>w. prefix w (c # s)) encs = None"
    by (auto simp: find_None_iff)
  then show ?thesis by (simp add: space_len_def)
qed

lemma space_len_Nil: "(\<And>w. w \<in> set encs \<Longrightarrow> w \<noteq> []) \<Longrightarrow> space_len encs [] = 0"
  by (auto simp: space_len_def find_Some_iff split: option.splits)

lemma space_encodings_nonempty: "w \<in> set space_encodings \<Longrightarrow> w \<noteq> []"
  by (auto simp: space_encodings_def)

lemma trim_left_solid: "s = [] \<or> solid (hd s) \<Longrightarrow> trim_left_space s = s"
  by (cases s)
    (auto simp: trim_left_space_def solid_def intro!: strip_stop space_len_solid space_len_Nil
      dest: space_encodings_nonempty)

lemma trim_right_solid:
  assumes "s = [] \<or> solid (last s)"
  shows "trim_right_space s = s"
proof (cases s rule: rev_cases)
  case Nil
  have "space_len (map rev space_encodings) [] = 0"
    by (rule space_len_Nil) (auto dest: space_encodings_nonempty)
  with Nil show ?thesis by (simp add: trim_right_space_def strip_stop)
next
  case (snoc t c)
  have "space_len (map rev space_encodings) (c # rev t) = 0"
    using assms snoc
    by (intro space_len_solid) (auto simp: solid_def hd_rev dest: space_encodings_nonempty)
  with snoc show ?thesis by (simp add: trim_right_space_def strip_stop)
qed

lemma trim_space_solid:
  "s = [] \<or> (solid (hd s) \<and> solid (last s)) \<Longrightarrow> trim_space s = s"
  by (auto simp: trim_space_def trim_left_solid trim_right_solid)

lemma trim_space_Nil [simp]: "trim_space [] = []"
  by (simp add: trim_space_solid)

text \<open>\<open>strings.Fields\<close>: the maximal runs without white space.\<close>

function fields_aux :: "string \<Rightarrow> string \<Rightarrow> string list" where
  "fields_aux [] w = (if w = [] then [] else [rev w])"
| "fields_aux (c # s) w =
     (if space_len space_encodings (c # s) = 0 then fields_aux s (c # w)
      else (if w = [] then [] else [rev w]) @
        fields_aux (drop (space_len space_encodings (c # s)) (c # s)) [])"
  by pat_completeness auto
termination
  by (relation "measure (\<lambda>(s, w). length s)") auto

definition fields :: "string \<Rightarrow> string list" where
  "fields s = fields_aux s []"

section \<open>Letter case\<close>

text \<open>
  \<open>strings.ToLower\<close> as the program uses it: to compare with ASCII words. ASCII letters and
  the two non-ASCII code points whose lower case is ASCII (U+212A to \<open>k\<close>, U+0130 to \<open>i\<close>)
  are mapped; other bytes stay, which no comparison with an ASCII word can observe.
\<close>

definition ascii_lower :: "char \<Rightarrow> char" where
  "ascii_lower c = (if 65 \<le> (of_char c :: nat) \<and> (of_char c :: nat) \<le> 90
                    then char_of ((of_char c :: nat) + 32) else c)"

fun to_lower :: "string \<Rightarrow> string" where
  "to_lower [] = []"
| "to_lower (c # s) =
     (if prefix [CHR 0xE2, CHR 0x84, CHR 0xAA] (c # s) then CHR ''k'' # to_lower (drop 2 s)
      else if prefix [CHR 0xC4, CHR 0xB0] (c # s) then CHR ''i'' # to_lower (drop 1 s)
      else ascii_lower c # to_lower s)"

text \<open>
  \<open>strings.EqualFold\<close> where one of the strings is ASCII: case folding relates an ASCII letter
  to its other case, \<open>k\<close> also to U+212A and \<open>s\<close> to U+017F.
\<close>

fun fold_case :: "string \<Rightarrow> string" where
  "fold_case [] = []"
| "fold_case (c # s) =
     (if prefix [CHR 0xE2, CHR 0x84, CHR 0xAA] (c # s) then CHR ''k'' # fold_case (drop 2 s)
      else if prefix [CHR 0xC5, CHR 0xBF] (c # s) then CHR ''s'' # fold_case (drop 1 s)
      else ascii_lower c # fold_case s)"

definition equal_fold :: "string \<Rightarrow> string \<Rightarrow> bool" where
  "equal_fold s t \<longleftrightarrow> fold_case s = fold_case t"

section \<open>Decimal numbers\<close>

definition digit_char :: "nat \<Rightarrow> char" where
  "digit_char d = char_of (48 + d)"

definition is_digit :: "char \<Rightarrow> bool" where
  "is_digit c \<longleftrightarrow> 48 \<le> (of_char c :: nat) \<and> (of_char c :: nat) \<le> 57"

definition digit_val :: "char \<Rightarrow> nat" where
  "digit_val c = (of_char c :: nat) - 48"

fun show_nat :: "nat \<Rightarrow> string" where
  "show_nat n = (if n < 10 then [digit_char n] else show_nat (n div 10) @ [digit_char (n mod 10)])"

declare show_nat.simps [simp del]

definition show_int :: "int \<Rightarrow> string" where
  "show_int i = (if i < 0 then CHR ''-'' # show_nat (nat (- i)) else show_nat (nat i))"

definition digits_val :: "string \<Rightarrow> nat" where
  "digits_val s = foldl (\<lambda>n c. 10 * n + digit_val c) 0 s"

text \<open>
  \<open>strconv.ParseUint(s, 10, 64)\<close> and \<open>strconv.ParseInt(s, 10, 64)\<close> (also \<open>Atoi\<close> on
  64-bit platforms): \<open>None\<close> is a syntax or range error.
\<close>

definition parse_uint64 :: "string \<Rightarrow> nat option" where
  "parse_uint64 s =
     (if s \<noteq> [] \<and> list_all is_digit s \<and> digits_val s \<le> 18446744073709551615
      then Some (digits_val s) else None)"

definition parse_int64 :: "string \<Rightarrow> int option" where
  "parse_int64 s =
     (let neg = (case s of c # _ \<Rightarrow> c = CHR ''-'' | [] \<Rightarrow> False);
          body = (case s of c # r \<Rightarrow> if c = CHR ''-'' \<or> c = CHR ''+'' then r else s | [] \<Rightarrow> s)
      in if body \<noteq> [] \<and> list_all is_digit body
         then (let v = (if neg then - int (digits_val body) else int (digits_val body))
               in if in_int64 v then Some v else None)
         else None)"

lemma of_char_digit_char: "d < 10 \<Longrightarrow> (of_char (digit_char d) :: nat) = 48 + d"
  by (simp add: digit_char_def)

lemma is_digit_digit_char [simp]: "d < 10 \<Longrightarrow> is_digit (digit_char d)"
  by (simp add: is_digit_def of_char_digit_char)

lemma digit_val_digit_char [simp]: "d < 10 \<Longrightarrow> digit_val (digit_char d) = d"
  by (simp add: digit_val_def of_char_digit_char)

lemma show_nat_nonempty [simp]: "show_nat n \<noteq> []"
  by (subst show_nat.simps) simp

lemma show_nat_digits: "list_all is_digit (show_nat n)"
proof (induction n rule: show_nat.induct)
  case (1 n)
  then show ?case by (subst show_nat.simps) auto
qed

lemma digits_val_show_nat: "digits_val (show_nat n) = n"
proof (induction n rule: show_nat.induct)
  case (1 n)
  then show ?case
    by (subst show_nat.simps) (auto simp: digits_val_def)
qed

lemma digit_solid: "is_digit c \<Longrightarrow> solid c"
  by (auto simp: is_digit_def solid_def space_encodings_def)

lemma digit_not_comma: "is_digit c \<Longrightarrow> c \<noteq> CHR '','' \<and> c \<noteq> newline \<and> c \<noteq> carriage_return \<and> c \<noteq> CHR ''-'' \<and> c \<noteq> CHR ''+''"
  by (auto simp: is_digit_def newline_def carriage_return_def)

lemma minus_solid: "solid (CHR ''-'')"
  by (auto simp: solid_def space_encodings_def)

lemma show_int_nonempty [simp]: "show_int i \<noteq> []"
  by (simp add: show_int_def)

lemma show_int_chars: "c \<in> set (show_int i) \<Longrightarrow> is_digit c \<or> c = CHR ''-''"
  using show_nat_digits by (auto simp: show_int_def list_all_iff split: if_splits)

lemma show_int_no_separators:
  "CHR '','' \<notin> set (show_int i) \<and> newline \<notin> set (show_int i) \<and> carriage_return \<notin> set (show_int i)"
  by (auto dest!: show_int_chars simp: digit_not_comma newline_def carriage_return_def
      dest: digit_not_comma)

lemma show_int_trim [simp]: "trim_space (show_int i) = show_int i"
proof -
  have "solid c" if "c \<in> set (show_int i)" for c
    using show_int_chars [OF that] digit_solid minus_solid by auto
  then show ?thesis
    by (intro trim_space_solid) (simp add: list.set_sel last_in_set)
qed

lemma parse_uint64_show_nat [simp]:
  "n \<le> 18446744073709551615 \<Longrightarrow> parse_uint64 (show_nat n) = Some n"
  by (simp add: parse_uint64_def show_nat_digits digits_val_show_nat)

text \<open>Printing an \<open>int64\<close> and parsing it back is the identity.\<close>

lemma parse_int64_show_int [simp]:
  assumes "in_int64 i"
  shows "parse_int64 (show_int i) = Some i"
proof (cases "i < 0")
  case True
  then show ?thesis
    using assms
    by (simp add: parse_int64_def show_int_def show_nat_digits digits_val_show_nat Let_def)
next
  case False
  obtain d r where dr: "show_nat (nat i) = d # r"
    by (meson list.exhaust show_nat_nonempty)
  with show_nat_digits [of "nat i"] have "is_digit d" by simp
  then have "d \<noteq> CHR ''-''" "d \<noteq> CHR ''+''" by (auto dest: digit_not_comma)
  with False dr show ?thesis
    using assms show_nat_digits [of "nat i"] digits_val_show_nat [of "nat i"]
    by (simp add: parse_int64_def show_int_def Let_def)
qed

lemma parse_int64_range: "parse_int64 s = Some i \<Longrightarrow> in_int64 i"
  by (auto simp: parse_int64_def Let_def split: if_splits)

section \<open>Lines of a file: \<open>bufio.Scanner\<close>\<close>

text \<open>
  \<open>bufio.Scanner\<close> with \<open>ScanLines\<close>: lines end at a newline, a final newline starts no
  further line, one carriage return at the end of a line is dropped, and a line that does
  not fit the 64 KiB buffer stops the scan with an error. The result is the lines the loop
  sees and whether \<open>scanner.Err()\<close> is nil.
\<close>

definition max_scan_token :: nat where "max_scan_token = 65536"

definition drop_cr :: "string \<Rightarrow> string" where
  "drop_cr s = (if s \<noteq> [] \<and> last s = carriage_return then butlast s else s)"

fun raw_lines :: "string list \<Rightarrow> string list" where
  "raw_lines [] = []"
| "raw_lines [w] = (if w = [] then [] else [w])"
| "raw_lines (w # v # ws) = w # raw_lines (v # ws)"

definition scan_lines :: "string \<Rightarrow> string list \<times> bool" where
  "scan_lines s =
     (let ls = raw_lines (split_byte newline s)
      in (map drop_cr (takeWhile (\<lambda>l. length l < max_scan_token) ls),
          list_all (\<lambda>l. length l < max_scan_token) ls))"

text \<open>The file the loops of \<open>fmt.Fprintln\<close> write.\<close>

definition unlines :: "string list \<Rightarrow> string" where
  "unlines ls = concat (map (\<lambda>l. l @ [newline]) ls)"

definition plain_line :: "string \<Rightarrow> bool" where
  "plain_line l \<longleftrightarrow> newline \<notin> set l \<and> carriage_return \<notin> set l \<and> length l < max_scan_token"

lemma unlines_append [simp]: "unlines (xs @ ys) = unlines xs @ unlines ys"
  by (simp add: unlines_def)

lemma raw_lines_unlines:
  "(\<And>l. l \<in> set ls \<Longrightarrow> newline \<notin> set l) \<Longrightarrow> raw_lines (split_byte newline (unlines ls)) = ls"
proof (induction ls)
  case Nil
  then show ?case by (simp add: unlines_def)
next
  case (Cons l ls)
  obtain v vs where v: "split_byte newline (unlines ls) = v # vs"
    by (meson list.exhaust split_byte_nonempty)
  have "split_byte newline (unlines (l # ls)) = l # split_byte newline (unlines ls)"
    using Cons.prems by (simp add: unlines_def)
  with Cons v show ?case by simp
qed

lemma drop_cr_plain: "carriage_return \<notin> set l \<Longrightarrow> drop_cr l = l"
  by (cases l rule: rev_cases) (auto simp: drop_cr_def)

text \<open>Reading back a file of plain lines gives exactly the lines written.\<close>

lemma scan_unlines:
  assumes "\<And>l. l \<in> set ls \<Longrightarrow> plain_line l"
  shows "scan_lines (unlines ls) = (ls, True)"
proof -
  have "raw_lines (split_byte newline (unlines ls)) = ls"
    using assms by (intro raw_lines_unlines) (auto simp: plain_line_def)
  moreover have "takeWhile (\<lambda>l. length l < max_scan_token) ls = ls"
    using assms by (auto simp: takeWhile_eq_all_conv plain_line_def)
  moreover have "map drop_cr ls = ls"
    using assms by (auto intro!: map_idI drop_cr_plain simp: plain_line_def)
  moreover have "list_all (\<lambda>l. length l < max_scan_token) ls"
    using assms by (simp add: list_all_iff plain_line_def)
  ultimately show ?thesis
    by (simp only: scan_lines_def Let_def)
qed

lemma raw_lines_no_newline:
  "l \<in> set (raw_lines (split_byte newline s)) \<Longrightarrow> newline \<notin> set l"
proof -
  have "set (raw_lines ws) \<subseteq> set ws" for ws
    by (induction ws rule: raw_lines.induct) auto
  then show "l \<in> set (raw_lines (split_byte newline s)) \<Longrightarrow> newline \<notin> set l"
    by (blast dest: split_byte_notin)
qed

lemma scan_lines_no_newline: "l \<in> set (fst (scan_lines s)) \<Longrightarrow> newline \<notin> set l"
  by (auto simp: scan_lines_def Let_def drop_cr_def dest!: set_takeWhileD raw_lines_no_newline
      dest: in_set_butlastD split: if_splits)

lemma scan_lines_Nil [simp]: "scan_lines [] = ([], True)"
  by (simp add: scan_lines_def)

end
