(* ===== verification/Registry.thy ===== *)
theory Registry
  imports Go_Strings
begin

text \<open>
  The two registries whose entries are replaced by newer sessions: the invite routes of the
  control server (\<open>control.go\<close>) and the latency registry of the relay
  (\<open>bridge/pingserver.go\<close>). Both delete an entry only when it is still the one the leaving
  session put there, by comparing pointers; a pointer is a number, given out in order.
\<close>

section \<open>The contract of a registry of sessions\<close>

locale session_registry =
  fixes put :: "'k \<Rightarrow> 'v \<Rightarrow> 's \<Rightarrow> 's"
    and touch :: "'k \<Rightarrow> 'u \<Rightarrow> 's \<Rightarrow> 's"
    and remove :: "'k \<Rightarrow> nat \<Rightarrow> 's \<Rightarrow> 's"
    and look :: "'s \<Rightarrow> 'k \<Rightarrow> nat option"
    and fresh :: "'s \<Rightarrow> nat"
  assumes put_look: "look (put k v s) j = (if j = k then Some (fresh s) else look s j)"
    and put_fresh: "fresh (put k v s) = Suc (fresh s)"
    and touch_look: "look (touch k u s) j = look s j"
    and touch_fresh: "fresh (touch k u s) = fresh s"
    and remove_look: "look (remove k i s) j = (if j = k \<and> look s k = Some i then None else look s j)"
    and remove_fresh: "fresh (remove k i s) = fresh s"
begin

definition wf :: "'s \<Rightarrow> bool" where
  "wf s \<longleftrightarrow> (\<forall>k i. look s k = Some i \<longrightarrow> i < fresh s)"

lemma wf_put: "wf s \<Longrightarrow> wf (put k v s)"
  by (auto simp: wf_def put_look put_fresh less_Suc_eq)

lemma wf_touch: "wf s \<Longrightarrow> wf (touch k u s)"
  by (simp add: wf_def touch_look touch_fresh)

lemma wf_remove: "wf s \<Longrightarrow> wf (remove k i s)"
  by (auto simp: wf_def remove_look remove_fresh split: if_splits)

text \<open>An entry outlives everything but its own removal and a newer entry under its key.\<close>

lemma kept:
  assumes "look s k = Some i"
  shows "j \<noteq> k \<Longrightarrow> look (put j v s) k = Some i" "look (touch j u s) k = Some i"
    "\<not> (j = k \<and> h = i) \<Longrightarrow> look (remove j h s) k = Some i"
  using assms by (auto simp: put_look touch_look remove_look)

text \<open>The older session that leaves late removes nothing.\<close>

lemma late_leave:
  assumes "wf s" "look s k = Some i"
  shows "look (remove k i (put k v s)) k = Some (fresh s)"
  using assms by (auto simp: put_look remove_look wf_def)

end

section \<open>The control server\<close>

record 'h control_server =
  cs_debug :: bool
  cs_invites :: "string \<rightharpoonup> nat \<times> 'h"
  cs_next :: nat

definition new_control_server :: "bool \<Rightarrow> 'h control_server" where
  "new_control_server debug = \<lparr>cs_debug = debug, cs_invites = Map.empty, cs_next = 0\<rparr>"

definition set_invites :: "string \<Rightarrow> 'h \<Rightarrow> 'h control_server \<Rightarrow> 'h control_server" where
  "set_invites name h c =
     c\<lparr>cs_invites := (cs_invites c)(name \<mapsto> (cs_next c, h)), cs_next := Suc (cs_next c)\<rparr>"

text \<open>What the goroutine of \<open>setInvites\<close> does when the session of slot \<open>slot\<close> ends.\<close>

definition session_over :: "string \<Rightarrow> nat \<Rightarrow> 'h control_server \<Rightarrow> 'h control_server" where
  "session_over name slot c =
     (if map_option fst (cs_invites c name) = Some slot
      then c\<lparr>cs_invites := (cs_invites c)(name := None)\<rparr> else c)"

definition control_broadcast_prefix :: string where
  "control_broadcast_prefix = ''/broadcast/''"

datatype 'h control_reply =
    PingPage
  | ProfilerOff
  | ProfilerPage
  | NoSuchPage
  | ControlsDown string
  | Routed 'h string

text \<open>\<open>ServeHTTP\<close>: which handler answers and the path it is given.\<close>

definition serve_http :: "'h control_server \<Rightarrow> string \<Rightarrow> 'h control_reply" where
  "serve_http c path =
     (if path = ''/ping'' then PingPage
      else if has_prefix path ''/debug/pprof''
      then (if \<not> cs_debug c then ProfilerOff else ProfilerPage)
      else
        (let (name, path) =
           (case cut_prefix path control_broadcast_prefix of
              None \<Rightarrow> (''primary'', path)
            | Some rest \<Rightarrow>
                (let (name, sub, found) = cut_byte CHR ''/'' rest in (name, ''/'' @ sub)))
         in if \<not> has_prefix path ''/invites/'' \<and> \<not> has_prefix path ''/friends/'' then NoSuchPage
            else (case cs_invites c name of
                    None \<Rightarrow> ControlsDown name
                  | Some (slot, h) \<Rightarrow> Routed h path)))"

definition control_slot :: "'h control_server \<Rightarrow> string \<Rightarrow> nat option" where
  "control_slot c name = map_option fst (cs_invites c name)"

interpretation control: session_registry set_invites "\<lambda>k (u::unit) c. c" session_over control_slot cs_next
  by unfold_locales (auto simp: set_invites_def session_over_def control_slot_def)

section \<open>The latency registry\<close>

text \<open>
  \<open>'c\<close> stands for connections, which only have to report a latency; the report is an argument of
  the handler, as it may differ from call to call.
\<close>

record 'c conn_latencies =
  cl_client :: 'c
  cl_backend :: "'c option"

record 'c ping_registry =
  pr_entries :: "xuid \<rightharpoonup> nat \<times> 'c conn_latencies"
  pr_next :: nat

definition register_ping :: "xuid \<Rightarrow> 'c \<Rightarrow> 'c ping_registry \<Rightarrow> 'c ping_registry" where
  "register_ping x conn r =
     r\<lparr>pr_entries := (pr_entries r)(x \<mapsto> (pr_next r, \<lparr>cl_client = conn, cl_backend = None\<rparr>)),
       pr_next := Suc (pr_next r)\<rparr>"

definition register_backend_ping :: "xuid \<Rightarrow> 'c \<Rightarrow> 'c ping_registry \<Rightarrow> 'c ping_registry" where
  "register_backend_ping x conn r =
     (case pr_entries r x of
        None \<Rightarrow> r
      | Some (i, l) \<Rightarrow> r\<lparr>pr_entries := (pr_entries r)(x \<mapsto> (i, l\<lparr>cl_backend := Some conn\<rparr>))\<rparr>)"

definition unregister_ping :: "xuid \<Rightarrow> nat \<Rightarrow> 'c ping_registry \<Rightarrow> 'c ping_registry" where
  "unregister_ping x entry r =
     (if map_option fst (pr_entries r x) = Some entry
      then r\<lparr>pr_entries := (pr_entries r)(x := None)\<rparr> else r)"

definition connected_xuids :: "'c ping_registry \<Rightarrow> xuid set" where
  "connected_xuids r = dom (pr_entries r)"

datatype ping_reply = MissingXuid | NotConnected | Latencies int int int

definition round_trip_ms :: "duration \<Rightarrow> int" where
  "round_trip_ms d = wrap64 (go_div d millisecond * 2)"

definition ping_handler :: "('c \<Rightarrow> duration) \<Rightarrow> 'c ping_registry \<Rightarrow> string \<Rightarrow> ping_reply" where
  "ping_handler latency r x =
     (if x = '''' then MissingXuid
      else (case pr_entries r x of
              None \<Rightarrow> NotConnected
            | Some (i, l) \<Rightarrow>
                (let client_ms = round_trip_ms (latency (cl_client l));
                     backend_ms = (case cl_backend l of None \<Rightarrow> 0 | Some b \<Rightarrow> round_trip_ms (latency b));
                     total_ms = (case cl_backend l of None \<Rightarrow> client_ms | Some b \<Rightarrow> wrap64 (client_ms + backend_ms))
                 in Latencies total_ms client_ms backend_ms)))"

definition ping_slot :: "'c ping_registry \<Rightarrow> xuid \<Rightarrow> nat option" where
  "ping_slot r x = map_option fst (pr_entries r x)"

interpretation ping: session_registry register_ping register_backend_ping unregister_ping ping_slot pr_next
  by unfold_locales
    (auto simp: register_ping_def register_backend_ping_def unregister_ping_def ping_slot_def split: option.split)

section \<open>Runs of the latency registry\<close>

datatype 'c ping_event = Joined xuid 'c | BackendUp xuid 'c | Left xuid nat

fun ping_step :: "'c ping_registry \<Rightarrow> 'c ping_event \<Rightarrow> 'c ping_registry" where
  "ping_step r (Joined x c) = register_ping x c r"
| "ping_step r (BackendUp x c) = register_backend_ping x c r"
| "ping_step r (Left x i) = unregister_ping x i r"

definition no_ping :: "'c ping_registry" where
  "no_ping = \<lparr>pr_entries = Map.empty, pr_next = 0\<rparr>"

lemma ping_wf_step: "ping.wf r \<Longrightarrow> ping.wf (ping_step r e)"
  by (cases e) (auto intro: ping.wf_put ping.wf_touch ping.wf_remove)

interpretation ping_run: invariant_machine ping_step ping.wf
  by unfold_locales (rule ping_wf_step)

definition leaves_alone :: "xuid \<Rightarrow> nat \<Rightarrow> 'c ping_event \<Rightarrow> bool" where
  "leaves_alone x i e = (case e of Joined y c \<Rightarrow> y \<noteq> x | BackendUp y c \<Rightarrow> True | Left y j \<Rightarrow> \<not> (y = x \<and> j = i))"

lemma ping_step_keeps:
  "ping_slot r x = Some i \<Longrightarrow> leaves_alone x i e \<Longrightarrow> ping_slot (ping_step r e) x = Some i"
  by (cases e) (auto simp: leaves_alone_def intro: ping.kept)

lemma ping_run_slot:
  "ping_slot r x = Some i \<Longrightarrow> list_all (leaves_alone x i) es \<Longrightarrow> ping_slot (foldl ping_step r es) x = Some i"
  by (induction es arbitrary: r) (auto simp: ping_step_keeps)

section \<open>Properties\<close>

text \<open>
  A player whose session was replaced by a newer one stays listed until the newer one
  leaves: whatever sessions of any players do in between, the old session's late departure
  included, the entry of the newer session is there; and its own departure removes it.
\<close>

theorem newer_session_stays_connected:
  fixes conn :: 'c
  assumes "ping_slot (foldl ping_step no_ping before) x = Some old"
    and "list_all (leaves_alone x (pr_next (foldl ping_step no_ping before))) later"
  defines "r \<equiv> foldl ping_step no_ping (before @ [Joined x conn] @ later)"
  shows "x \<in> connected_xuids r \<and> x \<in> connected_xuids (ping_step r (Left x old)) \<and>
    x \<notin> connected_xuids (ping_step r (Left x (pr_next (foldl ping_step no_ping before))))"
proof -
  define m where "m = foldl ping_step no_ping before"
  have "ping.wf (no_ping :: 'c ping_registry)"
    by (simp add: ping.wf_def no_ping_def ping_slot_def)
  then have wf: "ping.wf m" unfolding m_def by (rule ping_run.run_keeps)
  then have old: "old < pr_next m" using assms(1) by (auto simp: ping.wf_def m_def)
  have "ping_slot (ping_step m (Joined x conn)) x = Some (pr_next m)" by (simp add: ping.put_look)
  from ping_run_slot [OF this, of later] assms(2) have slot: "ping_slot r x = Some (pr_next m)"
    by (simp add: r_def m_def)
  have conn: "x \<in> connected_xuids q \<longleftrightarrow> ping_slot q x \<noteq> None" for q :: "'c ping_registry"
    by (auto simp: connected_xuids_def ping_slot_def)
  show ?thesis using old slot by (simp add: conn ping.remove_look flip: m_def)
qed

theorem newer_session_stays_connected_witness:
  "''5'' \<in> connected_xuids (foldl ping_step no_ping
     ([Joined ''5'' (1::nat)] @ [Joined ''5'' 2] @ [BackendUp ''5'' 3, Left ''5'' 0, Joined ''6'' 4]))"
proof -
  have "ping_slot (foldl ping_step no_ping [Joined ''5'' (1::nat)]) ''5'' = Some 0"
    "pr_next (foldl ping_step no_ping [Joined ''5'' (1::nat)]) = 1"
    by (simp_all add: register_ping_def no_ping_def ping_slot_def)
  moreover have "list_all (leaves_alone ''5'' 1) [BackendUp ''5'' (3::nat), Left ''5'' 0, Joined ''6'' 4]"
    by (simp add: leaves_alone_def)
  ultimately show ?thesis
    using newer_session_stays_connected [of "[Joined ''5'' (1::nat)]" "''5''" 0
        "[BackendUp ''5'' 3, Left ''5'' 0, Joined ''6'' 4]" 2] by simp
qed

text \<open>
  The control server hands a request to the routes of the newest session of the broadcast
  the path names, with the prefix removed, and of the primary broadcast when it names none. An
  older session that ends late does not take the routes down; the newest one does.
\<close>

theorem control_routes_newest:
  assumes "CHR ''/'' \<notin> set name" "has_prefix sub ''invites/'' \<or> has_prefix sub ''friends/''"
  shows "serve_http (session_over name old (set_invites name h c)) (control_broadcast_prefix @ name @ ''/'' @ sub) =
    (if old = cs_next c then ControlsDown name else Routed h (''/'' @ sub)) \<and>
    serve_http (set_invites ''primary'' h c) (''/'' @ sub) = Routed h (''/'' @ sub)"
proof -
  have "\<exists>p rest. sub = p @ rest \<and> (p = ''invites/'' \<or> p = ''friends/'')"
    using assms(2) unfolding has_prefix_def prefix_def by blast
  then obtain p rest where sub: "sub = p @ rest" "p = ''invites/'' \<or> p = ''friends/''" by blast
  have "serve_http (set_invites ''primary'' h c) (''/'' @ sub) = Routed h (''/'' @ sub)"
    using sub by (auto simp: serve_http_def control_broadcast_prefix_def has_prefix_def cut_prefix_def set_invites_def)
  moreover have "serve_http (session_over name old (set_invites name h c)) (control_broadcast_prefix @ name @ ''/'' @ sub) =
      (if old = cs_next c then ControlsDown name else Routed h (''/'' @ sub))"
    using assms(1) sub
    by (auto simp: serve_http_def control_broadcast_prefix_def has_prefix_def cut_prefix_def session_over_def set_invites_def)
  ultimately show ?thesis by simp
qed

theorem control_routes_newest_witness:
  "serve_http (session_over ''b'' 0 (set_invites ''b'' True (set_invites ''b'' False (new_control_server False))))
     (control_broadcast_prefix @ ''b'' @ ''/'' @ ''invites/stop'') = Routed True ''/invites/stop''"
proof -
  have "CHR ''/'' \<notin> set ''b''" "has_prefix ''invites/stop'' ''invites/'' \<or> has_prefix ''invites/stop'' ''friends/''"
    "cs_next (set_invites ''b'' False (new_control_server False)) = 1"
    by (simp_all add: has_prefix_def set_invites_def new_control_server_def)
  from control_routes_newest [OF this(1,2), of 0 True "set_invites ''b'' False (new_control_server False)"] this(3)
  show ?thesis by simp
qed

end
