(* ===== verification/Invite_Queue.thy ===== *)
theory Invite_Queue
  imports Go_Strings
begin

text \<open>
  Package \<open>invitequeue\<close>: \<open>Prune\<close> and the line format of the invite queue
  (\<open>invitequeue.go\<close>), and the two append-only files that record who was invited and who
  then joined (\<open>accepted.go\<close>). A file is a \<open>string option\<close>: \<open>None\<close> is a file that
  cannot be opened. Writes take a flag that says whether the operating system accepted them.
\<close>

section \<open>Append-only files keyed by player\<close>

text \<open>
  The contract of \<open>RecordSent\<close> and \<open>RecordAcceptIfInvited\<close>: the first entry of a key is
  written, later ones are not. \<open>good\<close> is the well-formedness of the log, \<open>key_ok\<close> says
  which keys the line format can hold.
\<close>

locale keyed_log =
  fixes add :: "'k \<Rightarrow> 'v \<Rightarrow> 'l \<Rightarrow> 'l"
    and keys :: "'l \<Rightarrow> 'k set"
    and good :: "'l \<Rightarrow> bool"
    and entry_ok :: "'k \<Rightarrow> 'v \<Rightarrow> bool"
  assumes add_present: "good l \<Longrightarrow> k \<in> keys l \<Longrightarrow> add k v l = l"
    and add_keys: "good l \<Longrightarrow> entry_ok k v \<Longrightarrow> keys (add k v l) = insert k (keys l)"
    and add_good: "good l \<Longrightarrow> entry_ok k v \<Longrightarrow> good (add k v l)"
begin

lemma add_twice:
  "good l \<Longrightarrow> entry_ok k v \<Longrightarrow> add k w (add k v l) = add k v l"
  by (rule add_present) (simp_all add: add_keys add_good)

lemma run_good:
  "good l \<Longrightarrow> (\<And>k v. (k, v) \<in> set es \<Longrightarrow> entry_ok k v) \<Longrightarrow> good (foldl (\<lambda>l (k, v). add k v l) l es)"
  by (induction es arbitrary: l) (auto simp: add_good)

lemma run_keys:
  "good l \<Longrightarrow> (\<And>k v. (k, v) \<in> set es \<Longrightarrow> entry_ok k v) \<Longrightarrow>
   keys (foldl (\<lambda>l (k, v). add k v l) l es) = keys l \<union> fst ` set es"
  by (induction es arbitrary: l) (force simp: add_good add_keys)+

lemma run_present:
  "good l \<Longrightarrow> (\<And>k v. (k, v) \<in> set es \<Longrightarrow> k \<in> keys l) \<Longrightarrow> foldl (\<lambda>l (k, v). add k v l) l es = l"
proof (induction es)
  case Nil
  then show ?case by simp
next
  case (Cons e es)
  obtain k v where e: "e = (k, v)" by (cases e)
  have "k \<in> keys l" using Cons.prems(2) [of k v] e by simp
  with Cons.prems(1) have "add k v l = l" by (rule add_present)
  with e Cons show ?case by auto
qed

end

section \<open>The invite queue: \<open>Prune\<close>\<close>

definition expiry :: duration where
  "expiry = 30 * 24 * hour"

definition zero_time :: instant where
  "zero_time = - unix_to_internal * second"

definition parse_line :: "instant \<Rightarrow> string \<Rightarrow> xuid \<times> instant" where
  "parse_line now line =
     (let fs = split_byte CHR '','' line;
          x = trim_space (hd fs)
      in if x = [] then ([], zero_time)
         else if length fs \<ge> 3
         then (case parse_int64 (trim_space (fs ! 2)) of
                 Some secs \<Rightarrow> (x, time_unix secs)
               | None \<Rightarrow> (x, now - 24 * hour))
         else (x, now - 24 * hour))"

definition first_fields :: "string option \<Rightarrow> xuid set" where
  "first_fields f =
     (case f of
        None \<Rightarrow> {}
      | Some s \<Rightarrow>
          set (filter (\<lambda>x. x \<noteq> []) (map (\<lambda>l. trim_space (fst (cut_byte CHR '','' l))) (fst (scan_lines s)))))"

definition accepted_xuids :: "string option \<Rightarrow> xuid set" where
  "accepted_xuids accepted_file = first_fields accepted_file"

fun prune_scan :: "instant \<Rightarrow> xuid set \<Rightarrow> string list \<Rightarrow> string list \<times> nat \<times> nat" where
  "prune_scan now joined [] = ([], 0, 0)"
| "prune_scan now joined (line # ls) =
     (let (kept, expired, protected) = prune_scan now joined ls;
          (x, discovered) = parse_line now line
      in if line = [] then (kept, expired, protected)
         else if x = [] then (kept, expired, protected)
         else if time_sub now discovered \<ge> expiry
         then (if x \<in> joined then (line # kept, expired, Suc protected)
               else (kept, Suc expired, protected))
         else (line # kept, expired, protected))"

definition rewrite_file :: "bool \<Rightarrow> string list \<Rightarrow> string option \<Rightarrow> string option \<times> bool" where
  "rewrite_file io_ok ls old = (if io_ok then (Some (unlines ls), True) else (old, False))"

definition prune :: "instant \<Rightarrow> bool \<Rightarrow> string option \<Rightarrow> string option \<Rightarrow> string option" where
  "prune now io_ok accepted_file queue_file =
     (case queue_file of
        None \<Rightarrow> None
      | Some s \<Rightarrow>
          (let (ls, scan_ok) = scan_lines s;
               (kept, expired, protected) = prune_scan now (accepted_xuids accepted_file) ls
           in if \<not> scan_ok then queue_file
              else if expired = 0 then queue_file
              else fst (rewrite_file io_ok kept queue_file)))"

text \<open>What the loop means: a line stays when it is dated and recent, or its player joined.\<close>

definition line_expired :: "instant \<Rightarrow> xuid set \<Rightarrow> string \<Rightarrow> bool" where
  "line_expired now joined line \<longleftrightarrow>
     (fst (parse_line now line) \<noteq> [] \<and>
      time_sub now (snd (parse_line now line)) \<ge> expiry \<and>
      fst (parse_line now line) \<notin> joined)"

definition line_kept :: "instant \<Rightarrow> xuid set \<Rightarrow> string \<Rightarrow> bool" where
  "line_kept now joined line \<longleftrightarrow>
     fst (parse_line now line) \<noteq> [] \<and> \<not> line_expired now joined line"

lemma parse_line_Nil [simp]: "parse_line now [] = ([], zero_time)"
  by (simp add: parse_line_def)

lemma prune_scan_kept: "fst (prune_scan now joined ls) = filter (line_kept now joined) ls"
  by (induction ls)
    (auto simp: Let_def line_kept_def line_expired_def split: prod.splits)

lemma prune_scan_expired:
  "fst (snd (prune_scan now joined ls)) = length (filter (line_expired now joined) ls)"
  by (induction ls)
    (auto simp: Let_def line_expired_def split: prod.splits)

lemma prune_eq:
  assumes "scan_lines s = (ls, True)"
  shows "prune now io_ok acc (Some s) =
    (if io_ok \<and> (\<exists>l \<in> set ls. line_expired now (first_fields acc) l)
     then Some (unlines (filter (line_kept now (first_fields acc)) ls)) else Some s)"
proof -
  obtain kept e p where k: "prune_scan now (first_fields acc) ls = (kept, e, p)"
    by (cases "prune_scan now (first_fields acc) ls")
  with prune_scan_kept [of now "first_fields acc" ls] prune_scan_expired [of now "first_fields acc" ls]
  have "kept = filter (line_kept now (first_fields acc)) ls"
    and "e = length (filter (line_expired now (first_fields acc)) ls)"
    by simp_all
  with assms k show ?thesis
    by (auto simp: prune_def accepted_xuids_def rewrite_file_def filter_empty_conv)
qed

lemma time_sub_legacy: "time_sub now (now - 24 * hour) = 24 * hour"
  by (simp add: time_sub_def hour_def minute_def second_def in_int64_def min_int64_def max_int64_def)

lemma legacy_age: "24 * hour < expiry"
  by (simp add: expiry_def hour_def minute_def second_def)

text \<open>A line with fewer than three fields counts as discovered one day ago, at any time.\<close>

lemma legacy_line_not_expired:
  assumes "length (split_byte CHR '','' line) < 3"
  shows "\<not> line_expired now joined line"
proof -
  have "snd (parse_line now line) = now - 24 * hour \<or> fst (parse_line now line) = []"
    using assms by (simp add: parse_line_def Let_def)
  then show ?thesis
    using legacy_age by (auto simp: line_expired_def time_sub_legacy)
qed

section \<open>Invites sent and accepted\<close>

record sent_state =
  sent_loaded :: bool
  sent :: "xuid set"
  sent_file :: "string option"

definition append_line :: "bool \<Rightarrow> string option \<Rightarrow> string \<Rightarrow> string option" where
  "append_line io_ok f line =
     (if io_ok then Some ((case f of None \<Rightarrow> [] | Some s \<Rightarrow> s) @ line @ [newline]) else f)"

definition sent_line :: "xuid \<Rightarrow> instant \<Rightarrow> string" where
  "sent_line x now = x @ '','' @ show_int (unix_of now)"

definition load_sent :: "sent_state \<Rightarrow> sent_state" where
  "load_sent st =
     (if sent_loaded st then st
      else st\<lparr>sent := first_fields (sent_file st), sent_loaded := True\<rparr>)"

definition record_sent :: "bool \<Rightarrow> instant \<Rightarrow> xuid \<Rightarrow> sent_state \<Rightarrow> sent_state" where
  "record_sent io_ok now x st =
     (if x = [] then st
      else (let st = load_sent st
            in if x \<in> sent st then st
               else st\<lparr>sent := insert x (sent st),
                       sent_file := append_line io_ok (sent_file st) (sent_line x now)\<rparr>))"

fun earliest :: "xuid \<Rightarrow> string list \<Rightarrow> instant option \<Rightarrow> instant option" where
  "earliest x [] best = best"
| "earliest x (l # ls) best =
     (let (y, rest, ok) = cut_byte CHR '','' l
      in if \<not> ok \<or> trim_space y \<noteq> x then earliest x ls best
         else (case parse_int64 (trim_space rest) of
                 None \<Rightarrow> earliest x ls best
               | Some secs \<Rightarrow>
                   (let t = time_unix secs
                    in earliest x ls (case best of None \<Rightarrow> Some t
                                      | Some b \<Rightarrow> if t < b then Some t else best))))"

definition first_sent_time :: "string option \<Rightarrow> xuid \<Rightarrow> instant option" where
  "first_sent_time f x = (case f of None \<Rightarrow> None | Some s \<Rightarrow> earliest x (fst (scan_lines s)) None)"

definition accept_line :: "xuid \<Rightarrow> string \<Rightarrow> instant \<Rightarrow> instant \<Rightarrow> string" where
  "accept_line x name invited_at now =
     x @ '','' @ remove_byte CHR '','' name @ '','' @ show_int (unix_of invited_at) @ '','' @
     show_int (unix_of now)"

definition record_accept_if_invited ::
  "bool \<Rightarrow> instant \<Rightarrow> xuid \<Rightarrow> string \<Rightarrow> string option \<Rightarrow> string option \<Rightarrow> string option" where
  "record_accept_if_invited io_ok now x name sent_f accepted_f =
     (if x = [] \<or> x \<in> first_fields accepted_f then accepted_f
      else (case first_sent_time sent_f x of
              None \<Rightarrow> accepted_f
            | Some invited_at \<Rightarrow> append_line io_ok accepted_f (accept_line x name invited_at now)))"

subsection \<open>Files the program wrote\<close>

text \<open>A file is well formed when it is absent or consists of complete plain lines.\<close>

definition whole_lines :: "string option \<Rightarrow> bool" where
  "whole_lines f \<longleftrightarrow> f = None \<or> (\<exists>ls. f = Some (unlines ls) \<and> list_all plain_line ls)"

definition file_lines :: "string option \<Rightarrow> string list" where
  "file_lines f = (case f of None \<Rightarrow> [] | Some s \<Rightarrow> fst (scan_lines s))"

definition line_key :: "string \<Rightarrow> xuid" where
  "line_key l = trim_space (fst (cut_byte CHR '','' l))"

definition good_xuid :: "xuid \<Rightarrow> bool" where
  "good_xuid x \<longleftrightarrow> x \<noteq> [] \<and> trim_space x = x \<and> CHR '','' \<notin> set x"

lemma first_fields_lines: "first_fields f = {x \<in> line_key ` set (file_lines f). x \<noteq> []}"
  by (auto simp: first_fields_def file_lines_def line_key_def split: option.splits)

lemma first_sent_time_lines: "first_sent_time f x = earliest x (file_lines f) None"
  by (simp add: first_sent_time_def file_lines_def split: option.splits)

lemma file_lines_unlines: "list_all plain_line ls \<Longrightarrow> file_lines (Some (unlines ls)) = ls"
  by (simp add: file_lines_def scan_unlines list_all_iff)

lemma append_line_lines:
  assumes "whole_lines f" "plain_line l"
  shows "file_lines (append_line True f l) = file_lines f @ [l]"
    and "whole_lines (append_line True f l)"
proof -
  obtain ls where ls: "list_all plain_line ls" "(case f of None \<Rightarrow> [] | Some s \<Rightarrow> s) = unlines ls"
    "file_lines f = ls"
  proof (cases f)
    case None
    then show ?thesis using that [of "[]"] by (simp add: file_lines_def unlines_def)
  next
    case (Some s)
    with assms(1) obtain ls where "s = unlines ls" "list_all plain_line ls"
      by (auto simp: whole_lines_def)
    with Some show ?thesis using that [of ls] file_lines_unlines by simp
  qed
  have eq: "append_line True f l = Some (unlines (ls @ [l]))"
    using ls(2) by (simp add: append_line_def unlines_def)
  have all: "list_all plain_line (ls @ [l])"
    using ls(1) assms(2) by simp
  show "file_lines (append_line True f l) = file_lines f @ [l]"
    unfolding eq ls(3) by (rule file_lines_unlines [OF all])
  show "whole_lines (append_line True f l)"
    unfolding eq whole_lines_def using all by blast
qed

lemma line_key_append: "CHR '','' \<notin> set x \<Longrightarrow> line_key (x @ CHR '','' # r) = trim_space x"
  by (simp add: line_key_def)

lemma earliest_append: "earliest x (xs @ ys) b = earliest x ys (earliest x xs b)"
  by (induction x xs b rule: earliest.induct)
    (auto simp: Let_def split: prod.splits option.splits)

lemma earliest_absent:
  "x \<notin> line_key ` set ls \<Longrightarrow> earliest x ls b = b"
  by (induction ls) (auto simp: Let_def line_key_def split: prod.splits)

subsection \<open>\<open>RecordSent\<close>\<close>

definition sent_good :: "sent_state \<Rightarrow> bool" where
  "sent_good st \<longleftrightarrow>
     sent_loaded st \<and> whole_lines (sent_file st) \<and> sent st = first_fields (sent_file st)"

definition sent_entry_ok :: "xuid \<Rightarrow> instant \<Rightarrow> bool" where
  "sent_entry_ok x t \<longleftrightarrow> good_xuid x \<and> plain_line (sent_line x t) \<and> in_int64 (unix_of t)"

lemma load_sent_good: "\<not> sent_loaded st \<Longrightarrow> whole_lines (sent_file st) \<Longrightarrow> sent_good (load_sent st)"
  by (simp add: load_sent_def sent_good_def)

lemma record_sent_new:
  assumes "sent_good st" "sent_entry_ok x t" "x \<notin> sent st"
  shows "file_lines (sent_file (record_sent True t x st)) = file_lines (sent_file st) @ [sent_line x t]"
    and "sent_good (record_sent True t x st)"
    and "sent (record_sent True t x st) = insert x (sent st)"
proof -
  have eq: "record_sent True t x st = st\<lparr>sent := insert x (sent st),
      sent_file := append_line True (sent_file st) (sent_line x t)\<rparr>"
    using assms by (simp add: record_sent_def load_sent_def sent_good_def sent_entry_ok_def good_xuid_def)
  note ap = append_line_lines [of "sent_file st" "sent_line x t"]
  have key: "line_key (sent_line x t) = x" and "x \<noteq> []"
    using assms(2) by (simp_all add: sent_entry_ok_def good_xuid_def sent_line_def line_key_append)
  show "file_lines (sent_file (record_sent True t x st)) = file_lines (sent_file st) @ [sent_line x t]"
    using ap assms by (simp add: eq sent_good_def sent_entry_ok_def)
  show "sent_good (record_sent True t x st)"
    using ap assms key \<open>x \<noteq> []\<close>
    by (auto simp: eq sent_good_def sent_entry_ok_def first_fields_lines)
  show "sent (record_sent True t x st) = insert x (sent st)"
    by (simp add: eq)
qed

lemma record_sent_present:
  "sent_good st \<Longrightarrow> x \<in> sent st \<Longrightarrow> record_sent True t x st = st"
  by (simp add: record_sent_def load_sent_def sent_good_def)

interpretation sent_log: keyed_log "\<lambda>x t st. record_sent True t x st" sent sent_good sent_entry_ok
proof
  fix st x t
  assume g: "sent_good st" and e: "sent_entry_ok x t"
  show "sent (record_sent True t x st) = insert x (sent st)"
    by (cases "x \<in> sent st")
      (use g e in \<open>auto simp: record_sent_present record_sent_new\<close>)
  show "sent_good (record_sent True t x st)"
    by (cases "x \<in> sent st")
      (use g e in \<open>auto simp: record_sent_present record_sent_new\<close>)
qed (rule record_sent_present)

lemma first_sent_time_absent:
  assumes "x \<notin> first_fields f" "x \<noteq> []"
  shows "first_sent_time f x = None"
proof -
  have "x \<notin> line_key ` set (file_lines f)"
    using assms by (auto simp: first_fields_lines)
  then show ?thesis by (simp add: first_sent_time_lines earliest_absent)
qed

lemma earliest_sent_line:
  assumes "sent_entry_ok y t" "x = y \<Longrightarrow> b = None"
  shows "earliest x [sent_line y t] b =
    (if x = y then Some (time_unix (unix_of t)) else b)"
  using assms
  by (auto simp: sent_entry_ok_def good_xuid_def sent_line_def Let_def split: option.splits)

text \<open>Recording one player leaves everybody's first invite time, and sets a new player's.\<close>

lemma record_sent_first_time:
  assumes "sent_good st" "sent_entry_ok y t" "x \<noteq> []"
  shows "first_sent_time (sent_file (record_sent True t y st)) x =
    (if x = y \<and> y \<notin> sent st then Some (time_unix (unix_of t))
     else first_sent_time (sent_file st) x)"
proof (cases "y \<in> sent st")
  case True
  then show ?thesis using assms(1) by (simp add: record_sent_present)
next
  case False
  then have none: "earliest y (file_lines (sent_file st)) None = None"
    using assms first_sent_time_absent [of y "sent_file st"]
    by (auto simp: first_sent_time_lines sent_good_def sent_entry_ok_def good_xuid_def)
  show ?thesis
    using False none earliest_sent_line [OF assms(2), of x "earliest x (file_lines (sent_file st)) None"]
    by (auto simp: first_sent_time_lines record_sent_new [OF assms(1,2) False] earliest_append)
qed

lemma run_sent_first_time:
  assumes "sent_good st" "\<And>y t. (y, t) \<in> set es \<Longrightarrow> sent_entry_ok y t" "x \<noteq> []"
  shows "first_sent_time (sent_file (foldl (\<lambda>st (y, t). record_sent True t y st) st es)) x =
    (if x \<in> sent st then first_sent_time (sent_file st) x
     else map_option (\<lambda>t. time_unix (unix_of t)) (map_of es x))"
  using assms
proof (induction es arbitrary: st)
  case Nil
  then show ?case using first_sent_time_absent [of x "sent_file st"] by (auto simp: sent_good_def)
next
  case (Cons e es)
  obtain y t where e: "e = (y, t)" by (cases e)
  have ok: "sent_entry_ok y t" using Cons.prems(2) [of y t] e by simp
  let ?st = "record_sent True t y st"
  have g: "sent_good ?st" and k: "sent ?st = insert y (sent st)"
    using sent_log.add_good [OF Cons.prems(1) ok] sent_log.add_keys [OF Cons.prems(1) ok] by simp_all
  have "first_sent_time (sent_file (foldl (\<lambda>st (y, t). record_sent True t y st) ?st es)) x =
    (if x \<in> sent ?st then first_sent_time (sent_file ?st) x
     else map_option (\<lambda>t. time_unix (unix_of t)) (map_of es x))"
    using Cons.prems by (intro Cons.IH g) auto
  then show ?case
    using record_sent_first_time [OF Cons.prems(1) ok Cons.prems(3)] e k by auto
qed

subsection \<open>\<open>RecordAcceptIfInvited\<close>\<close>

definition accept_entry_ok :: "string option \<Rightarrow> xuid \<Rightarrow> string \<times> instant \<Rightarrow> bool" where
  "accept_entry_ok sent_f x v \<longleftrightarrow>
     good_xuid x \<and>
     (case first_sent_time sent_f x of
        None \<Rightarrow> False
      | Some iv \<Rightarrow> plain_line (accept_line x (fst v) iv (snd v)))"

lemma record_accept_present:
  "x \<in> first_fields acc \<Longrightarrow> record_accept_if_invited io_ok now x name sent_f acc = acc"
  by (simp add: record_accept_if_invited_def)

lemma record_accept_new:
  assumes "whole_lines acc" "accept_entry_ok sent_f x (name, now)" "x \<notin> first_fields acc"
  shows "\<exists>iv. first_sent_time sent_f x = Some iv \<and>
      file_lines (record_accept_if_invited True now x name sent_f acc) =
        file_lines acc @ [accept_line x name iv now]"
    and "whole_lines (record_accept_if_invited True now x name sent_f acc)"
    and "first_fields (record_accept_if_invited True now x name sent_f acc) = insert x (first_fields acc)"
proof -
  obtain iv where iv: "first_sent_time sent_f x = Some iv"
    and plain: "plain_line (accept_line x name iv now)" and gx: "good_xuid x"
    using assms(2) by (auto simp: accept_entry_ok_def split: option.splits)
  have eq: "record_accept_if_invited True now x name sent_f acc =
      append_line True acc (accept_line x name iv now)"
    using iv gx assms(3) by (simp add: record_accept_if_invited_def good_xuid_def)
  note ap = append_line_lines [OF assms(1) plain]
  show "\<exists>iv. first_sent_time sent_f x = Some iv \<and>
      file_lines (record_accept_if_invited True now x name sent_f acc) =
        file_lines acc @ [accept_line x name iv now]"
    using iv ap(1) eq by auto
  show "whole_lines (record_accept_if_invited True now x name sent_f acc)"
    using ap(2) eq by simp
  have "line_key (accept_line x name iv now) = x" "x \<noteq> []"
    using gx by (simp_all add: accept_line_def line_key_append good_xuid_def)
  then show "first_fields (record_accept_if_invited True now x name sent_f acc) = insert x (first_fields acc)"
    using ap(1) by (auto simp: eq first_fields_lines)
qed

interpretation accepted_log: keyed_log
  "\<lambda>x v acc. record_accept_if_invited True (snd v) x (fst v) sent_f acc" first_fields whole_lines
  "accept_entry_ok sent_f" for sent_f
proof
  fix acc x and v :: "string \<times> instant"
  assume g: "whole_lines acc" and e: "accept_entry_ok sent_f x v"
  from e have e': "accept_entry_ok sent_f x (fst v, snd v)" by simp
  show "first_fields (record_accept_if_invited True (snd v) x (fst v) sent_f acc) = insert x (first_fields acc)"
    by (cases "x \<in> first_fields acc")
      (auto simp: record_accept_present record_accept_new(3) [OF g e'])
  show "whole_lines (record_accept_if_invited True (snd v) x (fst v) sent_f acc)"
    by (cases "x \<in> first_fields acc")
      (auto simp: record_accept_present g record_accept_new(2) [OF g e'])
qed (simp add: record_accept_present)

section \<open>Properties\<close>

lemma scanned_lines:
  assumes "list_all plain_line ls"
  shows "scan_lines (unlines ls) = (ls, True)"
  using assms by (simp add: scan_unlines list_all_iff)

lemma prune_plain:
  assumes "list_all plain_line ls"
  shows "prune now True acc (Some (unlines ls)) =
    Some (unlines (if \<exists>l \<in> set ls. line_expired now (first_fields acc) l
                   then filter (line_kept now (first_fields acc)) ls else ls))"
  using prune_eq [OF scanned_lines [OF assms]] by simp

lemma pruned_mem:
  assumes "list_all plain_line ls" "l \<in> set ls" "line_kept now (first_fields acc) l"
  shows "l \<in> set (file_lines (prune now True acc (Some (unlines ls))))"
proof -
  have "list_all plain_line (filter (line_kept now (first_fields acc)) ls)"
    using assms(1) by (simp add: list_all_iff)
  with assms show ?thesis
    by (simp add: prune_plain file_lines_unlines)
qed

lemmas plain_eval = plain_line_def newline_def carriage_return_def max_scan_token_def

lemma first_fields_unlines:
  "list_all plain_line ls \<Longrightarrow> first_fields (Some (unlines ls)) = Set.filter (\<lambda>x. x \<noteq> []) (line_key ` set ls)"
  by (auto simp: first_fields_lines file_lines_unlines)

lemma first_sent_time_unlines:
  "list_all plain_line ls \<Longrightarrow> first_sent_time (Some (unlines ls)) x = earliest x ls None"
  by (simp add: first_sent_time_lines file_lines_unlines)

text \<open>
  C17: \<open>Prune\<close> rewrites the queue only when some line is older than thirty days and its player
  has not joined; then exactly those lines and the lines without a player id are gone and all
  the others are there, in their order. In every other case, a failed write included, the file
  is byte for byte what it was.
\<close>

theorem prune_exact:
  assumes "scan_lines s = (ls, True)"
  shows "prune now io_ok acc (Some s) =
    (if io_ok \<and> (\<exists>l \<in> set ls. line_expired now (first_fields acc) l)
     then Some (unlines (filter (line_kept now (first_fields acc)) ls)) else Some s)"
  using assms by (rule prune_eq)

theorem prune_exact_witness:
  "prune (3000000 * second) True (Some (unlines [''7,Bob,1,2'']))
     (Some (unlines [''5,Al,7'', ''6,Cy'', ''7,Bob,7''])) =
   Some (unlines [''6,Cy'', ''7,Bob,7''])"
proof -
  have plain: "list_all plain_line [''5,Al,7'', ''6,Cy'', ''7,Bob,7'']"
    "list_all plain_line [''7,Bob,1,2'']"
    by (simp_all add: plain_eval)
  have acc: "first_fields (Some (unlines [''7,Bob,1,2''])) = {''7''}"
    unfolding first_fields_unlines [OF plain(2)] by code_simp
  have "line_expired (3000000 * second) {''7''} ''5,Al,7''"
    "filter (line_kept (3000000 * second) {''7''}) [''5,Al,7'', ''6,Cy'', ''7,Bob,7''] =
      [''6,Cy'', ''7,Bob,7'']"
    by code_simp+
  with prune_exact [OF scanned_lines [OF plain(1)], of "3000000 * second" True "Some (unlines [''7,Bob,1,2''])"]
  show ?thesis unfolding acc by auto
qed

text \<open>
  A player who joined is never dropped from the queue, whatever the age of the line: after
  \<open>Prune\<close> the file still has it.
\<close>

theorem prune_keeps_joined:
  assumes "list_all plain_line ls" "l \<in> set ls"
    and "fst (parse_line now l) \<noteq> []" "fst (parse_line now l) \<in> first_fields acc"
  shows "l \<in> set (file_lines (prune now True acc (Some (unlines ls))))"
  using assms by (intro pruned_mem) (auto simp: line_kept_def line_expired_def)

theorem prune_keeps_joined_witness:
  "''7,Bob,0'' \<in> set (file_lines (prune (1800000000 * second) True (Some (unlines [''7,Bob,1,2'']))
     (Some (unlines [''5,Al,0'', ''7,Bob,0'']))))"
proof (rule prune_keeps_joined)
  have plain: "list_all plain_line [''7,Bob,1,2'']" by (simp add: plain_eval)
  show "fst (parse_line (1800000000 * second) ''7,Bob,0'') \<in> first_fields (Some (unlines [''7,Bob,1,2'']))"
    unfolding first_fields_unlines [OF plain] by code_simp
  show "fst (parse_line (1800000000 * second) ''7,Bob,0'') \<noteq> []" by code_simp
qed (simp_all add: plain_eval)

text \<open>
  A line without a timestamp is never removed, at whatever time \<open>Prune\<close> runs: it counts as
  a day old at every run and is written back unchanged.
\<close>

theorem prune_never_expires_legacy:
  assumes "list_all plain_line ls" "l \<in> set ls"
    and "length (split_byte CHR '','' l) < 3" "trim_space (hd (split_byte CHR '','' l)) \<noteq> []"
  shows "l \<in> set (file_lines (prune now True acc (Some (unlines ls))))"
proof (rule pruned_mem [OF assms(1,2)])
  have "fst (parse_line now l) \<noteq> []" using assms(3,4) by (simp add: parse_line_def Let_def)
  with legacy_line_not_expired [OF assms(3)] show "line_kept now (first_fields acc) l"
    by (simp add: line_kept_def)
qed

theorem prune_never_expires_legacy_witness:
  "''6,Cy'' \<in> set (file_lines (prune (99999999999 * second) True None (Some (unlines [''5,Al,0'', ''6,Cy'']))))"
proof (rule prune_never_expires_legacy)
  show "length (split_byte CHR '','' ''6,Cy'') < 3" "trim_space (hd (split_byte CHR '','' ''6,Cy'')) \<noteq> []"
    by code_simp+
qed (simp_all add: plain_eval)

text \<open>Pruning twice at the same instant is pruning once.\<close>

theorem prune_idempotent:
  assumes "list_all plain_line ls"
  shows "prune now True acc (prune now True acc (Some (unlines ls))) = prune now True acc (Some (unlines ls))"
proof -
  let ?kept = "filter (line_kept now (first_fields acc)) ls"
  have "list_all plain_line ?kept" using assms by (simp add: list_all_iff)
  moreover have "\<not> (\<exists>l \<in> set ?kept. line_expired now (first_fields acc) l)"
    by (auto simp: line_kept_def)
  ultimately show ?thesis using assms by (simp add: prune_plain)
qed

theorem prune_idempotent_witness:
  "prune (1800000000 * second) True None (prune (1800000000 * second) True None (Some (unlines [''5,Al,0'', ''6,Cy'']))) =
   prune (1800000000 * second) True None (Some (unlines [''5,Al,0'', ''6,Cy'']))"
  by (rule prune_idempotent) (simp add: plain_eval)

text \<open>
  After any sequence of \<open>RecordSent\<close> calls on a fresh file, what the file gives as a
  player's invite time is the time of the first call for that player, to the second, and
  nothing for a player who was not invited.
\<close>

theorem first_invite_time_wins:
  assumes "\<And>y t. (y, t) \<in> set es \<Longrightarrow> sent_entry_ok y t" "x \<noteq> []"
  shows "first_sent_time (sent_file (foldl (\<lambda>st (y, t). record_sent True t y st)
      \<lparr>sent_loaded = True, sent = {}, sent_file = None\<rparr> es)) x =
    map_option (\<lambda>t. time_unix (unix_of t)) (map_of es x)"
proof -
  have "sent_good \<lparr>sent_loaded = True, sent = {}, sent_file = None\<rparr>"
    by (simp add: sent_good_def whole_lines_def first_fields_def)
  from run_sent_first_time [OF this assms] show ?thesis by simp
qed

theorem first_invite_time_wins_witness:
  "first_sent_time (sent_file (foldl (\<lambda>st (y, t). record_sent True t y st)
      \<lparr>sent_loaded = True, sent = {}, sent_file = None\<rparr>
      [(''5'', 7 * second), (''6'', 8 * second), (''5'', 9 * second)])) ''5'' = Some (7 * second)"
proof -
  have "sent_line ''5'' (7 * second) = ''5,7''" "sent_line ''6'' (8 * second) = ''6,8''"
    "sent_line ''5'' (9 * second) = ''5,9''" "good_xuid ''5''" "good_xuid ''6''"
    "in_int64 (unix_of (7 * second))" "in_int64 (unix_of (8 * second))" "in_int64 (unix_of (9 * second))"
    by code_simp+
  then have ok: "sent_entry_ok ''5'' (7 * second)" "sent_entry_ok ''6'' (8 * second)" "sent_entry_ok ''5'' (9 * second)"
    by (simp_all add: sent_entry_ok_def plain_eval)
  have t: "time_unix (unix_of (7 * second)) = 7 * second" by code_simp
  show ?thesis
    using first_invite_time_wins [of "[(''5'', 7 * second), (''6'', 8 * second), (''5'', 9 * second)]" "''5''"] ok t
    by auto
qed

text \<open>
  A join is recorded exactly when the player was invited and has no record yet; a recorded
  line carries the time of the first invite, and recording a join again changes nothing.
\<close>

theorem join_recorded_once:
  assumes "whole_lines acc" "good_xuid x"
    and "\<And>iv. first_sent_time sent_f x = Some iv \<Longrightarrow> plain_line (accept_line x name iv now)"
  defines "acc' \<equiv> record_accept_if_invited True now x name sent_f acc"
  shows "file_lines acc' = file_lines acc @
      (if x \<in> first_fields acc then []
       else case first_sent_time sent_f x of None \<Rightarrow> [] | Some iv \<Rightarrow> [accept_line x name iv now]) \<and>
    record_accept_if_invited True later x name' sent_f acc' = acc'"
proof (cases "x \<in> first_fields acc \<or> first_sent_time sent_f x = None")
  case True
  then have "acc' = acc" by (auto simp: acc'_def record_accept_if_invited_def)
  with True show ?thesis by (auto simp: record_accept_if_invited_def)
next
  case False
  then have ok: "accept_entry_ok sent_f x (name, now)"
    using assms(2,3) by (auto simp: accept_entry_ok_def)
  note new = record_accept_new [OF assms(1) ok]
  have "x \<in> first_fields acc'" using new(3) False by (simp add: acc'_def)
  moreover have "file_lines acc' = file_lines acc @
      (case first_sent_time sent_f x of None \<Rightarrow> [] | Some iv \<Rightarrow> [accept_line x name iv now])"
    using new(1) False by (auto simp: acc'_def)
  ultimately show ?thesis using False by (simp add: record_accept_present)
qed

theorem join_recorded_once_witness:
  "file_lines (record_accept_if_invited True (9 * second) ''5'' ''A,l'' (Some (unlines [''5,7''])) None) = [''5,Al,7,9'']"
proof -
  have plain: "list_all plain_line [''5,7'']" "plain_line ''5,Al,7,9''" by (simp_all add: plain_eval)
  have first: "first_sent_time (Some (unlines [''5,7''])) ''5'' = Some (7 * second)"
    unfolding first_sent_time_unlines [OF plain(1)] by code_simp
  have "good_xuid ''5''" "accept_line ''5'' ''A,l'' (7 * second) (9 * second) = ''5,Al,7,9''"
    by code_simp+
  moreover have "whole_lines None" by (simp add: whole_lines_def)
  ultimately show ?thesis using plain(2)
    using join_recorded_once [of None "''5''" "Some (unlines [''5,7''])" "''A,l''" "9 * second" 0 "[]"] first
    by (simp add: first_fields_def file_lines_def)
qed

end
