(* ===== verification/Invite_Controller.thy ===== *)
theory Invite_Controller
  imports Invite_Queue Registry
begin

text \<open>
  \<open>invitewatcher.go\<close> and \<open>friendsinviter.go\<close>: the loops that invite the players of a list or
  the friends of the account, their start, stop and resumption, and the routes that drive them.
  \<open>time.ParseDuration\<close> and \<open>Duration.String\<close> are arguments; the state file holds an
  \<open>invite_state\<close>, the value \<open>json.Unmarshal\<close> leaves. A loop is known by the number of its
  context; \<open>ic_done\<close> holds the contexts that were cancelled.
\<close>

section \<open>Controllers that run one loop\<close>

locale single_loop =
  fixes lstep :: "'s \<Rightarrow> 'e \<Rightarrow> 's"
    and active :: "'s \<Rightarrow> bool"
    and loops :: "'s \<Rightarrow> nat set"
    and sane :: "'s \<Rightarrow> bool"
  assumes sane_step: "sane s \<Longrightarrow> sane (lstep s e)"
    and one_loop: "sane s \<Longrightarrow> (if active s then card (loops s) \<le> 1 else loops s = {})"
begin

lemma run_sane: "sane s \<Longrightarrow> sane (foldl lstep s es)"
  by (induction es arbitrary: s) (auto intro: sane_step)

lemma at_most_one: "sane s \<Longrightarrow> card (loops (foldl lstep s es)) \<le> 1"
  using one_loop [OF run_sane [of s es]] by (auto split: if_splits)

end

sublocale single_loop \<subseteq> invariant_machine lstep sane
  by unfold_locales (rule sane_step)

section \<open>The lists\<close>

definition invite_queue_file :: string where "invite_queue_file = ''invite_queue.txt''"
definition accepted_file :: string where "accepted_file = ''invite_accepted.txt''"
definition invite_list_queue :: string where "invite_list_queue = ''queue''"
definition invite_list_accepted :: string where "invite_list_accepted = ''accepted''"

definition invite_list_file :: "string \<Rightarrow> string" where
  "invite_list_file l = (if l = invite_list_accepted then accepted_file else invite_queue_file)"

fun read_xuids :: "string set \<Rightarrow> string list \<Rightarrow> xuid list" where
  "read_xuids seen [] = []"
| "read_xuids seen (line # ls) =
     (if line = [] then read_xuids seen ls
      else (let x = fst (cut_byte CHR '','' line)
            in if x = [] \<or> x \<in> seen then read_xuids seen ls
               else x # read_xuids (insert x seen) ls))"

definition read_xuid_list :: "string option \<Rightarrow> xuid list" where
  "read_xuid_list f = (case f of None \<Rightarrow> [] | Some s \<Rightarrow> read_xuids {} (fst (scan_lines s)))"

fun index_from :: "nat \<Rightarrow> string list \<Rightarrow> string \<Rightarrow> nat" where
  "index_from i [] target = 0"
| "index_from i (x # xs) target = (if x = target then i + 1 else index_from (Suc i) xs target)"

definition resume_index :: "string list \<Rightarrow> string \<Rightarrow> nat" where
  "resume_index xs target = (if target = '''' then 0 else index_from 0 xs target)"

definition invite_rate_limit :: duration where "invite_rate_limit = 10 * second"
definition min_invite_interval :: duration where "min_invite_interval = second"

datatype interval_error = NotADuration | BelowMinimum duration

definition parse_invite_interval :: "(string \<Rightarrow> duration option) \<Rightarrow> string \<Rightarrow> interval_error + duration" where
  "parse_invite_interval parse s =
     (if s = '''' then Inr invite_rate_limit
      else (case parse s of
              None \<Rightarrow> Inl NotADuration
            | Some d \<Rightarrow> if d < min_invite_interval then Inl (BelowMinimum d) else Inr d))"

section \<open>State files of earlier versions\<close>

definition state_path :: "string \<Rightarrow> string" where
  "state_path broadcast = ''.invite_state_'' @ broadcast @ ''.json''"

definition legacy_invite_state :: "string \<Rightarrow> bool" where
  "legacy_invite_state name =
     (case cut_prefix name ''.invite_state_'' of
        None \<Rightarrow> False
      | Some rest \<Rightarrow>
          has_suffix rest ''.json'' \<and>
          (let digits = take (length rest - 5) rest
           in digits \<noteq> [] \<and> list_all (\<lambda>c. CHR ''0'' \<le> c \<and> c \<le> CHR ''9'') digits))"

text \<open>The directory is the list of its files; \<open>None\<close> when it cannot be read.\<close>

definition adopt_legacy ::
  "bool \<Rightarrow> string \<Rightarrow> (string \<times> 'a) list option \<Rightarrow> (string \<times> 'a) list option" where
  "adopt_legacy rename_ok broadcast dir =
     (if broadcast \<noteq> ''primary'' then dir
      else (case dir of
              None \<Rightarrow> None
            | Some entries \<Rightarrow>
                (if state_path broadcast \<in> set (map fst entries) then dir
                 else (case filter legacy_invite_state (map fst entries) of
                         [found] \<Rightarrow>
                           (if rename_ok
                            then Some (map (\<lambda>(n, c). if n = found then (state_path broadcast, c) else (n, c)) entries)
                            else dir)
                       | _ \<Rightarrow> dir))))"

section \<open>The invite controller\<close>

record invite_state =
  st_running :: bool
  st_interval :: string
  st_last :: string
  st_list :: string

record invite_ctl =
  ic_running :: bool
  ic_interval :: duration
  ic_list :: string
  ic_stop :: "nat option"
  ic_next :: nat
  ic_done :: "nat set"
  ic_file :: "invite_state option"

definition new_invite_controller :: "invite_state option \<Rightarrow> invite_ctl" where
  "new_invite_controller f =
     \<lparr>ic_running = False, ic_interval = 0, ic_list = '''', ic_stop = None, ic_next = 0, ic_done = {}, ic_file = f\<rparr>"

definition load_state :: "invite_ctl \<Rightarrow> invite_state" where
  "load_state c =
     (case ic_file c of
        None \<Rightarrow> \<lparr>st_running = False, st_interval = '''', st_last = '''', st_list = ''''\<rparr>
      | Some st \<Rightarrow> st)"

definition save_state :: "bool \<Rightarrow> invite_state \<Rightarrow> invite_ctl \<Rightarrow> invite_ctl" where
  "save_state io_ok st c = (if io_ok then c\<lparr>ic_file := Some st\<rparr> else c)"

definition record_progress ::
  "(duration \<Rightarrow> string) \<Rightarrow> bool \<Rightarrow> nat \<Rightarrow> duration \<Rightarrow> string \<Rightarrow> string \<Rightarrow> invite_ctl \<Rightarrow> invite_ctl" where
  "record_progress dur io_ok ctx interval l done_to c =
     (if ctx \<in> ic_done c then c
      else save_state io_ok \<lparr>st_running = True, st_interval = dur interval, st_last = done_to, st_list = l\<rparr> c)"

text \<open>The place where a loop on list \<open>l\<close> picks up, from the saved state.\<close>

definition resume_after :: "invite_state \<Rightarrow> string \<Rightarrow> bool \<Rightarrow> string" where
  "resume_after st l from_top =
     (if \<not> from_top \<and> (st_list st = l \<or> st_list st = '''' \<and> l = invite_list_queue) then st_last st else '''')"

definition start_list ::
  "(duration \<Rightarrow> string) \<Rightarrow> bool \<Rightarrow> duration \<Rightarrow> string \<Rightarrow> bool \<Rightarrow> invite_ctl \<Rightarrow> invite_ctl" where
  "start_list dur io_ok interval l from_top c =
     (if ic_running c then c
      else (let l = (if l \<noteq> invite_list_accepted then invite_list_queue else l);
                from = resume_after (load_state c) l from_top;
                c = save_state io_ok \<lparr>st_running = True, st_interval = dur interval, st_last = from, st_list = l\<rparr> c
            in c\<lparr>ic_stop := Some (ic_next c), ic_next := Suc (ic_next c), ic_running := True,
                 ic_interval := interval, ic_list := l\<rparr>))"

definition start_invites ::
  "(duration \<Rightarrow> string) \<Rightarrow> bool \<Rightarrow> duration \<Rightarrow> bool \<Rightarrow> invite_ctl \<Rightarrow> invite_ctl" where
  "start_invites dur io_ok interval from_top c =
     start_list dur io_ok interval (st_list (load_state c)) from_top c"

definition stop_invites :: "bool \<Rightarrow> invite_ctl \<Rightarrow> invite_ctl" where
  "stop_invites io_ok c =
     (if \<not> ic_running c then c
      else (let c = c\<lparr>ic_done := ic_done c \<union> set_option (ic_stop c), ic_stop := None, ic_running := False\<rparr>
            in save_state io_ok (load_state c\<lparr>st_running := False\<rparr>) c))"

definition invites_running :: "invite_ctl \<Rightarrow> bool \<times> duration" where
  "invites_running c = (ic_running c, ic_interval c)"

definition current_list :: "invite_ctl \<Rightarrow> string" where
  "current_list c = (if ic_list c = '''' then invite_list_queue else ic_list c)"

definition resume_if_wanted ::
  "(duration \<Rightarrow> string) \<Rightarrow> (string \<Rightarrow> duration option) \<Rightarrow> bool \<Rightarrow> invite_ctl \<Rightarrow> invite_ctl" where
  "resume_if_wanted dur parse io_ok c =
     (let st = load_state c
      in if \<not> st_running st then c
         else (let interval = (case parse_invite_interval parse (st_interval st) of
                                 Inl e \<Rightarrow> invite_rate_limit | Inr d \<Rightarrow> d)
               in start_invites dur io_ok interval False c))"

section \<open>The loop\<close>

text \<open>
  What one turn of the loop meets: the end of its context during the pause, or the pause passes
  and the player is connected or not and the invite is sent or not. A lap that runs out of
  observations is still waiting.
\<close>

datatype invite_turn = Cancelled | Turn bool bool

datatype invite_action = SendInvite xuid | MarkSent xuid | Progress xuid

datatype lap_end = LapDone | LapCancelled | LapWaiting

fun invite_lap :: "xuid list \<Rightarrow> invite_turn list \<Rightarrow> invite_action list \<times> lap_end" where
  "invite_lap [] ts = ([Progress ''''], LapDone)"
| "invite_lap (x # xs) [] = ([], LapWaiting)"
| "invite_lap (x # xs) (Cancelled # ts) = ([], LapCancelled)"
| "invite_lap (x # xs) (Turn connected sent_ok # ts) =
     (let (as, e) = invite_lap xs ts
      in ((if connected then [] else SendInvite x # (if sent_ok then [MarkSent x] else [])) @ Progress x # as, e))"

text \<open>The outer loop: at each lap the file is read anew; an empty list is waited out.\<close>

fun invite_run :: "string \<Rightarrow> (string option \<times> invite_turn list) list \<Rightarrow> invite_action list" where
  "invite_run after [] = []"
| "invite_run after ((f, ts) # rs) =
     (let xs = read_xuid_list f
      in if xs = [] then (if Cancelled \<in> set ts then [] else invite_run after rs)
         else (let (as, e) = invite_lap (drop (resume_index xs after) xs) ts
               in as @ (if e = LapDone then invite_run '''' rs else [])))"

section \<open>The friends inviter\<close>

record friends_ctl =
  fc_running :: bool
  fc_stop :: "nat option"
  fc_next :: nat
  fc_done :: "nat set"

definition friends_invite_rate_limit :: duration where "friends_invite_rate_limit = 10 * second"

definition start_friends :: "friends_ctl \<Rightarrow> friends_ctl" where
  "start_friends c =
     (if fc_running c then c
      else c\<lparr>fc_stop := Some (fc_next c), fc_next := Suc (fc_next c), fc_running := True\<rparr>)"

definition stop_friends :: "friends_ctl \<Rightarrow> friends_ctl" where
  "stop_friends c =
     (if \<not> fc_running c then c
      else c\<lparr>fc_done := fc_done c \<union> set_option (fc_stop c), fc_stop := None, fc_running := False\<rparr>)"

fun friends_lap :: "xuid list \<Rightarrow> invite_turn list \<Rightarrow> invite_action list \<times> lap_end" where
  "friends_lap [] ts = ([], LapDone)"
| "friends_lap (x # xs) [] = ([], LapWaiting)"
| "friends_lap (x # xs) (Cancelled # ts) = ([], LapCancelled)"
| "friends_lap (x # xs) (Turn connected sent_ok # ts) =
     (let (as, e) = friends_lap xs ts in ((if connected then [] else [SendInvite x]) @ as, e))"

fun friends_run :: "(xuid list option \<times> invite_turn list) list \<Rightarrow> invite_action list" where
  "friends_run [] = []"
| "friends_run ((friends, ts) # rs) =
     (if friends = None \<or> friends = Some [] then (if Cancelled \<in> set ts then [] else friends_run rs)
      else (let (as, e) = friends_lap (the friends) ts in as @ (if e = LapDone then friends_run rs else [])))"

section \<open>The routes\<close>

datatype invite_reply =
    BadRequest interval_error
  | BadList
  | AlreadyRunning string duration
  | StartedOn string duration string

text \<open>\<open>/invites/start\<close>: the query values, \<open>''''\<close> when absent.\<close>

definition start_route ::
  "(duration \<Rightarrow> string) \<Rightarrow> (string \<Rightarrow> duration option) \<Rightarrow> bool \<Rightarrow> string \<Rightarrow> string \<Rightarrow> string \<Rightarrow>
   invite_ctl \<Rightarrow> invite_ctl \<times> invite_reply" where
  "start_route dur parse io_ok q_interval q_restart q_list c =
     (case parse_invite_interval parse q_interval of
        Inl e \<Rightarrow> (c, BadRequest e)
      | Inr interval \<Rightarrow>
          (if q_list \<noteq> '''' \<and> q_list \<noteq> invite_list_queue \<and> q_list \<noteq> invite_list_accepted then (c, BadList)
           else if ic_running c then (c, AlreadyRunning (current_list c) (ic_interval c))
           else (let c = (if q_list = '''' then start_invites dur io_ok interval (q_restart \<noteq> '''') c
                          else start_list dur io_ok interval q_list (q_restart \<noteq> '''') c)
                 in (c, StartedOn (current_list c) interval (st_last (load_state c))))))"

datatype status_reply = RunningOn string duration string | Stopped

definition status_route :: "invite_ctl \<Rightarrow> status_reply" where
  "status_route c =
     (if ic_running c then RunningOn (current_list c) (ic_interval c) (st_last (load_state c)) else Stopped)"

section \<open>The lists are free of repetitions\<close>

lemma read_xuids_set:
  "set (read_xuids seen ls) = {x \<in> (\<lambda>l. fst (cut_byte CHR '','' l)) ` set ls. x \<noteq> []} - seen"
proof (induction seen ls rule: read_xuids.induct)
  case (1 seen)
  then show ?case by simp
next
  case (2 seen line ls)
  have "fst (cut_byte CHR '','' ([]::string)) = []" by (simp add: cut_byte_def)
  with 2 show ?case by (auto simp: Let_def)
qed

lemma read_xuids_distinct: "distinct (read_xuids seen ls)"
  by (induction seen ls rule: read_xuids.induct) (auto simp: Let_def read_xuids_set)

lemma read_xuid_list_ok: "distinct (read_xuid_list f) \<and> [] \<notin> set (read_xuid_list f)"
  by (simp add: read_xuid_list_def read_xuids_distinct read_xuids_set split: option.split)

section \<open>Resumption\<close>

lemma index_from_absent: "t \<notin> set xs \<Longrightarrow> index_from i xs t = 0"
  by (induction xs arbitrary: i) auto

lemma index_from_at: "t \<notin> set xs \<Longrightarrow> index_from i (xs @ t # ys) t = i + length xs + 1"
  by (induction xs arbitrary: i) auto

lemma resume_index_at:
  "distinct (xs @ t # ys) \<Longrightarrow> t \<noteq> '''' \<Longrightarrow> resume_index (xs @ t # ys) t = Suc (length xs)"
  by (simp add: resume_index_def index_from_at)

definition progressed :: "invite_action list \<Rightarrow> xuid list" where
  "progressed as = concat (map (\<lambda>a. case a of Progress x \<Rightarrow> if x = '''' then [] else [x] | _ \<Rightarrow> []) as)"

lemma progressed_simps [simp]:
  "progressed [] = []" "progressed (Progress x # as) = (if x = '''' then progressed as else x # progressed as)"
  "progressed (SendInvite x # as) = progressed as" "progressed (MarkSent x # as) = progressed as"
  "progressed (as @ bs) = progressed as @ progressed bs"
  by (simp_all add: progressed_def)

lemma invite_lap_progressed:
  assumes "[] \<notin> set xs"
  shows "\<exists>ys. xs = progressed (fst (invite_lap xs ts)) @ ys \<and> (snd (invite_lap xs ts) = LapDone \<longleftrightarrow> ys = [])"
  using assms
proof (induction xs ts rule: invite_lap.induct)
  case (4 x xs connected sent_ok ts)
  then obtain ys where "xs = progressed (fst (invite_lap xs ts)) @ ys"
    "snd (invite_lap xs ts) = LapDone \<longleftrightarrow> ys = []" by auto
  with 4 show ?case by (auto simp: case_prod_beta intro!: exI [of _ ys])
qed auto

lemma invite_lap_sends:
  "SendInvite x \<in> set (fst (invite_lap xs ts)) \<Longrightarrow> x \<in> set xs"
  by (induction xs ts rule: invite_lap.induct) (auto simp: case_prod_beta split: if_splits)

section \<open>One loop at a time\<close>

text \<open>\<open>ic_sane\<close>: every context given out is cancelled or is the running loop's.\<close>

definition live_loops :: "invite_ctl \<Rightarrow> nat set" where
  "live_loops c = {..<ic_next c} - ic_done c"

definition ic_sane :: "invite_ctl \<Rightarrow> bool" where
  "ic_sane c \<longleftrightarrow>
     (if ic_running c then \<exists>i. ic_stop c = Some i \<and> i < ic_next c \<and> live_loops c \<subseteq> {i} else ic_stop c = None \<and> live_loops c = {})
     \<and> (\<forall>i \<in> ic_done c. i < ic_next c)"

datatype invite_event =
    Start duration string bool bool
  | StartSame duration bool bool
  | Stop bool
  | Note bool nat duration string string
  | Resume bool

fun invite_step :: "(duration \<Rightarrow> string) \<Rightarrow> (string \<Rightarrow> duration option) \<Rightarrow> invite_ctl \<Rightarrow> invite_event \<Rightarrow> invite_ctl" where
  "invite_step dur parse c (Start d l restart io) = start_list dur io d l restart c"
| "invite_step dur parse c (StartSame d restart io) = start_invites dur io d restart c"
| "invite_step dur parse c (Stop io) = stop_invites io c"
| "invite_step dur parse c (Note io ctx d l x) = record_progress dur io ctx d l x c"
| "invite_step dur parse c (Resume io) = resume_if_wanted dur parse io c"

lemma save_state_fields [simp]:
  "ic_running (save_state io st c) = ic_running c" "ic_stop (save_state io st c) = ic_stop c"
  "ic_next (save_state io st c) = ic_next c" "ic_done (save_state io st c) = ic_done c"
  "live_loops (save_state io st c) = live_loops c" "ic_list (save_state io st c) = ic_list c"
  by (simp_all add: save_state_def live_loops_def)

lemma ic_sane_save: "ic_sane (save_state io st c) = ic_sane c"
  by (simp add: ic_sane_def)

lemma ic_sane_start: "ic_sane c \<Longrightarrow> ic_sane (start_list dur io d l restart c)"
  by (auto simp: start_list_def Let_def ic_sane_def live_loops_def save_state_def less_Suc_eq)

lemma ic_sane_stop: "ic_sane c \<Longrightarrow> ic_sane (stop_invites io c)"
proof (cases "ic_running c")
  case True
  assume s: "ic_sane c"
  then obtain i where i: "ic_stop c = Some i" "live_loops c \<subseteq> {i}" "i < ic_next c" using True by (auto simp: ic_sane_def)
  show ?thesis
    using True s i by (auto simp: stop_invites_def Let_def ic_sane_def live_loops_def save_state_def)
qed (simp add: stop_invites_def)

lemma ic_sane_step: "ic_sane c \<Longrightarrow> ic_sane (invite_step dur parse c e)"
  by (cases e) (auto simp: ic_sane_start ic_sane_stop start_invites_def record_progress_def
      resume_if_wanted_def Let_def ic_sane_save split: if_splits)

lemma single_loops_bound: "ic_sane c \<Longrightarrow> if ic_running c then card (live_loops c) \<le> 1 else live_loops c = {}"
proof -
  assume "ic_sane c"
  then consider i where "ic_running c" "live_loops c \<subseteq> {i}" | "\<not> ic_running c" "live_loops c = {}"
    by (auto simp: ic_sane_def split: if_splits)
  then show ?thesis
  proof cases
    case (1 i)
    then have "card (live_loops c) \<le> card {i}" by (intro card_mono) simp_all
    with 1 show ?thesis by simp
  qed simp
qed

interpretation invites: single_loop "invite_step dur parse" ic_running live_loops ic_sane for dur parse
  by unfold_locales (rule ic_sane_step, assumption, rule single_loops_bound, assumption)

datatype friends_event = StartFriends | StopFriends

fun friends_step :: "friends_ctl \<Rightarrow> friends_event \<Rightarrow> friends_ctl" where
  "friends_step c StartFriends = start_friends c"
| "friends_step c StopFriends = stop_friends c"

definition fc_loops :: "friends_ctl \<Rightarrow> nat set" where
  "fc_loops c = {..<fc_next c} - fc_done c"

definition fc_sane :: "friends_ctl \<Rightarrow> bool" where
  "fc_sane c \<longleftrightarrow>
     (if fc_running c then fc_stop c = Some (fc_next c - 1) \<and> 0 < fc_next c \<and> fc_loops c = {fc_next c - 1}
      else fc_stop c = None \<and> fc_loops c = {}) \<and> fc_done c \<subseteq> {..<fc_next c}"

interpretation friends: single_loop friends_step fc_running fc_loops fc_sane
proof
  fix c e
  assume s: "fc_sane c"
  have step: "fc_sane (start_friends c)"
    using s by (cases "fc_running c")
      (auto simp: fc_sane_def start_friends_def fc_loops_def lessThan_Suc insert_Diff_if)
  show "fc_sane (friends_step c e)"
    using s step by (cases e) (auto simp: fc_sane_def stop_friends_def fc_loops_def)
qed (simp add: fc_sane_def)

section \<open>Properties\<close>

text \<open>
  An interrupted lap is resumed where it stopped: the players before the place where the
  next loop picks up are exactly those before the first loop's own start followed by those it
  dealt with, so nobody is skipped and nobody is invited a second time.
\<close>

theorem resume_skips_nobody:
  assumes "xs = read_xuid_list f"
    and "invite_lap (drop (resume_index xs after) xs) ts = (as, e)" "e \<noteq> LapDone"
  defines "done_to \<equiv> (if progressed as = [] then after else last (progressed as))"
  shows "take (resume_index xs done_to) xs = take (resume_index xs after) xs @ progressed as"
proof -
  let ?a = "take (resume_index xs after) xs" and ?r = "drop (resume_index xs after) xs"
  have xs: "distinct xs" "[] \<notin> set xs" using read_xuid_list_ok [of f] assms(1) by simp_all
  then have "[] \<notin> set ?r" by (meson in_set_dropD)
  from invite_lap_progressed [OF this, of ts] assms(2) obtain ys where ys: "?r = progressed as @ ys" by auto
  show ?thesis
  proof (cases "progressed as" rule: rev_cases)
    case Nil
    then show ?thesis by (simp add: done_to_def)
  next
    case (snoc ps p)
    define a where "a = ?a"
    have "xs = ?a @ ?r" by simp
    then have eq: "xs = (a @ ps) @ p # ys" using ys snoc by (simp add: a_def)
    have "p \<noteq> ''''" using xs(2) eq by (metis in_set_conv_decomp)
    from resume_index_at [OF _ this, of "a @ ps" ys] xs(1)
    have "resume_index xs p = Suc (length (a @ ps))" using eq by metis
    then have "take (resume_index xs p) xs = (a @ ps) @ [p]" using eq by simp
    then show ?thesis unfolding done_to_def snoc a_def by simp
  qed
qed

theorem resume_skips_nobody_witness:
  "take (resume_index (read_xuid_list (Some (unlines [''5,Al'', ''6'', ''5'', ''7'']))) ''6'')
     (read_xuid_list (Some (unlines [''5,Al'', ''6'', ''5'', ''7'']))) = [''5'', ''6'']"
proof -
  have plain: "list_all plain_line [''5,Al'', ''6'', ''5'', ''7'']" by (simp add: plain_eval)
  have xs: "read_xuid_list (Some (unlines [''5,Al'', ''6'', ''5'', ''7''])) = [''5'', ''6'', ''7'']"
    by (simp add: read_xuid_list_def scanned_lines [OF plain] cut_byte_def)
  have lap: "invite_lap (drop (resume_index [''5'', ''6'', ''7''] '''') [''5'', ''6'', ''7''])
      [Turn False True, Turn True False, Cancelled] =
      ([SendInvite ''5'', MarkSent ''5'', Progress ''5'', Progress ''6''], LapCancelled)"
    by (simp add: resume_index_def)
  from resume_skips_nobody [OF xs [symmetric] lap] show ?thesis
    unfolding xs by (simp add: resume_index_def)
qed

text \<open>
  However starts, stops, resumptions and late reports of earlier loops interleave, at most
  one invite loop that has not been cancelled exists.
\<close>

theorem one_invite_loop:
  "card (live_loops (foldl (invite_step dur parse) (new_invite_controller f) es)) \<le> 1"
  by (rule invites.at_most_one) (simp add: ic_sane_def new_invite_controller_def live_loops_def)

text \<open>
  A stop is final: until the next start, no report of a loop that was running or had run can
  turn the saved state back to running, so the invites do not come back with the next session.
\<close>

theorem stop_is_final:
  assumes "ic_running (foldl (invite_step dur parse) (new_invite_controller f) es)"
    and "list_all (\<lambda>n. fst n < ic_next (foldl (invite_step dur parse) (new_invite_controller f) es)) notes"
  defines "c \<equiv> stop_invites True (foldl (invite_step dur parse) (new_invite_controller f) es)"
  shows "\<not> st_running (load_state
    (foldl (invite_step dur parse) c (map (\<lambda>(ctx, d, l, x). Note True ctx d l x) notes)))"
proof -
  let ?m = "foldl (invite_step dur parse) (new_invite_controller f) es"
  have sane: "ic_sane ?m"
    by (rule invites.run_sane) (simp add: ic_sane_def new_invite_controller_def live_loops_def)
  have "ic_sane c" unfolding c_def by (rule ic_sane_stop [OF sane])
  moreover have "\<not> ic_running c" "ic_next c = ic_next ?m"
    using assms(1) by (simp_all add: c_def stop_invites_def Let_def)
  ultimately have dead: "i \<in> ic_done c" if "i < ic_next ?m" for i
    using that by (auto simp: ic_sane_def live_loops_def)
  have same: "foldl (invite_step dur parse) c (map (\<lambda>(ctx, d, l, x). Note True ctx d l x) ns) = c"
    if "list_all (\<lambda>n. fst n < ic_next ?m) ns" for ns
    using that by (induction ns) (auto simp: record_progress_def dead)
  have "\<not> st_running (load_state c)"
    using assms(1) by (simp add: c_def stop_invites_def Let_def save_state_def load_state_def)
  then show ?thesis using same [OF assms(2)] by simp
qed

theorem stop_is_final_witness:
  "\<not> st_running (load_state (foldl (invite_step (\<lambda>d. ''10s'') (\<lambda>s. None))
     (stop_invites True (start_invites (\<lambda>d. ''10s'') True (10 * second) False (new_invite_controller None)))
     [Note True 0 (10 * second) ''queue'' ''5'']))"
proof -
  let ?run = "foldl (invite_step (\<lambda>d. ''10s'') (\<lambda>s. None)) (new_invite_controller None) [StartSame (10 * second) False True]"
  have "ic_running ?run" "list_all (\<lambda>n. fst n < ic_next ?run) [(0, 10 * second, ''queue'', ''5'')]"
    by (simp_all add: start_invites_def start_list_def new_invite_controller_def Let_def)
  from stop_is_final [OF this] show ?thesis by simp
qed

end
