(* ===== verification/Friend_Adder.thy ===== *)
theory Friend_Adder
  imports Invite_Controller
begin

text \<open>
  \<open>friendadder.go\<close>: the one-shot run that sends friend requests to the players the scraper
  recorded from one place. The answers of Xbox Live and the end of the context are observations.
\<close>

section \<open>Who is asked\<close>

record add_target =
  at_xuid :: xuid
  at_name :: string

definition read_nonempty_lines :: "string option \<Rightarrow> string list" where
  "read_nonempty_lines f =
     (case f of None \<Rightarrow> [] | Some s \<Rightarrow> filter (\<lambda>l. l \<noteq> []) (fst (scan_lines s)))"

definition recorded_line :: "string \<Rightarrow> string \<Rightarrow> add_target list" where
  "recorded_line from_place line =
     (let f = split_byte CHR '','' line
      in if length f < 3 then []
         else if list_ex (\<lambda>place. equal_fold (trim_space place) from_place) (drop 2 f)
         then [\<lparr>at_xuid = f ! 0, at_name = f ! 1\<rparr>] else [])"

definition recorded_from :: "string option list \<Rightarrow> string \<Rightarrow> add_target list" where
  "recorded_from files from_place =
     concat (map (\<lambda>f. concat (map (recorded_line from_place) (read_nonempty_lines f))) files)"

fun take_new :: "xuid set \<Rightarrow> add_target list \<Rightarrow> add_target list" where
  "take_new skip [] = []"
| "take_new skip (t # ts) =
     (if at_xuid t \<notin> skip then t # take_new (insert (at_xuid t) skip) ts else take_new skip ts)"

datatype add_error = AlreadyAdding string nat nat | NobodyRecorded string | NoFriendsList

definition added_xuids :: "string option \<Rightarrow> xuid set" where
  "added_xuids f = set (map (\<lambda>l. fst (cut_byte CHR '','' l)) (read_nonempty_lines f))"

definition pending_targets ::
  "xuid \<Rightarrow> string option list \<Rightarrow> string option \<Rightarrow> xuid list option \<Rightarrow> string \<Rightarrow> add_error + add_target list" where
  "pending_targets self files added friends from_place =
     (let recorded = recorded_from files from_place
      in if recorded = [] then Inl (NobodyRecorded from_place)
         else (case friends of
                 None \<Rightarrow> Inl NoFriendsList
               | Some fs \<Rightarrow> Inr (take_new ({self} \<union> added_xuids added \<union> set fs) recorded)))"

section \<open>Start, stop, status\<close>

record friend_adder =
  fa_self :: xuid
  fa_running :: bool
  fa_cancelled :: bool
  fa_from :: string
  fa_sent :: nat
  fa_total :: nat

definition new_adder :: "xuid \<Rightarrow> friend_adder" where
  "new_adder self =
     \<lparr>fa_self = self, fa_running = False, fa_cancelled = False, fa_from = '''', fa_sent = 0, fa_total = 0\<rparr>"

definition start_adder ::
  "string option list \<Rightarrow> string option \<Rightarrow> xuid list option \<Rightarrow> string \<Rightarrow> friend_adder \<Rightarrow>
   friend_adder \<times> (add_error + add_target list)" where
  "start_adder files added friends from_place a =
     (if fa_running a then (a, Inl (AlreadyAdding (fa_from a) (fa_sent a) (fa_total a)))
      else (case pending_targets (fa_self a) files added friends from_place of
              Inl e \<Rightarrow> (a, Inl e)
            | Inr todo \<Rightarrow>
                (if todo = [] then (a, Inr [])
                 else (a\<lparr>fa_running := True, fa_cancelled := False, fa_from := from_place, fa_sent := 0,
                         fa_total := length todo\<rparr>, Inr todo))))"

definition stop_adder :: "friend_adder \<Rightarrow> friend_adder" where
  "stop_adder a = (if fa_running a then a\<lparr>fa_cancelled := True\<rparr> else a)"

datatype adder_status = Idle | LastRun nat nat string | Adding nat nat string

definition status_adder :: "friend_adder \<Rightarrow> adder_status" where
  "status_adder a =
     (if \<not> fa_running a
      then (if fa_from a = '''' then Idle else LastRun (fa_sent a) (fa_total a) (fa_from a))
      else Adding (fa_sent a) (fa_total a) (fa_from a))"

section \<open>The run\<close>

definition max_add_failures :: nat where "max_add_failures = 10"

text \<open>
  \<open>CtxEnds\<close>: the context ends during the pause. \<open>Replied\<close>: the status, the Retry-After of the
  answer, and whether the context ends while that is waited for.
\<close>

datatype add_turn = CtxEnds | RequestError | Replied int duration bool

datatype add_action = RecordAdded xuid | WaitFor duration

datatype add_end = AddFinished | AddStopped nat | GaveUp nat | AddWaiting | NoFile

fun add_loop :: "nat \<Rightarrow> add_target list \<Rightarrow> add_turn list \<Rightarrow> add_action list \<times> add_end" where
  "add_loop failures [] ts = ([], AddFinished)"
| "add_loop failures (t # todo) [] = ([], AddWaiting)"
| "add_loop failures (t # todo) (CtxEnds # ts) = ([], AddStopped (length (t # todo)))"
| "add_loop failures (t # todo) (RequestError # ts) =
     (if Suc failures \<ge> max_add_failures then ([], GaveUp (length (t # todo)))
      else add_loop (Suc failures) todo ts)"
| "add_loop failures (t # todo) (Replied status retry_after ends # ts) =
     (if status = 429 then
        apfst (Cons (WaitFor (max retry_after minute)))
          (if ends then ([], AddStopped (length (t # todo))) else add_loop failures (t # todo) ts)
      else if status \<ge> 200 \<and> status < 300 then apfst (Cons (RecordAdded (at_xuid t))) (add_loop 0 todo ts)
      else if Suc failures \<ge> max_add_failures then ([], GaveUp (length (t # todo)))
      else add_loop (Suc failures) todo ts)"

definition added_of :: "add_action list \<Rightarrow> xuid list" where
  "added_of as = concat (map (\<lambda>a. case a of RecordAdded x \<Rightarrow> [x] | WaitFor d \<Rightarrow> []) as)"

definition run_adder ::
  "bool \<Rightarrow> add_target list \<Rightarrow> add_turn list \<Rightarrow> friend_adder \<Rightarrow> friend_adder \<times> add_action list \<times> add_end" where
  "run_adder file_ok todo ts a =
     (let (as, e) = (if file_ok then add_loop 0 todo ts else ([], NoFile));
          a = a\<lparr>fa_sent := fa_sent a + length (added_of as)\<rparr>
      in (if e = AddWaiting then a else a\<lparr>fa_running := False\<rparr>, as, e))"

section \<open>The route\<close>

datatype add_reply = MissingFrom | Conflict add_error | NothingToDo | StartedAdding nat

definition add_start_route ::
  "string option list \<Rightarrow> string option \<Rightarrow> xuid list option \<Rightarrow> string \<Rightarrow> friend_adder \<Rightarrow> friend_adder \<times> add_reply" where
  "add_start_route files added friends q_from a =
     (let from_place = trim_space q_from
      in if from_place = '''' then (a, MissingFrom)
         else (case start_adder files added friends from_place a of
                 (a, Inl e) \<Rightarrow> (a, Conflict e)
               | (a, Inr todo) \<Rightarrow> (a, if todo = [] then NothingToDo else StartedAdding (length todo))))"

section \<open>Lemmas\<close>

lemma take_new_xuids:
  "set (map at_xuid (take_new skip ts)) = at_xuid ` set ts - skip"
  by (induction skip ts rule: take_new.induct) auto

lemma take_new_distinct: "distinct (map at_xuid (take_new skip ts))"
proof (induction skip ts rule: take_new.induct)
  case (2 skip t ts)
  then show ?case using take_new_xuids [of "insert (at_xuid t) skip" ts] by auto
qed simp

lemma take_new_subseq: "subseq (take_new skip ts) ts"
  by (induction skip ts rule: take_new.induct) auto

lemma added_of_simps [simp]:
  "added_of [] = []" "added_of (RecordAdded x # as) = x # added_of as" "added_of (WaitFor d # as) = added_of as"
  by (simp_all add: added_of_def)

lemma add_loop_subseq: "subseq (added_of (fst (add_loop failures todo ts))) (map at_xuid todo)"
  by (induction failures todo ts rule: add_loop.induct) (auto simp: apfst_def map_prod_def case_prod_beta)

text \<open>Answers that settle the next player, and ones that only make the loop wait.\<close>

definition accepted_turn :: "add_turn \<Rightarrow> bool" where
  "accepted_turn t \<longleftrightarrow> (case t of Replied s d e \<Rightarrow> 200 \<le> s \<and> s < 300 | _ \<Rightarrow> False)"

definition waiting_turn :: "add_turn \<Rightarrow> bool" where
  "waiting_turn t \<longleftrightarrow> (case t of Replied s d e \<Rightarrow> s = 429 \<and> \<not> e | _ \<Rightarrow> False)"

lemma add_loop_all:
  "list_all (\<lambda>t. accepted_turn t \<or> waiting_turn t) ts \<Longrightarrow> length (filter accepted_turn ts) = length todo \<Longrightarrow>
   added_of (fst (add_loop failures todo ts)) = map at_xuid todo \<and> snd (add_loop failures todo ts) = AddFinished"
proof (induction failures todo ts rule: add_loop.induct)
  case (2 failures t todo)
  then show ?case by simp
next
  case (5 failures t todo status retry_after ends ts)
  then show ?case by (auto simp: accepted_turn_def waiting_turn_def split: if_splits)
qed (auto simp: accepted_turn_def waiting_turn_def)

section \<open>Properties\<close>

text \<open>
  The players a run asks are, in the order of the files, those recorded from the place, each
  once, without the account itself, its friends and everyone already sent a request.
\<close>

theorem pending_exactly_new:
  assumes "pending_targets self files added friends from_place = Inr todo"
  shows "\<exists>fs. friends = Some fs \<and> subseq todo (recorded_from files from_place) \<and> distinct (map at_xuid todo) \<and>
    set (map at_xuid todo) =
      at_xuid ` set (recorded_from files from_place) - ({self} \<union> added_xuids added \<union> set fs)"
proof -
  obtain fs where fs: "friends = Some fs"
    "todo = take_new ({self} \<union> added_xuids added \<union> set fs) (recorded_from files from_place)"
    using assms by (auto simp: pending_targets_def Let_def split: if_splits option.splits)
  show ?thesis unfolding fs(2)
    by (intro exI [of _ fs] conjI fs(1) take_new_subseq take_new_distinct take_new_xuids)
qed

theorem pending_exactly_new_witness:
  "\<exists>todo. pending_targets ''1'' [Some (unlines [''5,Al,Hive'', ''6,Bo,hive''])] (Some (unlines [''6,0''])) (Some []) ''HIVE'' =
     Inr todo \<and> set (map at_xuid todo) = {''5''}"
proof -
  have plain: "list_all plain_line [''5,Al,Hive'', ''6,Bo,hive'']" "list_all plain_line [''6,0'']"
    by (simp_all add: plain_eval)
  have lines: "recorded_line ''HIVE'' ''5,Al,Hive'' = [\<lparr>at_xuid = ''5'', at_name = ''Al''\<rparr>]"
    "recorded_line ''HIVE'' ''6,Bo,hive'' = [\<lparr>at_xuid = ''6'', at_name = ''Bo''\<rparr>]"
    by code_simp+
  have rec: "recorded_from [Some (unlines [''5,Al,Hive'', ''6,Bo,hive''])] ''HIVE'' =
      [\<lparr>at_xuid = ''5'', at_name = ''Al''\<rparr>, \<lparr>at_xuid = ''6'', at_name = ''Bo''\<rparr>]"
    by (simp add: recorded_from_def read_nonempty_lines_def scanned_lines [OF plain(1)] lines)
  have added: "added_xuids (Some (unlines [''6,0''])) = {''6''}"
    by (simp add: added_xuids_def read_nonempty_lines_def scanned_lines [OF plain(2)] cut_byte_def)
  obtain todo where todo: "pending_targets ''1'' [Some (unlines [''5,Al,Hive'', ''6,Bo,hive''])] (Some (unlines [''6,0'']))
      (Some []) ''HIVE'' = Inr todo"
    by (simp add: pending_targets_def Let_def rec)
  from pending_exactly_new [OF todo] todo show ?thesis unfolding rec added by auto
qed

text \<open>
  A run records each player at most once and in order; answers that ask to wait lose nobody:
  when every other answer accepts, every player is recorded and the run finishes.
\<close>

theorem add_run_complete:
  "subseq (added_of (fst (add_loop 0 todo ts))) (map at_xuid todo) \<and>
   (list_all (\<lambda>t. accepted_turn t \<or> waiting_turn t) ts \<longrightarrow> length (filter accepted_turn ts) = length todo \<longrightarrow>
    added_of (fst (add_loop 0 todo ts)) = map at_xuid todo \<and> snd (add_loop 0 todo ts) = AddFinished)"
  using add_loop_subseq add_loop_all by blast

theorem add_run_complete_witness:
  "added_of (fst (add_loop 0 [\<lparr>at_xuid = ''5'', at_name = ''Al''\<rparr>] [Replied 429 second False, Replied 201 0 False])) = [''5'']"
  using add_run_complete [of "[\<lparr>at_xuid = ''5'', at_name = ''Al''\<rparr>]" "[Replied 429 second False, Replied 201 0 False]"]
  by (simp add: accepted_turn_def waiting_turn_def)

end
