(* ===== verification/Control_Plane.thy ===== *)
theory Control_Plane
  imports Registry Friend_Adder
begin

text \<open>
  The control port as a whole: the server of \<open>control.go\<close>, which outlives sessions, with the routes of \<open>invitewatcher.go\<close>,
  \<open>friendsinviter.go\<close> and \<open>friendadder.go\<close> that each session generation of a broadcast puts in (\<open>runSession\<close> in
  \<open>main.go\<close>), the invite state file that carries the loop from one generation to the next, and the adder
  that all generations share. What happens is a list of events; generations of a broadcast are numbered.
\<close>

section \<open>State\<close>

record control_broadcast =
  cb_next :: nat
  cb_alive :: "nat set"
  cb_controllers :: "nat \<Rightarrow> invite_ctl"
  cb_friends :: "nat \<Rightarrow> friends_ctl"
  cb_file :: "invite_state option"
  cb_adder :: "friend_adder option"

record control_plane =
  cp_server :: "(string \<times> nat) control_server"
  cp_broadcasts :: "string \<Rightarrow> control_broadcast"

definition no_friends_ctl :: friends_ctl where
  "no_friends_ctl = \<lparr>fc_running = False, fc_stop = None, fc_next = 0, fc_done = {}\<rparr>"

definition new_broadcast :: "invite_state option \<Rightarrow> control_broadcast" where
  "new_broadcast f =
     \<lparr>cb_next = 0, cb_alive = {}, cb_controllers = (\<lambda>g. new_invite_controller None), cb_friends = (\<lambda>g. no_friends_ctl),
      cb_file = f, cb_adder = None\<rparr>"

definition new_plane :: "bool \<Rightarrow> (string \<Rightarrow> invite_state option) \<Rightarrow> control_plane" where
  "new_plane debug files = \<lparr>cp_server = new_control_server debug, cp_broadcasts = (\<lambda>n. new_broadcast (files n))\<rparr>"

text \<open>
  The environment of one step: whether files can be written, and what the adder reads. \<open>dur\<close> and \<open>parse\<close> below are
  \<open>Duration.String\<close> and \<open>time.ParseDuration\<close>.
\<close>

record control_env =
  ce_io_ok :: bool
  ce_files :: "string option list"
  ce_added :: "string option"
  ce_friends :: "xuid list option"

record control_request =
  cq_path :: string
  cq_interval :: string
  cq_restart :: string
  cq_list :: string
  cq_from :: string

section \<open>Routes\<close>

datatype control_route =
    InvitesStart | InvitesStop | InvitesStatus | FriendsStart | FriendsStop | FriendsStatus | AddStart | AddStop | AddStatus

definition route_of :: "string \<Rightarrow> control_route option" where
  "route_of path =
     map_of [(''/invites/start'', InvitesStart), (''/invites/stop'', InvitesStop), (''/invites/status'', InvitesStatus),
       (''/invites/friends/start'', FriendsStart), (''/invites/friends/stop'', FriendsStop),
       (''/invites/friends/status'', FriendsStatus), (''/friends/add/start'', AddStart), (''/friends/add/stop'', AddStop),
       (''/friends/add/status'', AddStatus)] path"

datatype control_answer =
    InviteAnswer invite_reply
  | StatusAnswer status_reply
  | AddAnswer add_reply
  | AddStatusAnswer adder_status
  | Started | StoppedNow | Running
  | NotFound | Unavailable string | Pinged | Profiled bool

text \<open>A generation's controller works on the broadcast's state file.\<close>

definition controller :: "control_broadcast \<Rightarrow> nat \<Rightarrow> invite_ctl" where
  "controller b g = (cb_controllers b g)\<lparr>ic_file := cb_file b\<rparr>"

definition set_controller :: "nat \<Rightarrow> invite_ctl \<Rightarrow> control_broadcast \<Rightarrow> control_broadcast" where
  "set_controller g c b = b\<lparr>cb_controllers := (cb_controllers b)(g := c), cb_file := ic_file c\<rparr>"

definition set_friends :: "nat \<Rightarrow> friends_ctl \<Rightarrow> control_broadcast \<Rightarrow> control_broadcast" where
  "set_friends g c b = b\<lparr>cb_friends := (cb_friends b)(g := c)\<rparr>"

definition friends_running :: "friends_ctl \<Rightarrow> bool" where
  "friends_running c = fc_running c"

definition friends_routes :: "control_route \<Rightarrow> friends_ctl \<Rightarrow> friends_ctl \<times> control_answer" where
  "friends_routes r c =
     (case r of
        FriendsStart \<Rightarrow> (start_friends c, Started)
      | FriendsStop \<Rightarrow> (stop_friends c, StoppedNow)
      | _ \<Rightarrow> (c, if friends_running c then Running else StoppedNow))"

definition add_routes :: "control_env \<Rightarrow> control_route \<Rightarrow> string \<Rightarrow> friend_adder \<Rightarrow> friend_adder \<times> control_answer" where
  "add_routes env r q_from a =
     (case r of
        AddStart \<Rightarrow> apsnd AddAnswer (add_start_route (ce_files env) (ce_added env) (ce_friends env) q_from a)
      | AddStop \<Rightarrow> (stop_adder a, StoppedNow)
      | _ \<Rightarrow> (a, AddStatusAnswer (status_adder a)))"

definition invite_routes ::
  "(duration \<Rightarrow> string) \<Rightarrow> (string \<Rightarrow> duration option) \<Rightarrow> control_env \<Rightarrow> control_request \<Rightarrow> control_route \<Rightarrow> nat \<Rightarrow> control_broadcast \<Rightarrow> control_broadcast \<times> control_answer" where
  "invite_routes dur parse env q r g b =
     (case r of
        InvitesStart \<Rightarrow>
          (case start_route dur parse (ce_io_ok env) (cq_interval q) (cq_restart q) (cq_list q) (controller b g) of
             (c, a) \<Rightarrow> (set_controller g c b, InviteAnswer a))
      | InvitesStop \<Rightarrow> (set_controller g (stop_invites (ce_io_ok env) (controller b g)) b, StoppedNow)
      | InvitesStatus \<Rightarrow> (b, StatusAnswer (status_route (controller b g)))
      | AddStart \<Rightarrow> (case cb_adder b of
          None \<Rightarrow> (b, NotFound)
        | Some a \<Rightarrow> (case add_routes env AddStart (cq_from q) a of (a, ans) \<Rightarrow> (b\<lparr>cb_adder := Some a\<rparr>, ans)))
      | AddStop \<Rightarrow> (case cb_adder b of
          None \<Rightarrow> (b, NotFound)
        | Some a \<Rightarrow> (case add_routes env AddStop (cq_from q) a of (a, ans) \<Rightarrow> (b\<lparr>cb_adder := Some a\<rparr>, ans)))
      | AddStatus \<Rightarrow> (case cb_adder b of
          None \<Rightarrow> (b, NotFound)
        | Some a \<Rightarrow> (case add_routes env AddStatus (cq_from q) a of (a, ans) \<Rightarrow> (b\<lparr>cb_adder := Some a\<rparr>, ans)))
      | _ \<Rightarrow> (case friends_routes r (cb_friends b g) of (c, ans) \<Rightarrow> (set_friends g c b, ans)))"

section \<open>Events\<close>

definition change_broadcast :: "string \<Rightarrow> control_broadcast \<Rightarrow> control_plane \<Rightarrow> control_plane" where
  "change_broadcast n b p = p\<lparr>cp_broadcasts := (cp_broadcasts p)(n := b)\<rparr>"

definition serve_request ::
  "(duration \<Rightarrow> string) \<Rightarrow> (string \<Rightarrow> duration option) \<Rightarrow> control_env \<Rightarrow> control_request \<Rightarrow> control_plane \<Rightarrow>
   control_plane \<times> control_answer" where
  "serve_request dur parse env q p =
     (case serve_http (cp_server p) (cq_path q) of
        PingPage \<Rightarrow> (p, Pinged)
      | ProfilerOff \<Rightarrow> (p, Profiled False)
      | ProfilerPage \<Rightarrow> (p, Profiled True)
      | NoSuchPage \<Rightarrow> (p, NotFound)
      | ControlsDown n \<Rightarrow> (p, Unavailable n)
      | Routed (n, g) path \<Rightarrow>
          (case route_of path of
             None \<Rightarrow> (p, NotFound)
           | Some r \<Rightarrow>
               (case invite_routes dur parse env q r g (cp_broadcasts p n) of (b, ans) \<Rightarrow> (change_broadcast n b p, ans))))"

text \<open>
  The part of \<open>runSession\<close> that puts the routes in. Sessions of a broadcast follow one another: the next
  starts when the context of the one before has ended.
\<close>

definition session_up ::
  "(duration \<Rightarrow> string) \<Rightarrow> (string \<Rightarrow> duration option) \<Rightarrow> control_env \<Rightarrow> string \<Rightarrow> xuid \<Rightarrow> control_plane \<Rightarrow> control_plane" where
  "session_up dur parse env n self p =
     (let b = cp_broadcasts p n; g = cb_next b
      in if cb_alive b \<noteq> {} then p
         else (let a = (case cb_adder b of None \<Rightarrow> new_adder self | Some a \<Rightarrow> a);
                   c = resume_if_wanted dur parse (ce_io_ok env) (new_invite_controller (cb_file b));
                   b = set_controller g c (set_friends g no_friends_ctl (b\<lparr>cb_next := Suc g, cb_alive := {g}, cb_adder := Some a\<rparr>))
               in change_broadcast n b (p\<lparr>cp_server := set_invites n (n, g) (cp_server p)\<rparr>)))"

datatype plane_event =
    SessionUp control_env string xuid
  | SessionDown string nat
  | SlotGoes string nat
  | Request control_env control_request
  | LoopNotes control_env string nat nat xuid
  | AdderRuns string bool "add_target list" "add_turn list"

text \<open>
  A loop of generation \<open>g\<close> notes its progress unless its context, its session's or its own, has ended. It has the interval and
  the list with which it was started: those of the controller, whose loop it is while its context lives.
\<close>

definition loop_notes ::
  "(duration \<Rightarrow> string) \<Rightarrow> control_env \<Rightarrow> string \<Rightarrow> nat \<Rightarrow> nat \<Rightarrow> xuid \<Rightarrow> control_plane \<Rightarrow> control_plane" where
  "loop_notes dur env n g ctx x p =
     (let b = cp_broadcasts p n; c = controller b g
      in if g \<in> cb_alive b \<and> ctx < ic_next c
         then change_broadcast n (set_controller g (record_progress dur (ce_io_ok env) ctx (ic_interval c) (ic_list c) x c) b) p
         else p)"

fun plane_step :: "(duration \<Rightarrow> string) \<Rightarrow> (string \<Rightarrow> duration option) \<Rightarrow> control_plane \<Rightarrow> plane_event \<Rightarrow> control_plane" where
  "plane_step dur parse p (SessionUp env n self) = session_up dur parse env n self p"
| "plane_step dur parse p (SessionDown n g) =
     change_broadcast n ((cp_broadcasts p n)\<lparr>cb_alive := cb_alive (cp_broadcasts p n) - {g}\<rparr>) p"
| "plane_step dur parse p (SlotGoes n slot) = p\<lparr>cp_server := session_over n slot (cp_server p)\<rparr>"
| "plane_step dur parse p (Request env q) = fst (serve_request dur parse env q p)"
| "plane_step dur parse p (LoopNotes env n g ctx x) = loop_notes dur env n g ctx x p"
| "plane_step dur parse p (AdderRuns n file_ok todo ts) =
     (case cb_adder (cp_broadcasts p n) of
        None \<Rightarrow> p
      | Some a \<Rightarrow> change_broadcast n ((cp_broadcasts p n)\<lparr>cb_adder := Some (fst (run_adder file_ok todo ts a))\<rparr>) p)"

definition plane_run ::
  "(duration \<Rightarrow> string) \<Rightarrow> (string \<Rightarrow> duration option) \<Rightarrow> control_plane \<Rightarrow> plane_event list \<Rightarrow> control_plane" where
  "plane_run dur parse p es = foldl (plane_step dur parse) p es"

text \<open>The invite loops that go on: those of a generation whose session lives.\<close>

definition loops_of :: "control_broadcast \<Rightarrow> (nat \<times> nat) set" where
  "loops_of b = {(g, i). g \<in> cb_alive b \<and> i \<in> live_loops (cb_controllers b g)}"

section \<open>What every run keeps\<close>

definition file_wants :: "invite_state option \<Rightarrow> bool" where
  "file_wants f \<longleftrightarrow> (case f of None \<Rightarrow> False | Some st \<Rightarrow> st_running st)"

text \<open>The state file says what the newest generation's controller does.\<close>

definition in_step :: "(duration \<Rightarrow> string) \<Rightarrow> control_broadcast \<Rightarrow> bool" where
  "in_step dur b \<longleftrightarrow>
     (\<forall>g. cb_next b = Suc g \<longrightarrow>
        (let c = cb_controllers b g
         in (file_wants (cb_file b) \<longleftrightarrow> ic_running c) \<and>
            (ic_running c \<longrightarrow> min_invite_interval \<le> ic_interval c \<and> (ic_list c = invite_list_queue \<or> ic_list c = invite_list_accepted) \<and>
               (\<exists>st. cb_file b = Some st \<and> st_interval st = dur (ic_interval c) \<and> st_list st = ic_list c))))"

definition broadcast_ok :: "control_broadcast \<Rightarrow> bool" where
  "broadcast_ok b \<longleftrightarrow> cb_alive b \<subseteq> {g. cb_next b = Suc g} \<and> (\<forall>g. ic_sane (cb_controllers b g))"

definition slots_ok :: "control_plane \<Rightarrow> bool" where
  "slots_ok p \<longleftrightarrow>
     (\<forall>n slot m g. cs_invites (cp_server p) n = Some (slot, m, g) \<longrightarrow> m = n \<and> cb_next (cp_broadcasts p n) = Suc g)"

lemma broadcast_simps [simp]:
  "cb_next (set_controller g c b) = cb_next b" "cb_alive (set_controller g c b) = cb_alive b"
  "cb_controllers (set_controller g c b) = (cb_controllers b)(g := c)" "cb_file (set_controller g c b) = ic_file c"
  "cb_adder (set_controller g c b) = cb_adder b"
  "cb_next (set_friends g d b) = cb_next b" "cb_alive (set_friends g d b) = cb_alive b"
  "cb_controllers (set_friends g d b) = cb_controllers b" "cb_file (set_friends g d b) = cb_file b"
  "cb_adder (set_friends g d b) = cb_adder b"
  "cp_broadcasts (change_broadcast n b' p) = (cp_broadcasts p)(n := b')" "cp_server (change_broadcast n b' p) = cp_server p"
  by (simp_all add: set_controller_def set_friends_def change_broadcast_def)

lemma controller_simps [simp]:
  "ic_running (controller b g) = ic_running (cb_controllers b g)" "ic_stop (controller b g) = ic_stop (cb_controllers b g)"
  "ic_next (controller b g) = ic_next (cb_controllers b g)" "ic_done (controller b g) = ic_done (cb_controllers b g)"
  "ic_interval (controller b g) = ic_interval (cb_controllers b g)" "ic_list (controller b g) = ic_list (cb_controllers b g)"
  "ic_file (controller b g) = cb_file b" "live_loops (controller b g) = live_loops (cb_controllers b g)"
  "ic_sane (controller b g) = ic_sane (cb_controllers b g)"
  by (simp_all add: controller_def live_loops_def ic_sane_def)

text \<open>What a route may do to a broadcast: change a controller by one of its own steps, or leave all of them.\<close>

lemma start_route_result:
  assumes "start_route dur parse io_ok q_interval q_restart q_list c = (c', a)"
  shows "c' = c \<or> (\<exists>interval l fresh. min_invite_interval \<le> interval \<and> c' = start_list dur io_ok interval l fresh c)"
proof (cases "parse_invite_interval parse q_interval")
  case (Inl e)
  with assms show ?thesis by (simp add: start_route_def)
next
  case (Inr interval)
  then have "min_invite_interval \<le> interval"
    by (auto simp: parse_invite_interval_def invite_rate_limit_def min_invite_interval_def second_def
        split: if_splits option.splits)
  with Inr assms show ?thesis
    by (auto simp: start_route_def start_invites_def Let_def split: if_splits)
qed

definition same_controllers :: "control_broadcast \<Rightarrow> control_broadcast \<Rightarrow> bool" where
  "same_controllers b b' \<longleftrightarrow> cb_next b' = cb_next b \<and> cb_alive b' = cb_alive b \<and> cb_file b' = cb_file b \<and>
     (\<forall>h. controller b' h = controller b h)"

lemma same_controllers_adder: "same_controllers b (b\<lparr>cb_adder := a\<rparr>)"
  "same_controllers b (set_friends g d b)" "same_controllers b b" "same_controllers b (set_controller g (controller b g) b)"
  by (simp_all add: same_controllers_def controller_def set_friends_def set_controller_def)

lemma invite_routes_result:
  assumes "invite_routes dur parse env q r g b = (b', ans)"
  shows "same_controllers b b' \<or>
    (r = InvitesStop \<and> b' = set_controller g (stop_invites (ce_io_ok env) (controller b g)) b) \<or>
    (r = InvitesStart \<and> (\<exists>interval l fresh. min_invite_interval \<le> interval \<and>
       b' = set_controller g (start_list dur (ce_io_ok env) interval l fresh (controller b g)) b))"
proof (cases r)
  case InvitesStart
  obtain c a where c: "start_route dur parse (ce_io_ok env) (cq_interval q) (cq_restart q) (cq_list q) (controller b g) = (c, a)"
    by (meson surj_pair)
  then have "b' = set_controller g c b" using assms InvitesStart by (simp add: invite_routes_def)
  with start_route_result [OF c] InvitesStart same_controllers_adder(4) [of b g] show ?thesis by metis
next
  case InvitesStop
  with assms show ?thesis by (simp add: invite_routes_def)
next
  case InvitesStatus
  with assms same_controllers_adder show ?thesis by (simp add: invite_routes_def)
next
  case FriendsStart
  with assms same_controllers_adder show ?thesis by (auto simp: invite_routes_def split: prod.splits)
next
  case FriendsStop
  with assms same_controllers_adder show ?thesis by (auto simp: invite_routes_def split: prod.splits)
next
  case FriendsStatus
  with assms same_controllers_adder show ?thesis by (auto simp: invite_routes_def split: prod.splits)
next
  case AddStart
  with assms same_controllers_adder show ?thesis by (auto simp: invite_routes_def split: prod.splits option.splits)
next
  case AddStop
  with assms same_controllers_adder show ?thesis by (auto simp: invite_routes_def split: prod.splits option.splits)
next
  case AddStatus
  with assms same_controllers_adder show ?thesis by (auto simp: invite_routes_def split: prod.splits option.splits)
qed

text \<open>
  What one event does to one broadcast, as a relation: \<open>io\<close> says whether the state file can be written, \<open>may_start\<close>
  whether the event is a request to start its invites.
\<close>

inductive broadcast_move ::
  "(duration \<Rightarrow> string) \<Rightarrow> (string \<Rightarrow> duration option) \<Rightarrow> bool \<Rightarrow> bool \<Rightarrow> control_broadcast \<Rightarrow> control_broadcast \<Rightarrow> bool"
  for dur parse io may_start where
  Stays: "same_controllers b b' \<Longrightarrow> broadcast_move dur parse io may_start b b'"
| Renews: "cb_alive b = {} \<Longrightarrow> cb_next b = g \<Longrightarrow> cb_next b' = Suc g \<Longrightarrow> cb_alive b' = {g} \<Longrightarrow>
    c = resume_if_wanted dur parse io (new_invite_controller (cb_file b)) \<Longrightarrow>
    cb_controllers b' = (cb_controllers b)(g := c) \<Longrightarrow> cb_file b' = ic_file c \<Longrightarrow> broadcast_move dur parse io may_start b b'"
| Ends: "broadcast_move dur parse io may_start b (b\<lparr>cb_alive := cb_alive b - {g}\<rparr>)"
| Stops: "cb_next b = Suc g \<Longrightarrow> broadcast_move dur parse io may_start b (set_controller g (stop_invites io (controller b g)) b)"
| Starts: "may_start \<Longrightarrow> cb_next b = Suc g \<Longrightarrow> min_invite_interval \<le> interval \<Longrightarrow>
    broadcast_move dur parse io may_start b (set_controller g (start_list dur io interval l fresh (controller b g)) b)"
| Notes: "g \<in> cb_alive b \<Longrightarrow> ctx < ic_next (cb_controllers b g) \<Longrightarrow>
    broadcast_move dur parse io may_start b
      (set_controller g (record_progress dur io ctx (ic_interval (controller b g)) (ic_list (controller b g)) x (controller b g)) b)"

definition request_target :: "string \<Rightarrow> string \<times> string" where
  "request_target path =
     (case cut_prefix path control_broadcast_prefix of
        None \<Rightarrow> (''primary'', path)
      | Some rest \<Rightarrow> (let (name, sub, found) = cut_byte CHR ''/'' rest in (name, ''/'' @ sub)))"

lemma serve_http_Routed:
  "serve_http c path = Routed h sub \<Longrightarrow>
   \<exists>n slot. request_target path = (n, sub) \<and> cs_invites c n = Some (slot, h)"
  by (auto simp: serve_http_def request_target_def Let_def split: option.splits prod.splits if_splits)

fun io_of :: "plane_event \<Rightarrow> bool" where
  "io_of (SessionUp env n self) = ce_io_ok env"
| "io_of (Request env q) = ce_io_ok env"
| "io_of (LoopNotes env n g ctx x) = ce_io_ok env"
| "io_of e = True"

fun asks_to_start :: "string \<Rightarrow> plane_event \<Rightarrow> bool" where
  "asks_to_start n (Request env q) = (request_target (cq_path q) = (n, ''/invites/start''))"
| "asks_to_start n e = False"

lemma route_of_start: "route_of path = Some InvitesStart \<Longrightarrow> path = ''/invites/start''"
  by (auto simp: route_of_def split: if_splits)

lemma session_up_move:
  assumes "slots_ok p"
  shows "broadcast_move dur parse (ce_io_ok env) s (cp_broadcasts p m) (cp_broadcasts (session_up dur parse env n self p) m) \<and>
    slots_ok (session_up dur parse env n self p)"
proof (cases "cb_alive (cp_broadcasts p n) = {}")
  case False
  then show ?thesis using assms same_controllers_adder(3) by (simp add: session_up_def Let_def Stays)
next
  case True
  have "slots_ok (session_up dur parse env n self p)"
    using assms True by (auto simp: slots_ok_def session_up_def Let_def set_invites_def)
  moreover have "broadcast_move dur parse (ce_io_ok env) s (cp_broadcasts p m) (cp_broadcasts (session_up dur parse env n self p) m)"
  proof (cases "m = n")
    case eq: True
    show ?thesis
      by (rule Renews [OF _ refl]) (use True eq in \<open>simp_all add: session_up_def Let_def\<close>)
  next
    case False
    then show ?thesis using True same_controllers_adder(3) by (simp add: session_up_def Let_def Stays)
  qed
  ultimately show ?thesis by blast
qed

lemma serve_request_move:
  assumes "slots_ok p"
  shows "broadcast_move dur parse (ce_io_ok env) (asks_to_start m (Request env q)) (cp_broadcasts p m)
      (cp_broadcasts (fst (serve_request dur parse env q p)) m) \<and>
    slots_ok (fst (serve_request dur parse env q p))"
proof (cases "\<exists>n g path r. serve_http (cp_server p) (cq_path q) = Routed (n, g) path \<and> route_of path = Some r")
  case False
  then have "fst (serve_request dur parse env q p) = p"
    by (auto simp: serve_request_def split: control_reply.split prod.split option.split)
  then show ?thesis using assms same_controllers_adder(3) by (simp add: Stays)
next
  case True
  then obtain n g path r where r: "serve_http (cp_server p) (cq_path q) = Routed (n, g) path" "route_of path = Some r" by blast
  obtain b' ans where b': "invite_routes dur parse env q r g (cp_broadcasts p n) = (b', ans)" by (meson surj_pair)
  have serve: "fst (serve_request dur parse env q p) = change_broadcast n b' p" using r b' by (simp add: serve_request_def)
  obtain k i where k: "request_target (cq_path q) = (k, path)" "cs_invites (cp_server p) k = Some (i, n, g)"
    using serve_http_Routed [OF r(1)] by blast
  have "n = k" "cb_next (cp_broadcasts p k) = Suc g" using k(2) assms unfolding slots_ok_def by blast+
  with k have slot: "request_target (cq_path q) = (n, path)" "cs_invites (cp_server p) n = Some (i, n, g)"
    "cb_next (cp_broadcasts p n) = Suc g" by simp_all
  note res = invite_routes_result [OF b']
  then have "cb_next b' = cb_next (cp_broadcasts p n)" by (auto simp: same_controllers_def)
  then have "slots_ok (change_broadcast n b' p)" using assms by (auto simp: slots_ok_def)
  moreover have "broadcast_move dur parse (ce_io_ok env) (asks_to_start n (Request env q)) (cp_broadcasts p n) b'"
    using res
  proof (elim disjE conjE exE)
    assume "same_controllers (cp_broadcasts p n) b'"
    then show ?thesis by (rule Stays)
  next
    assume "b' = set_controller g (stop_invites (ce_io_ok env) (controller (cp_broadcasts p n) g)) (cp_broadcasts p n)"
    then show ?thesis using Stops [OF slot(3)] by simp
  next
    fix interval l fresh
    assume s: "r = InvitesStart" "min_invite_interval \<le> interval"
      "b' = set_controller g (start_list dur (ce_io_ok env) interval l fresh (controller (cp_broadcasts p n) g)) (cp_broadcasts p n)"
    then have "asks_to_start n (Request env q)" using route_of_start r(2) slot(1) by simp
    from Starts [OF this slot(3) s(2)] s(3) show ?thesis by simp
  qed
  ultimately show ?thesis using same_controllers_adder(3) by (auto simp: serve Stays)
qed

lemma plane_step_move:
  assumes "slots_ok p"
  shows "broadcast_move dur parse (io_of e) (asks_to_start m e) (cp_broadcasts p m) (cp_broadcasts (plane_step dur parse p e) m) \<and>
    slots_ok (plane_step dur parse p e)"
proof (cases e)
  case (SessionUp env n self)
  with session_up_move [OF assms] show ?thesis by simp
next
  case (SessionDown n g)
  then show ?thesis
    using assms Ends same_controllers_adder(3) by (auto simp: slots_ok_def change_broadcast_def Stays)
next
  case (SlotGoes n slot)
  then show ?thesis using assms same_controllers_adder(3) by (auto simp: slots_ok_def session_over_def Stays)
next
  case (Request env q)
  with serve_request_move [OF assms] show ?thesis by simp
next
  case (LoopNotes env n g ctx x)
  then show ?thesis
    using assms same_controllers_adder(3)
    by (auto simp: slots_ok_def loop_notes_def Let_def intro: Stays Notes [simplified])
next
  case (AdderRuns n file_ok todo ts)
  then show ?thesis
    using assms same_controllers_adder(1,3) by (auto simp: slots_ok_def Stays split: option.split)
qed

lemma file_same: "same_controllers b b' \<Longrightarrow> controller b' g = controller b g \<and> cb_file b' = cb_file b"
  by (simp add: same_controllers_def)

lemma same_controller_parts:
  assumes "same_controllers b b'"
  shows "ic_running (cb_controllers b' g) = ic_running (cb_controllers b g)"
    "ic_interval (cb_controllers b' g) = ic_interval (cb_controllers b g)"
    "ic_list (cb_controllers b' g) = ic_list (cb_controllers b g)"
    "ic_sane (cb_controllers b' g) = ic_sane (cb_controllers b g)"
    "live_loops (cb_controllers b' g) = live_loops (cb_controllers b g)"
  using file_same [OF assms, of g] by (metis controller_simps)+

lemma new_controller_sane: "ic_sane (new_invite_controller f)"
  by (simp add: new_invite_controller_def ic_sane_def live_loops_def)

lemma ic_sane_resume: "ic_sane c \<Longrightarrow> ic_sane (resume_if_wanted dur parse io c)"
  by (simp add: resume_if_wanted_def start_invites_def ic_sane_start Let_def)

lemma ic_sane_progress: "ic_sane c \<Longrightarrow> ic_sane (record_progress dur io ctx interval l x c)"
  by (simp add: record_progress_def ic_sane_save)

lemma move_keeps_ok: "broadcast_move dur parse io s b b' \<Longrightarrow> broadcast_ok b \<Longrightarrow> broadcast_ok b'"
proof (induction rule: broadcast_move.induct)
  case (Stays b b')
  then show ?case using same_controller_parts(4) [OF Stays(1)] by (simp add: broadcast_ok_def same_controllers_def)
next
  case (Renews b g b' c)
  then show ?case by (simp add: broadcast_ok_def ic_sane_resume new_controller_sane)
qed (auto simp: broadcast_ok_def ic_sane_stop ic_sane_start ic_sane_progress)

text \<open>With a file that can be written, the file stays in step with the newest controller.\<close>

lemma stop_in_step:
  "in_step dur b \<Longrightarrow> cb_next b = Suc g \<Longrightarrow> in_step dur (set_controller g (stop_invites True (controller b g)) b)"
  by (auto simp: in_step_def stop_invites_def save_state_def load_state_def file_wants_def Let_def split: option.split)

lemma start_in_step:
  "in_step dur b \<Longrightarrow> cb_next b = Suc g \<Longrightarrow> min_invite_interval \<le> interval \<Longrightarrow>
   in_step dur (set_controller g (start_list dur True interval l fresh (controller b g)) b)"
  by (cases "ic_running (cb_controllers b g)")
    (auto simp: in_step_def start_list_def save_state_def file_wants_def Let_def)

lemma notes_in_step:
  assumes "in_step dur b" "broadcast_ok b" "g \<in> cb_alive b" "ctx < ic_next (cb_controllers b g)"
  shows "in_step dur (set_controller g (record_progress dur True ctx (ic_interval (cb_controllers b g))
    (ic_list (cb_controllers b g)) x (controller b g)) b)"
proof (cases "ctx \<in> ic_done (cb_controllers b g)")
  case True
  then show ?thesis using assms(1) by (simp add: in_step_def record_progress_def Let_def)
next
  case False
  have g: "cb_next b = Suc g" using assms(2,3) by (auto simp: broadcast_ok_def)
  have "ctx \<in> live_loops (cb_controllers b g)" using False assms(4) by (simp add: live_loops_def)
  then have "ic_running (cb_controllers b g)"
    using assms(2) by (auto simp: broadcast_ok_def ic_sane_def split: if_splits)
  then show ?thesis
    using assms(1) False g by (auto simp: in_step_def record_progress_def save_state_def file_wants_def Let_def)
qed

lemma resume_in_step:
  assumes "c = resume_if_wanted dur parse True (new_invite_controller f)"
  shows "(file_wants (ic_file c) \<longleftrightarrow> ic_running c) \<and>
    (ic_running c \<longrightarrow> min_invite_interval \<le> ic_interval c \<and> (ic_list c = invite_list_queue \<or> ic_list c = invite_list_accepted) \<and>
      (\<exists>st. ic_file c = Some st \<and> st_interval st = dur (ic_interval c) \<and> st_list st = ic_list c))"
proof (cases "file_wants f")
  case False
  then have "c = new_invite_controller f"
    using assms by (auto simp: resume_if_wanted_def load_state_def new_invite_controller_def file_wants_def Let_def split: option.splits)
  with False show ?thesis by (simp add: new_invite_controller_def)
next
  case True
  then obtain st where st: "f = Some st" "st_running st" by (auto simp: file_wants_def split: option.splits)
  define d where "d = (case parse_invite_interval parse (st_interval st) of Inl e \<Rightarrow> invite_rate_limit | Inr d \<Rightarrow> d)"
  have "min_invite_interval \<le> d"
    by (auto simp: d_def parse_invite_interval_def invite_rate_limit_def min_invite_interval_def second_def
        split: sum.split option.splits if_splits)
  moreover have "c = start_list dur True d (st_list st) False (new_invite_controller f)"
    using assms st by (simp add: resume_if_wanted_def load_state_def new_invite_controller_def start_invites_def d_def Let_def)
  ultimately show ?thesis
    by (auto simp: start_list_def new_invite_controller_def save_state_def file_wants_def Let_def)
qed

lemma move_keeps_step:
  "broadcast_move dur parse io s b b' \<Longrightarrow> io \<Longrightarrow> broadcast_ok b \<Longrightarrow> in_step dur b \<Longrightarrow> in_step dur b'"
proof (induction rule: broadcast_move.induct)
  case (Stays b b')
  then show ?case
    using same_controller_parts(1,2,3) [OF Stays(1)] by (simp add: in_step_def same_controllers_def Let_def)
next
  case (Renews b g b' c)
  with resume_in_step [of c dur parse "cb_file b"] show ?case by (simp add: in_step_def Let_def)
next
  case (Ends b g)
  then show ?case by (simp add: in_step_def)
next
  case (Stops b g)
  then show ?case by (simp add: stop_in_step)
next
  case (Starts b g interval l fresh)
  then show ?case by (simp add: start_in_step)
next
  case (Notes g b ctx x)
  then show ?case by (simp add: notes_in_step)
qed

lemma new_plane_ok: "slots_ok (new_plane debug files) \<and> broadcast_ok (cp_broadcasts (new_plane debug files) n) \<and>
    in_step dur (cp_broadcasts (new_plane debug files) n)"
  by (simp add: slots_ok_def new_plane_def new_control_server_def broadcast_ok_def new_broadcast_def in_step_def
      new_controller_sane)

interpretation plane: invariant_machine "plane_step dur parse" "\<lambda>p. slots_ok p \<and> (\<forall>n. broadcast_ok (cp_broadcasts p n))"
  for dur parse
  by unfold_locales (use plane_step_move move_keeps_ok in blast)

lemma plane_run_ok:
  "slots_ok (plane_run dur parse (new_plane debug files) es) \<and>
   (\<forall>n. broadcast_ok (cp_broadcasts (plane_run dur parse (new_plane debug files) es) n))"
  unfolding plane_run_def by (rule plane.run_keeps) (use new_plane_ok in blast)

lemma plane_run_snoc: "plane_run dur parse p (es @ [e]) = plane_step dur parse (plane_run dur parse p es) e"
  by (simp add: plane_run_def)

lemma plane_run_step:
  "list_all io_of es \<Longrightarrow> in_step dur (cp_broadcasts (plane_run dur parse (new_plane debug files) es) n)"
proof (induction es rule: rev_induct)
  case Nil
  then show ?case using new_plane_ok by (simp add: plane_run_def)
next
  case (snoc e es)
  let ?p = "plane_run dur parse (new_plane debug files) es"
  from snoc have "in_step dur (cp_broadcasts ?p n)" "io_of e" by simp_all
  with plane_step_move [of ?p dur parse e n] plane_run_ok move_keeps_step show ?case
    unfolding plane_run_snoc by blast
qed

section \<open>Properties\<close>

text \<open>
  C20: Whatever requests come in and however sessions follow one another, each broadcast has at most one invite loop
  that goes on.
\<close>

theorem one_loop_across_sessions:
  "finite (loops_of (cp_broadcasts (plane_run dur parse (new_plane debug files) es) n)) \<and>
   card (loops_of (cp_broadcasts (plane_run dur parse (new_plane debug files) es) n)) \<le> 1"
proof -
  let ?b = "cp_broadcasts (plane_run dur parse (new_plane debug files) es) n"
  have ok: "broadcast_ok ?b" using plane_run_ok by blast
  have one: "\<exists>g i. loops_of ?b \<subseteq> {(g, i)}"
  proof (cases "\<exists>g. g \<in> cb_alive ?b")
    case False
    then show ?thesis by (auto simp: loops_of_def)
  next
    case True
    then obtain g where g: "g \<in> cb_alive ?b" by blast
    have newest: "cb_next ?b = Suc h" if "h \<in> cb_alive ?b" for h using that ok unfolding broadcast_ok_def by blast
    have only: "h = g" if "h \<in> cb_alive ?b" for h using newest [OF that] newest [OF g] by simp
    have "ic_sane (cb_controllers ?b g)" using ok by (simp add: broadcast_ok_def)
    then obtain i where "live_loops (cb_controllers ?b g) \<subseteq> {i}" by (auto simp: ic_sane_def split: if_splits)
    with only show ?thesis by (intro exI [of _ g] exI [of _ i]) (auto simp: loops_of_def)
  qed
  then obtain g i where sub: "loops_of ?b \<subseteq> {(g, i)}" by blast
  then have "card (loops_of ?b) \<le> card {(g, i)}" by (intro card_mono) simp_all
  with finite_subset [OF sub] show ?thesis by simp
qed

lemma move_without_start:
  assumes "broadcast_move dur parse io False b b'" "broadcast_ok b" "\<not> file_wants (cb_file b)"
    and "\<And>g. cb_next b = Suc g \<Longrightarrow> \<not> ic_running (cb_controllers b g)"
  shows "\<not> file_wants (cb_file b') \<and> (\<forall>g. cb_next b' = Suc g \<longrightarrow> \<not> ic_running (cb_controllers b' g))"
  using assms
proof (cases rule: broadcast_move.cases)
  case Stays
  with assms(3,4) same_controller_parts(1) [OF Stays] show ?thesis by (simp add: same_controllers_def)
next
  case (Renews g c)
  then have "c = new_invite_controller (cb_file b)"
    using assms(3) by (auto simp: resume_if_wanted_def load_state_def new_invite_controller_def file_wants_def Let_def split: option.splits)
  with Renews assms(3) show ?thesis by (simp add: new_invite_controller_def)
next
  case (Stops g)
  then show ?thesis using assms(3,4) by (simp add: stop_invites_def)
next
  case (Notes g ctx x)
  have g: "cb_next b = Suc g" using Notes(2) assms(2) by (auto simp: broadcast_ok_def)
  then have "\<not> ic_running (cb_controllers b g)" by (rule assms(4))
  then have "live_loops (cb_controllers b g) = {}" using assms(2) by (auto simp: broadcast_ok_def ic_sane_def split: if_splits)
  then have "ctx \<in> ic_done (cb_controllers b g)" using Notes(3) by (auto simp: live_loops_def)
  then show ?thesis using Notes assms(3,4) g by (simp add: record_progress_def)
qed (use assms(3,4) in auto)


text \<open>
  C22: Invites that run on a session that ends run on the next one, in one loop, at the same interval, on the same list and after the same
  player, provided the state file can be written and durations can be read back.
\<close>

theorem invites_survive_rebuild:
  assumes "list_all io_of es" "ce_io_ok env" "\<And>d. parse (dur d) = Some d \<and> dur d \<noteq> ''''"
    and "b = cp_broadcasts (plane_run dur parse (new_plane debug files) es) n"
    and "g \<in> cb_alive b" "ic_running (cb_controllers b g)"
    and "b' = cp_broadcasts (plane_run dur parse (new_plane debug files) (es @ [SessionDown n g, SessionUp env n self])) n"
  shows "loops_of b' = {(Suc g, 0)} \<and> ic_running (controller b' (Suc g)) \<and>
    ic_interval (controller b' (Suc g)) = ic_interval (controller b g) \<and> ic_list (controller b' (Suc g)) = ic_list (controller b g) \<and>
    st_last (load_state (controller b' (Suc g))) = st_last (load_state (controller b g))"
proof -
  let ?p = "plane_run dur parse (new_plane debug files) es"
  have ok: "broadcast_ok b" using plane_run_ok unfolding assms(4) by blast
  then have g: "cb_next b = Suc g" using assms(5) unfolding broadcast_ok_def by blast
  have down: "cb_alive b - {g} = {}" using ok g by (auto simp: broadcast_ok_def)
  have step: "in_step dur b" unfolding assms(4) by (rule plane_run_step [OF assms(1)])
  let ?c = "cb_controllers b g"
  obtain st where st: "cb_file b = Some st" "st_interval st = dur (ic_interval ?c)" "st_list st = ic_list ?c" "st_running st"
    "min_invite_interval \<le> ic_interval ?c" "ic_list ?c = invite_list_queue \<or> ic_list ?c = invite_list_accepted"
    using step g assms(6) by (auto simp: in_step_def Let_def file_wants_def)
  have parsed: "parse_invite_interval parse (dur (ic_interval ?c)) = Inr (ic_interval ?c)"
    using st(5) assms(3) [of "ic_interval ?c"] by (simp add: parse_invite_interval_def)
  define c' where "c' = resume_if_wanted dur parse (ce_io_ok env) (new_invite_controller (cb_file b))"
  have c': "c' = start_list dur True (ic_interval ?c) (ic_list ?c) False (new_invite_controller (Some st))"
    using st parsed assms(2)
    by (simp add: c'_def resume_if_wanted_def load_state_def new_invite_controller_def start_invites_def Let_def)
  have run: "plane_run dur parse (new_plane debug files) (es @ [SessionDown n g, SessionUp env n self]) =
      session_up dur parse env n self (change_broadcast n (b\<lparr>cb_alive := cb_alive b - {g}\<rparr>) ?p)"
    by (simp add: plane_run_def assms(4))
  have b': "cb_alive b' = {Suc g}" "cb_controllers b' (Suc g) = c'" "cb_file b' = ic_file c'"
    unfolding assms(7) run by (simp_all add: session_up_def Let_def down g c'_def)
  have l: "(if ic_list ?c \<noteq> invite_list_accepted then invite_list_queue else ic_list ?c) = ic_list ?c" using st(6) by auto
  have new: "ic_running c'" "ic_interval c' = ic_interval ?c" "ic_list c' = ic_list ?c" "ic_next c' = 1" "ic_done c' = {}"
    "ic_file c' = Some \<lparr>st_running = True, st_interval = dur (ic_interval ?c), st_last = st_last st, st_list = ic_list ?c\<rparr>"
    using st(3) by (simp_all add: c' start_list_def l new_invite_controller_def save_state_def load_state_def resume_after_def Let_def)
  have "loops_of b' = {(Suc g, 0)}" using b' new by (auto simp: loops_of_def live_loops_def)
  moreover have "st_last (load_state (controller b' (Suc g))) = st_last (load_state (controller b g))"
    using b' new st(1) by (simp add: load_state_def)
  ultimately show ?thesis using b' new by simp
qed

text \<open>A process to evaluate with: one session of the primary broadcast, whose invites are started.\<close>

definition port_env :: control_env where
  "port_env = \<lparr>ce_io_ok = True, ce_files = [], ce_added = None, ce_friends = None\<rparr>"

definition port_request :: "string \<Rightarrow> control_request" where
  "port_request path = \<lparr>cq_path = path, cq_interval = '''', cq_restart = '''', cq_list = '''', cq_from = ''''\<rparr>"

definition port_dur :: "duration \<Rightarrow> string" where
  "port_dur d = (if d < 0 then CHR ''-'' else CHR ''+'') # replicate (nat (abs d)) CHR ''i''"

definition port_parse :: "string \<Rightarrow> duration option" where
  "port_parse s = Some (if hd s = CHR ''-'' then - int (length (tl s)) else int (length (tl s)))"

definition port_started :: "plane_event list" where
  "port_started = [SessionUp port_env ''primary'' ''7'', Request port_env (port_request ''/invites/start'')]"

lemma port_dur_parse: "port_parse (port_dur d) = Some d \<and> port_dur d \<noteq> ''''"
  by (simp add: port_parse_def port_dur_def)

lemma serve_request_server [simp]: "cp_server (fst (serve_request dur parse env q p)) = cp_server p"
  by (auto simp: serve_request_def split: control_reply.split prod.split option.split)

lemma port_up:
  "plane_step port_dur port_parse (new_plane False (\<lambda>n. None)) (SessionUp port_env ''primary'' ''7'') =
     change_broadcast ''primary''
       (set_controller 0 (new_invite_controller None) (set_friends 0 no_friends_ctl
         ((new_broadcast None)\<lparr>cb_next := 1, cb_alive := {0}, cb_adder := Some (new_adder ''7'')\<rparr>)))
       ((new_plane False (\<lambda>n. None))\<lparr>cp_server := set_invites ''primary'' (''primary'', 0) (new_control_server False)\<rparr>)"
  by (simp add: session_up_def new_plane_def new_broadcast_def resume_if_wanted_def load_state_def new_invite_controller_def Let_def)

lemma port_routed:
  "serve_http (set_invites ''primary'' (''primary'', 0) (new_control_server False)) ''/invites/stop'' =
     Routed (''primary'', 0::nat) ''/invites/stop''"
  "serve_http (set_invites ''primary'' (''primary'', 0) (new_control_server False)) ''/invites/start'' =
     Routed (''primary'', 0::nat) ''/invites/start''"
  using control_routes_newest [of "''x''" "''invites/stop''" 0 "(''primary'', 0::nat)" "new_control_server False"]
    control_routes_newest [of "''x''" "''invites/start''" 0 "(''primary'', 0::nat)" "new_control_server False"]
  by (simp_all add: has_prefix_def)

lemma port_server:
  "cp_server (plane_run port_dur port_parse (new_plane False (\<lambda>n. None)) port_started) =
     set_invites ''primary'' (''primary'', 0) (new_control_server False)"
  unfolding port_started_def plane_run_def foldl.simps port_up by simp


theorem invites_survive_rebuild_witness:
  "loops_of (cp_broadcasts (plane_run port_dur port_parse (new_plane False (\<lambda>n. None))
      (port_started @ [SessionDown ''primary'' 0, SessionUp port_env ''primary'' ''7''])) ''primary'') = {(1, 0)}"
proof -
  let ?b = "cp_broadcasts (plane_run port_dur port_parse (new_plane False (\<lambda>n. None)) port_started) ''primary''"
  have b: "0 \<in> cb_alive ?b \<and> ic_running (cb_controllers ?b 0)"
    unfolding port_started_def plane_run_def foldl.simps port_up
    by (simp add: serve_request_def port_request_def port_routed route_of_def invite_routes_def start_route_def
        parse_invite_interval_def start_invites_def start_list_def new_invite_controller_def Let_def)
  have "list_all io_of port_started" "ce_io_ok port_env" by (simp_all add: port_started_def port_env_def)
  from invites_survive_rebuild [where dur = port_dur and parse = port_parse, OF this port_dur_parse refl _ _ refl, of 0] b
  show ?thesis by simp
qed

end
