(* ===== verification/Sdp.thy ===== *)
theory Sdp
  imports Go_Strings
begin

text \<open>
  The text processing of session descriptions in \<open>bridge/norelay.go\<close> and
  \<open>bridge/norelay_identity.go\<close>: which candidates are relayed, removing and inserting
  candidate lines, reading attributes, and the payload a client's identity signs.
\<close>

section \<open>Lines with their terminators\<close>

text \<open>The loops over \<open>rest\<close> and \<open>offset\<close> cut after each newline and keep it.\<close>

fun keep_lines :: "string \<Rightarrow> string list" where
  "keep_lines [] = []"
| "keep_lines (c # s) =
     (if c = newline then [c] # keep_lines s
      else (case keep_lines s of [] \<Rightarrow> [[c]] | w # ws \<Rightarrow> (c # w) # ws))"

lemma concat_keep_lines [simp]: "concat (keep_lines s) = s"
  by (induction s) (auto split: list.splits)

lemma keep_lines_Nil_iff [simp]: "keep_lines s = [] \<longleftrightarrow> s = []"
  by (cases s) (auto split: list.splits)

text \<open>A list of lines that a text splits into: only the last may lack its newline.\<close>

fun proper_lines :: "string list \<Rightarrow> bool" where
  "proper_lines [] = True"
| "proper_lines [l] = (l \<noteq> [] \<and> newline \<notin> set (butlast l))"
| "proper_lines (l # ls) =
     (l \<noteq> [] \<and> last l = newline \<and> newline \<notin> set (butlast l) \<and> proper_lines ls)"

lemma proper_lines_Cons:
  "proper_lines (l # ls) \<longleftrightarrow>
   l \<noteq> [] \<and> newline \<notin> set (butlast l) \<and> (ls = [] \<or> last l = newline) \<and> proper_lines ls"
  by (cases ls) auto

lemma keep_lines_proper: "proper_lines (keep_lines s)"
proof (induction s)
  case Nil
  then show ?case by simp
next
  case (Cons c s)
  then show ?case
    by (auto simp: proper_lines_Cons split: list.splits)
qed

lemma keep_lines_line:
  "newline \<notin> set w \<Longrightarrow> keep_lines (w @ newline # s) = (w @ [newline]) # keep_lines s"
  by (induction w) auto

lemma keep_lines_last: "newline \<notin> set w \<Longrightarrow> w \<noteq> [] \<Longrightarrow> keep_lines w = [w]"
proof (induction w)
  case Nil
  then show ?case by simp
next
  case (Cons c w)
  then show ?case by (cases w) auto
qed

lemma keep_lines_concat: "proper_lines ls \<Longrightarrow> keep_lines (concat ls) = ls"
proof (induction ls)
  case Nil
  then show ?case by simp
next
  case (Cons l ls)
  obtain w c where l: "l = w @ [c]" using Cons.prems by (cases l rule: rev_cases) (auto simp: proper_lines_Cons)
  have w: "newline \<notin> set w" using Cons.prems l by (simp add: proper_lines_Cons)
  show ?case
  proof (cases "c = newline")
    case True
    then show ?thesis using Cons l w by (simp add: proper_lines_Cons keep_lines_line)
  next
    case False
    then have "ls = []" using Cons.prems l by (auto simp: proper_lines_Cons)
    then show ?thesis using l w False keep_lines_last [of l] by simp
  qed
qed

lemma proper_lines_filter: "proper_lines ls \<Longrightarrow> proper_lines (filter P ls)"
proof (induction ls)
  case Nil
  then show ?case by simp
next
  case (Cons l ls)
  then show ?case by (cases "filter P ls") (auto simp: proper_lines_Cons)
qed

section \<open>Relay candidates\<close>

fun typ_is_relay :: "string list \<Rightarrow> bool" where
  "typ_is_relay (a # b # fs) = (if a = ''typ'' then b = ''relay'' else typ_is_relay (b # fs))"
| "typ_is_relay _ = False"

definition is_relay_candidate :: "string \<Rightarrow> bool" where
  "is_relay_candidate candidate = typ_is_relay (fields candidate)"

definition relay_line :: "string \<Rightarrow> bool" where
  "relay_line line =
     (case cut_prefix (trim_right_set [carriage_return, newline] line) ''a=candidate:'' of
        None \<Rightarrow> False
      | Some value \<Rightarrow> is_relay_candidate value)"

definition strip_relay_candidates :: "string \<Rightarrow> string \<times> nat" where
  "strip_relay_candidates sdp =
     (if \<not> contains sdp ''relay'' then (sdp, 0)
      else (concat (filter (\<lambda>l. \<not> relay_line l) (keep_lines sdp)),
            length (filter relay_line (keep_lines sdp))))"

lemma fields_aux_contains:
  "v \<in> set (fields_aux s w) \<Longrightarrow> contains (rev w @ s) v"
proof (induction s w rule: fields_aux.induct)
  case (1 w)
  then show ?case by (auto split: if_splits)
next
  case (2 c s w)
  let ?n = "space_len space_encodings (c # s)"
  show ?case
  proof (cases "?n = 0")
    case True
    then show ?thesis using 2 by simp
  next
    case False
    then consider "v = rev w" | "v \<in> set (fields_aux (drop ?n (c # s)) [])"
      using "2.prems" by (auto split: if_splits)
    then show ?thesis
    proof cases
      case 1
      then show ?thesis by (auto simp: contains_iff intro: exI [of _ "[]"])
    next
      case 2
      then have "contains (drop ?n (c # s)) v"
        using "2.IH"(2) False by simp
      then obtain a b where "drop ?n (c # s) = a @ v @ b" by (auto simp: contains_iff)
      then have "rev w @ c # s = (rev w @ take ?n (c # s) @ a) @ v @ b"
        by (metis append.assoc append_take_drop_id)
      then show ?thesis unfolding contains_iff by blast
    qed
  qed
qed

lemma fields_contains: "v \<in> set (fields s) \<Longrightarrow> contains s v"
  using fields_aux_contains [of v s "[]"] by (simp add: fields_def)

lemma typ_is_relay_mem: "typ_is_relay fs \<Longrightarrow> ''relay'' \<in> set fs"
  by (induction fs rule: typ_is_relay.induct) (auto split: if_splits)

lemma contains_append: "contains t p \<Longrightarrow> contains (s @ t @ u) p"
  by (auto simp: contains_iff) (metis append.assoc)

lemma trim_right_set_prefix: "\<exists>t. s = trim_right_set cs s @ t"
proof -
  have "rev s = takeWhile (\<lambda>c. c \<in> set cs) (rev s) @ dropWhile (\<lambda>c. c \<in> set cs) (rev s)"
    by simp
  then have "s = rev (dropWhile (\<lambda>c. c \<in> set cs) (rev s)) @ rev (takeWhile (\<lambda>c. c \<in> set cs) (rev s))"
    by (metis rev_append rev_rev_ident)
  then show ?thesis unfolding trim_right_set_def by blast
qed

lemma relay_line_contains: "relay_line l \<Longrightarrow> contains l ''relay''"
proof -
  assume r: "relay_line l"
  then obtain v where v: "trim_right_set [carriage_return, newline] l = ''a=candidate:'' @ v"
    "is_relay_candidate v"
    by (auto simp: relay_line_def cut_prefix_Some split: option.splits)
  obtain t where "l = ''a=candidate:'' @ v @ t"
    using trim_right_set_prefix [of l "[carriage_return, newline]"] v(1) by auto
  moreover have "contains v ''relay''"
    using v(2) by (auto simp: is_relay_candidate_def dest: typ_is_relay_mem fields_contains)
  ultimately show "contains l ''relay''"
    using contains_append by blast
qed

lemma no_relay_line: "\<not> contains s ''relay'' \<Longrightarrow> l \<in> set (keep_lines s) \<Longrightarrow> \<not> relay_line l"
proof
  assume n: "\<not> contains s ''relay''" and l: "l \<in> set (keep_lines s)" and r: "relay_line l"
  from l obtain xs ys where "keep_lines s = xs @ l # ys" by (auto simp: in_set_conv_decomp)
  then have "s = concat xs @ l @ concat ys"
    by (metis concat.simps(2) concat_append concat_keep_lines)
  with contains_append [OF relay_line_contains [OF r]] n show False by simp
qed

text \<open>Both branches of the function are the filter: the early exit has nothing to remove.\<close>

lemma strip_relay_lines:
  "keep_lines (fst (strip_relay_candidates sdp)) = filter (\<lambda>l. \<not> relay_line l) (keep_lines sdp)"
  "snd (strip_relay_candidates sdp) = length (filter relay_line (keep_lines sdp))"
  using no_relay_line [of sdp]
  by (auto simp: strip_relay_candidates_def filter_empty_conv filter_id_conv
      intro!: keep_lines_concat proper_lines_filter keep_lines_proper)

section \<open>Trickled candidates\<close>

definition has_inline_candidate :: "string \<Rightarrow> bool" where
  "has_inline_candidate sdp \<longleftrightarrow>
     has_prefix sdp ''a=candidate:'' \<or> contains sdp (newline # ''a=candidate:'')"

definition candidate_attribute :: "string \<Rightarrow> string" where
  "candidate_attribute candidate =
     (let c = trim_prefix (trim_space candidate) ''a=''
      in if c = [] then []
         else if has_prefix c ''candidate:'' then ''a='' @ c
         else ''a=candidate:'' @ c)"

fun media_offset_loop :: "string list \<Rightarrow> bool \<Rightarrow> nat \<Rightarrow> nat option" where
  "media_offset_loop [] in_media offset = None"
| "media_offset_loop (line # ls) in_media offset =
     (if has_prefix line ''m='' then media_offset_loop ls True (offset + length line)
      else if in_media \<and> has_prefix line ''a='' then Some offset
      else media_offset_loop ls in_media (offset + length line))"

definition media_attribute_offset :: "string \<Rightarrow> nat option" where
  "media_attribute_offset sdp = media_offset_loop (keep_lines sdp) False 0"

definition candidate_lines :: "string list \<Rightarrow> string list" where
  "candidate_lines candidates = filter (\<lambda>l. l \<noteq> []) (map candidate_attribute candidates)"

definition eol_of :: "string \<Rightarrow> string" where
  "eol_of sdp = (if contains sdp [carriage_return, newline] then [carriage_return, newline] else [newline])"

definition inline_candidates :: "string \<Rightarrow> string list \<Rightarrow> string" where
  "inline_candidates sdp candidates =
     (let ls = candidate_lines candidates
      in if ls = [] then sdp
         else (let eol = eol_of sdp;
                   ins = join eol ls @ eol
               in (case media_attribute_offset sdp of
                     Some at \<Rightarrow> take at sdp @ ins @ drop at sdp
                   | None \<Rightarrow>
                       (if sdp \<noteq> [] \<and> \<not> has_suffix sdp [newline] then sdp @ eol else sdp) @ ins)))"

definition answer_candidates :: "string \<Rightarrow> string list" where
  "answer_candidates sdp =
     concat (map (\<lambda>line. case cut_prefix (trim_right_set [carriage_return] line) ''a=candidate:'' of
                           Some value \<Rightarrow> [''candidate:'' @ value]
                         | None \<Rightarrow> [])
       (split_byte newline sdp))"

section \<open>Attributes\<close>

fun attribute_loop :: "string \<Rightarrow> bool \<Rightarrow> string list \<Rightarrow> bool \<Rightarrow> string option \<Rightarrow> string option" where
  "attribute_loop pre prefer_media [] in_media session = session"
| "attribute_loop pre prefer_media (line # ls) in_media session =
     (if has_prefix line ''m='' then attribute_loop pre prefer_media ls True session
      else (case cut_prefix line pre of
              None \<Rightarrow> attribute_loop pre prefer_media ls in_media session
            | Some value \<Rightarrow>
                (if \<not> prefer_media \<or> in_media then Some value
                 else attribute_loop pre prefer_media ls in_media
                        (if session = None then Some value else session))))"

definition text_lines :: "string \<Rightarrow> string list" where
  "text_lines sdp = map (trim_right_set [carriage_return]) (split_byte newline sdp)"

definition sdp_attribute :: "string \<Rightarrow> string \<Rightarrow> bool \<Rightarrow> string option" where
  "sdp_attribute sdp key prefer_media =
     attribute_loop (''a='' @ key @ '':'') prefer_media (text_lines sdp) False None"

datatype fingerprint_error = NoFingerprint | InvalidFingerprint string

text \<open>
  The JSON of \<open>fingerprintPayload\<close>. \<open>quote\<close> is \<open>strconv.Quote\<close>, whose treatment of
  non-ASCII text rests on Go's tables of printable characters.
\<close>

definition fingerprint_payload :: "(string \<Rightarrow> string) \<Rightarrow> string \<Rightarrow> fingerprint_error + string" where
  "fingerprint_payload quote sdp =
     (case sdp_attribute sdp ''fingerprint'' True of
        None \<Rightarrow> Inl NoFingerprint
      | Some value \<Rightarrow>
          (let (algorithm, digest, ok) = cut_byte CHR '' '' value
           in if \<not> ok \<or> CHR '' '' \<in> set digest then Inl (InvalidFingerprint value)
              else Inr (''{\"fingerprint\":[{\"algorithm\":'' @ quote algorithm @
                        '',\"digest\":'' @ quote digest @ ''}]}'')))"

section \<open>What stripping and inserting leave alone\<close>

text \<open>
  A line matters to \<open>sdpAttribute\<close> when it opens a media section or carries the attribute.
\<close>

definition matters :: "string \<Rightarrow> string \<Rightarrow> bool" where
  "matters pre line \<longleftrightarrow> prefix ''m='' line \<or> prefix pre line"

lemma attribute_loop_filter:
  "attribute_loop pre pm ls b s = attribute_loop pre pm (filter (matters pre) ls) b s"
  by (induction pre pm ls b s rule: attribute_loop.induct)
    (auto simp: matters_def has_prefix_def cut_prefix_def split: option.splits)

lemma trim_right_cr_nl:
  "trim_right_set [carriage_return, newline] (w @ [newline]) = trim_right_set [carriage_return, newline] w"
  by (simp add: trim_right_set_def)

lemma trim_right_set_cong:
  assumes "newline \<notin> set w"
  shows "trim_right_set [carriage_return, newline] w = trim_right_set [carriage_return] w"
proof -
  have "dropWhile (\<lambda>c. c \<in> set [carriage_return, newline]) v = dropWhile (\<lambda>c. c \<in> set [carriage_return]) v"
    if "newline \<notin> set v" for v
    using that by (induction v) auto
  from this [of "rev w"] assms show ?thesis by (simp add: trim_right_set_def)
qed

lemma text_lines_keep_lines:
  "filter (\<lambda>l. l \<noteq> []) (text_lines s) =
   filter (\<lambda>l. l \<noteq> []) (map (trim_right_set [carriage_return, newline]) (keep_lines s))"
proof (induction "keep_lines s" arbitrary: s)
  case Nil
  then have "s = []" by (metis keep_lines_Nil_iff)
  then show ?case by (simp add: text_lines_def trim_right_set_def)
next
  case (Cons l ls)
  have pl: "proper_lines (l # ls)" using Cons.hyps(2) keep_lines_proper [of s] by simp
  have s: "s = l @ concat ls" by (metis Cons.hyps(2) concat.simps(2) concat_keep_lines)
  obtain w c where l: "l = w @ [c]" using pl by (cases l rule: rev_cases) (auto simp: proper_lines_Cons)
  have w: "newline \<notin> set w" using pl l by (simp add: proper_lines_Cons)
  show ?case
  proof (cases "c = newline")
    case True
    have "keep_lines (concat ls) = ls" using pl by (simp add: proper_lines_Cons keep_lines_concat)
    then have "filter (\<lambda>l. l \<noteq> []) (text_lines (concat ls)) =
        filter (\<lambda>l. l \<noteq> []) (map (trim_right_set [carriage_return, newline]) ls)"
      using Cons.hyps(1) [of "concat ls"] by simp
    moreover have "text_lines s = trim_right_set [carriage_return] w # text_lines (concat ls)"
      using s l True w by (simp add: text_lines_def)
    ultimately show ?thesis
      using l True w by (simp add: Cons.hyps(2) [symmetric] trim_right_cr_nl trim_right_set_cong)
  next
    case False
    then have "ls = []" using pl l by (auto simp: proper_lines_Cons)
    with False w l s have "text_lines s = [trim_right_set [carriage_return] s]" "newline \<notin> set s"
      by (auto simp: text_lines_def)
    moreover have "keep_lines s = [s]" using Cons.hyps(2) \<open>ls = []\<close> s by simp
    ultimately show ?thesis by (simp add: trim_right_set_cong)
  qed
qed

lemma matters_nonempty: "pre \<noteq> [] \<Longrightarrow> matters pre l \<Longrightarrow> l \<noteq> []"
  by (auto simp: matters_def)

text \<open>The lines that matter, in order, determine the attribute.\<close>

definition key_lines :: "string \<Rightarrow> string \<Rightarrow> string list" where
  "key_lines pre s =
     filter (matters pre) (map (trim_right_set [carriage_return, newline]) (keep_lines s))"

lemma key_lines_text:
  assumes "pre \<noteq> []"
  shows "key_lines pre s = filter (matters pre) (text_lines s)"
proof -
  have "filter (matters pre) ls = filter (matters pre) (filter (\<lambda>l. l \<noteq> []) ls)" for ls
    using matters_nonempty [OF assms] by (induction ls) auto
  then show ?thesis unfolding key_lines_def by (metis text_lines_keep_lines)
qed

lemma sdp_attribute_key_lines:
  "sdp_attribute s key pm = attribute_loop (''a='' @ key @ '':'') pm (key_lines (''a='' @ key @ '':'') s) False None"
  unfolding sdp_attribute_def by (subst attribute_loop_filter) (simp add: key_lines_text)

definition other_key :: "string \<Rightarrow> bool" where
  "other_key key \<longleftrightarrow> \<not> prefix (key @ '':'') ''candidate:'' \<and> \<not> prefix ''candidate:'' (key @ '':'')"

lemma candidate_line_irrelevant:
  assumes "other_key key" "prefix ''a=candidate:'' l"
  shows "\<not> matters (''a='' @ key @ '':'') l"
proof
  assume "matters (''a='' @ key @ '':'') l"
  then have "prefix (''a='' @ key @ '':'') l"
    using assms(2) by (auto simp: matters_def prefix_def)
  then have "prefix (''a='' @ key @ '':'') ''a=candidate:'' \<or> prefix ''a=candidate:'' (''a='' @ key @ '':'')"
    using assms(2) prefix_same_cases by blast
  then show False using assms(1) by (simp add: other_key_def)
qed

lemma filter_irrelevant:
  "(\<And>l. l \<in> set ls \<Longrightarrow> \<not> P l \<Longrightarrow> \<not> Q (f l)) \<Longrightarrow> filter Q (map f (filter P ls)) = filter Q (map f ls)"
  by (induction ls) auto

lemma strip_keeps_attribute:
  assumes "other_key key"
  shows "sdp_attribute (fst (strip_relay_candidates sdp)) key pm = sdp_attribute sdp key pm"
proof -
  have "\<not> matters (''a='' @ key @ '':'') (trim_right_set [carriage_return, newline] l)" if "relay_line l" for l
    using that assms
    by (intro candidate_line_irrelevant) (auto simp: relay_line_def cut_prefix_def split: if_splits)
  then show ?thesis
    unfolding sdp_attribute_key_lines key_lines_def strip_relay_lines
    by (subst filter_irrelevant) auto
qed

definition terminated :: "string \<Rightarrow> bool" where
  "terminated l \<longleftrightarrow> (\<exists>w. l = w @ [newline] \<and> newline \<notin> set w)"

lemma proper_lines_append:
  "(\<And>l. l \<in> set xs \<Longrightarrow> terminated l) \<Longrightarrow> proper_lines ys \<Longrightarrow> proper_lines (xs @ ys)"
proof (induction xs)
  case Nil
  then show ?case by simp
next
  case (Cons x xs)
  have "terminated x" using Cons.prems(1) by simp
  then obtain w where "x = w @ [newline]" "newline \<notin> set w" by (auto simp: terminated_def)
  moreover have "proper_lines (xs @ ys)" using Cons by simp
  ultimately show ?case by (simp add: proper_lines_Cons)
qed

lemma proper_lines_terminated:
  "proper_lines (xs @ ys) \<Longrightarrow> ys \<noteq> [] \<Longrightarrow> l \<in> set xs \<Longrightarrow> terminated l"
proof (induction xs)
  case Nil
  then show ?case by simp
next
  case (Cons x xs)
  have "terminated x"
    using Cons.prems(1,2)
    by (auto simp: proper_lines_Cons terminated_def intro!: exI [of _ "butlast x"])
      (metis append_butlast_last_id)
  with Cons show ?case by (auto simp: proper_lines_Cons)
qed

lemma proper_lines_split: "proper_lines (xs @ ys) \<Longrightarrow> proper_lines ys"
  by (induction xs) (auto simp: proper_lines_Cons)

lemma proper_all_terminated:
  "proper_lines ls \<Longrightarrow> last (last ls) = newline \<Longrightarrow> l \<in> set ls \<Longrightarrow> terminated l"
proof (induction ls)
  case Nil
  then show ?case by simp
next
  case (Cons k ls)
  have "k \<noteq> []" "newline \<notin> set (butlast k)" "last k = newline"
    using Cons.prems(1,2) by (auto simp: proper_lines_Cons)
  then have "terminated k"
    unfolding terminated_def by (metis append_butlast_last_id)
  moreover have "terminated l" if "l \<in> set ls"
    using Cons that by (auto simp: proper_lines_Cons split: if_splits)
  ultimately show ?case using Cons.prems(3) by auto
qed

lemma keep_lines_last_char:
  assumes "s \<noteq> []"
  shows "last (last (keep_lines s)) = last s"
proof -
  have "keep_lines s = butlast (keep_lines s) @ [last (keep_lines s)]"
    using assms by simp
  then have "s = concat (butlast (keep_lines s)) @ last (keep_lines s)"
    by (metis concat.simps concat_append concat_keep_lines append_Nil2)
  moreover have "last (keep_lines s) \<noteq> []"
    using keep_lines_proper [of s] assms proper_lines_split [of "butlast (keep_lines s)" "[last (keep_lines s)]"]
    by simp
  ultimately show ?thesis by (metis last_appendR)
qed

lemma keep_lines_terminated:
  "s = [] \<or> last s = newline \<Longrightarrow> l \<in> set (keep_lines s) \<Longrightarrow> terminated l"
  using proper_all_terminated [OF keep_lines_proper, of s l] keep_lines_last_char [of s]
  by (cases "s = []") simp_all

lemma media_offset_loop_Some:
  "media_offset_loop ls m off = Some at \<Longrightarrow>
   \<exists>xs l ys. ls = xs @ l # ys \<and> at = off + length (concat xs) \<and> prefix ''a='' l \<and>
     (m \<or> (\<exists>k \<in> set xs. prefix ''m='' k))"
proof (induction ls m off rule: media_offset_loop.induct)
  case (1 m off)
  then show ?case by simp
next
  case (2 line ls m off)
  consider (media) "has_prefix line ''m=''"
    | (hit) "\<not> has_prefix line ''m=''" "m \<and> has_prefix line ''a=''"
    | (skip) "\<not> has_prefix line ''m=''" "\<not> (m \<and> has_prefix line ''a='')" by blast
  then show ?case
  proof cases
    case media
    with 2 obtain xs l ys where "ls = xs @ l # ys" "at = off + length line + length (concat xs)" "prefix ''a='' l"
      by auto
    with media show ?thesis
      by (intro exI [of _ "line # xs"] exI [of _ l] exI [of _ ys]) (auto simp: has_prefix_def)
  next
    case hit
    with "2.prems" show ?thesis
      by (intro exI [of _ "[]"] exI [of _ line] exI [of _ ls]) (auto simp: has_prefix_def)
  next
    case skip
    then have "media_offset_loop ls m (off + length line) = Some at"
      using "2.prems" by (simp split: if_splits)
    with 2 skip obtain xs l ys where "ls = xs @ l # ys" "at = off + length line + length (concat xs)"
      "prefix ''a='' l" "m \<or> (\<exists>k \<in> set xs. prefix ''m='' k)"
      by blast
    then show ?thesis
      by (intro exI [of _ "line # xs"] exI [of _ l] exI [of _ ys]) auto
  qed
qed

text \<open>The offset is the start of a line of the description, an attribute inside a media section.\<close>

lemma media_attribute_offset_split:
  assumes "media_attribute_offset sdp = Some at"
  obtains xs l ys where "keep_lines sdp = xs @ l # ys" "take at sdp = concat xs"
    "drop at sdp = concat (l # ys)" "prefix ''a='' l" "\<exists>k \<in> set xs. prefix ''m='' k"
proof -
  obtain xs l ys where k: "keep_lines sdp = xs @ l # ys" "at = length (concat xs)"
    "prefix ''a='' l" "\<exists>k \<in> set xs. prefix ''m='' k"
    using media_offset_loop_Some [of "keep_lines sdp" False 0 at] assms
    by (auto simp: media_attribute_offset_def)
  have "sdp = concat xs @ concat (l # ys)"
    by (metis k(1) concat_append concat_keep_lines)
  then have "take at sdp = concat xs" "drop at sdp = concat (l # ys)"
    using k(2) by (metis append_eq_conv_conj)+
  with k that show ?thesis by blast
qed

lemma join_eol: "ls \<noteq> [] \<Longrightarrow> join eol ls @ eol = concat (map (\<lambda>l. l @ eol) ls)"
  by (induction eol ls rule: join.induct) auto

definition clean_candidates :: "string list \<Rightarrow> bool" where
  "clean_candidates cs \<longleftrightarrow> list_all (\<lambda>c. newline \<notin> set c) cs"

lemma strip_subset: "set (strip encs s) \<subseteq> set s"
  by (meson set_mono_suffix strip_suffix)

lemma trim_space_subset: "set (trim_space s) \<subseteq> set s"
  using strip_subset [of space_encodings s] strip_subset [of "map rev space_encodings" "rev (strip space_encodings s)"]
  by (auto simp: trim_space_def trim_left_space_def trim_right_space_def)

lemma candidate_attribute_shape:
  "candidate_attribute c \<noteq> [] \<Longrightarrow> prefix ''a=candidate:'' (candidate_attribute c)"
  by (auto simp: candidate_attribute_def Let_def has_prefix_def split: if_splits)

lemma candidate_attribute_clean:
  "newline \<notin> set c \<Longrightarrow> newline \<notin> set (candidate_attribute c)"
  using trim_space_subset [of c]
  by (auto simp: candidate_attribute_def Let_def trim_prefix_def newline_def split: if_splits
      dest: in_set_dropD)

lemma candidate_lines_props:
  assumes "clean_candidates cs" "l \<in> set (candidate_lines cs)"
  shows "prefix ''a=candidate:'' l" "newline \<notin> set l"
  using assms candidate_attribute_shape candidate_attribute_clean
  by (auto simp: candidate_lines_def clean_candidates_def list_all_iff)

lemma eol_cases: "eol_of s = [newline] \<or> eol_of s = [carriage_return, newline]"
  by (simp add: eol_of_def)

lemma eol_line:
  assumes "newline \<notin> set l"
  shows "terminated (l @ eol_of s)"
    and "trim_right_set [carriage_return, newline] (l @ eol_of s) = trim_right_set [carriage_return, newline] l"
  using eol_cases [of s] assms
  by (auto simp: terminated_def trim_right_set_def newline_def carriage_return_def)

text \<open>The description after insertion, line by line.\<close>

definition inserted :: "string \<Rightarrow> string list \<Rightarrow> string list" where
  "inserted sdp cs = map (\<lambda>l. l @ eol_of sdp) (candidate_lines cs)"

lemma inserted_terminated: "clean_candidates cs \<Longrightarrow> l \<in> set (inserted sdp cs) \<Longrightarrow> terminated l"
  by (auto simp: inserted_def intro: eol_line dest: candidate_lines_props)

lemma trim_prefix_stays:
  assumes "prefix ''a=candidate:'' l"
  shows "prefix ''a=candidate:'' (trim_right_set [carriage_return, newline] l)"
proof -
  obtain r where l: "l = ''a=candidate:'' @ r" using assms by (auto simp: prefix_def)
  have "dropWhile (\<lambda>c. c \<in> set [carriage_return, newline]) (rev r @ rev ''a=candidate:'') =
      dropWhile (\<lambda>c. c \<in> set [carriage_return, newline]) (rev r) @ rev ''a=candidate:''"
    by (cases "\<forall>c \<in> set (rev r). c \<in> set [carriage_return, newline]")
      (auto simp: dropWhile_append carriage_return_def newline_def)
  then show ?thesis unfolding l trim_right_set_def by simp
qed

lemma inserted_irrelevant:
  assumes "other_key key" "clean_candidates cs" "l \<in> set (inserted sdp cs)"
  shows "\<not> matters (''a='' @ key @ '':'') (trim_right_set [carriage_return, newline] l)"
proof -
  obtain c where c: "c \<in> set (candidate_lines cs)" "l = c @ eol_of sdp"
    using assms(3) by (auto simp: inserted_def)
  have "prefix ''a=candidate:'' (trim_right_set [carriage_return, newline] l)"
    using candidate_lines_props [OF assms(2) c(1)] eol_line(2) trim_prefix_stays by (simp add: c(2))
  then show ?thesis using assms(1) by (rule candidate_line_irrelevant [rotated])
qed

lemma inline_lines:
  assumes "clean_candidates cs" "candidate_lines cs \<noteq> []"
  obtains (media) xs l ys where "keep_lines sdp = xs @ l # ys" "prefix ''a='' l"
    "\<exists>k \<in> set xs. prefix ''m='' k"
    "keep_lines (inline_candidates sdp cs) = xs @ inserted sdp cs @ l # ys"
  | (ends) "media_attribute_offset sdp = None"
    "keep_lines (inline_candidates sdp cs) =
      keep_lines (if sdp \<noteq> [] \<and> \<not> has_suffix sdp [newline] then sdp @ eol_of sdp else sdp) @ inserted sdp cs"
proof (cases "media_attribute_offset sdp")
  case (Some at)
  then obtain xs l ys where k: "keep_lines sdp = xs @ l # ys" "take at sdp = concat xs"
    "drop at sdp = concat (l # ys)" "prefix ''a='' l" "\<exists>k \<in> set xs. prefix ''m='' k"
    by (rule media_attribute_offset_split)
  have "inline_candidates sdp cs = concat (xs @ inserted sdp cs @ l # ys)"
    using Some assms(2) k(2,3) by (simp add: inline_candidates_def join_eol inserted_def flip: append_assoc)
  moreover have "proper_lines (xs @ inserted sdp cs @ l # ys)"
    using keep_lines_proper [of sdp] k(1) inserted_terminated [OF assms(1)]
    by (intro proper_lines_append) (auto dest: proper_lines_terminated proper_lines_split)
  ultimately show ?thesis using k media keep_lines_concat by metis
next
  case None
  let ?s = "if sdp \<noteq> [] \<and> \<not> has_suffix sdp [newline] then sdp @ eol_of sdp else sdp"
  have "inline_candidates sdp cs = ?s @ concat (inserted sdp cs)"
    using None assms(2) by (simp add: inline_candidates_def join_eol inserted_def Let_def)
  then have eq: "inline_candidates sdp cs = concat (keep_lines ?s @ inserted sdp cs)"
    by simp
  have "?s = [] \<or> last ?s = newline"
    using eol_cases [of sdp] by (auto simp: has_suffix_def suffix_def)
  then have t: "terminated l" if "l \<in> set (keep_lines ?s)" for l
    using that by (rule keep_lines_terminated)
  have "proper_lines (inserted sdp cs @ [])"
    by (rule proper_lines_append) (use inserted_terminated [OF assms(1)] in simp_all)
  then have "proper_lines (keep_lines ?s @ inserted sdp cs)"
    by (intro proper_lines_append t) simp_all
  then show ?thesis using ends None eq keep_lines_concat by metis
qed

lemma key_lines_append_eol:
  assumes "s \<noteq> []" "\<not> has_suffix s [newline]"
  shows "key_lines pre (s @ eol_of t) = key_lines pre s"
proof -
  obtain xs w where k: "keep_lines s = xs @ [w]"
    using assms(1) by (cases "keep_lines s" rule: rev_cases) auto
  have pw: "w \<noteq> []" "newline \<notin> set (butlast w)"
    using keep_lines_proper [of s] k proper_lines_split [of xs "[w]"] by simp_all
  have "last w = last s" using keep_lines_last_char [OF assms(1)] k by simp
  then have "last w \<noteq> newline"
    using assms by (auto simp: has_suffix_def suffix_def) (metis append_butlast_last_id)
  with pw have nw: "newline \<notin> set w" by (metis append_butlast_last_id in_set_conv_decomp_last last_snoc
      list.set_intros(1) set_ConsD set_append Un_iff empty_iff list.set(1))
  have xs: "terminated l" if "l \<in> set xs" for l
    using keep_lines_proper [of s] k that by (intro proper_lines_terminated [of xs "[w]"]) simp_all
  have s: "s = concat xs @ w" using k by (metis concat.simps concat_append concat_keep_lines append_Nil2)
  have "proper_lines (xs @ [w @ eol_of t])"
    using eol_line(1) [OF nw, of t] xs by (intro proper_lines_append) (auto simp: terminated_def)
  then have "keep_lines (s @ eol_of t) = xs @ [w @ eol_of t]"
    using keep_lines_concat s by fastforce
  then show ?thesis using eol_line(2) [OF nw, of t] by (simp add: key_lines_def k)
qed

lemma inline_keeps_attribute:
  assumes "other_key key" "clean_candidates cs"
  shows "sdp_attribute (inline_candidates sdp cs) key pm = sdp_attribute sdp key pm"
proof (cases "candidate_lines cs = []")
  case True
  then show ?thesis by (simp add: inline_candidates_def)
next
  case False
  let ?p = "''a='' @ key @ '':''"
  have none: "filter (matters ?p) (map (trim_right_set [carriage_return, newline]) (inserted sdp cs)) = []"
    using inserted_irrelevant [OF assms] by (auto simp: filter_empty_conv)
  have "key_lines ?p (inline_candidates sdp cs) = key_lines ?p sdp"
    using assms(2) False
  proof (cases rule: inline_lines [where sdp = sdp])
    case (media xs l ys)
    with none show ?thesis by (simp add: key_lines_def)
  next
    case ends
    have "key_lines ?p (if sdp \<noteq> [] \<and> \<not> has_suffix sdp [newline] then sdp @ eol_of sdp else sdp) = key_lines ?p sdp"
      using key_lines_append_eol [of sdp ?p sdp] by simp
    with ends none show ?thesis by (simp only: key_lines_def map_append filter_append append_Nil2)
  qed
  then show ?thesis by (simp only: sdp_attribute_key_lines)
qed

lemma fingerprint_other_key: "other_key ''fingerprint''" and identity_other_key: "other_key ''identity''"
  by (simp_all add: other_key_def)

text \<open>Every usable candidate is in the forwarded description, as an attribute of a media section.\<close>

lemma inline_has_candidate:
  assumes "clean_candidates cs" "c \<in> set cs" "candidate_attribute c \<noteq> []"
  shows "candidate_attribute c @ eol_of sdp \<in> set (keep_lines (inline_candidates sdp cs))"
proof -
  have mem: "candidate_attribute c \<in> set (candidate_lines cs)"
    using assms(2,3) by (auto simp: candidate_lines_def)
  then have "candidate_lines cs \<noteq> []" by auto
  with assms(1) show ?thesis
  proof (cases rule: inline_lines [where sdp = sdp])
    case (media xs l ys)
    with mem show ?thesis by (auto simp: inserted_def)
  next
    case ends
    have "candidate_attribute c @ eol_of sdp \<in> set (inserted sdp cs)"
      using mem by (auto simp: inserted_def)
    then show ?thesis unfolding ends(2) by simp
  qed
qed

section \<open>Properties\<close>

text \<open>
  \<open>stripRelayCandidates\<close>, with its early exit and its running builder, removes exactly the
  relay candidate lines, keeps every other line with its line ending, in order, and counts what
  it removed.
\<close>

theorem strip_removes_relay_lines:
  "keep_lines (fst (strip_relay_candidates sdp)) = filter (\<lambda>l. \<not> relay_line l) (keep_lines sdp) \<and>
   snd (strip_relay_candidates sdp) = length (filter relay_line (keep_lines sdp)) \<and>
   fst (strip_relay_candidates (fst (strip_relay_candidates sdp))) = fst (strip_relay_candidates sdp)"
proof -
  have "keep_lines (fst (strip_relay_candidates (fst (strip_relay_candidates sdp)))) =
      keep_lines (fst (strip_relay_candidates sdp))"
    by (simp add: strip_relay_lines)
  then have "fst (strip_relay_candidates (fst (strip_relay_candidates sdp))) = fst (strip_relay_candidates sdp)"
    by (metis concat_keep_lines)
  then show ?thesis by (simp add: strip_relay_lines)
qed

text \<open>
  \<open>inlineCandidates\<close> loses nothing: the result is the description with the attribute lines
  of the candidates that are not empty, in order, inserted as one block of whole lines. The block
  stands before the first attribute of a media section or, when there is none, at the end, where
  a last line without a line ending gets one.
\<close>

theorem inline_inserts_block:
  assumes "clean_candidates cs"
  shows "\<exists>xs ys. keep_lines (inline_candidates sdp cs) = xs @ map (\<lambda>l. l @ eol_of sdp) (candidate_lines cs) @ ys \<and>
    (keep_lines sdp = xs @ ys \<or> ys = [] \<and> \<not> has_suffix sdp [newline] \<and> keep_lines (sdp @ eol_of sdp) = xs) \<and>
    (ys \<noteq> [] \<longrightarrow> prefix ''a='' (hd ys) \<and> (\<exists>k \<in> set xs. prefix ''m='' k))"
proof (cases "candidate_lines cs = []")
  case True
  then show ?thesis by (intro exI [of _ "keep_lines sdp"] exI [of _ "[]"]) (simp add: inline_candidates_def)
next
  case False
  with assms show ?thesis
  proof (cases rule: inline_lines [where sdp = sdp])
    case (media xs l ys)
    then show ?thesis by (intro exI [of _ xs] exI [of _ "l # ys"]) (simp add: inserted_def)
  next
    case ends
    show ?thesis
      using ends(2)
      by (intro exI [of _ "keep_lines (if sdp \<noteq> [] \<and> \<not> has_suffix sdp [newline] then sdp @ eol_of sdp else sdp)"]
          exI [of _ "[]"]) (auto simp: inserted_def)
  qed
qed

theorem inline_inserts_block_witness:
  "\<exists>xs ys. keep_lines (inline_candidates (''m=x'' @ [newline] @ ''a=mid:0'') [''candidate:1 typ host'']) =
     xs @ [''a=candidate:1 typ host'' @ [newline]] @ ys"
proof -
  have "clean_candidates [''candidate:1 typ host'']"
    "map (\<lambda>l. l @ eol_of (''m=x'' @ [newline] @ ''a=mid:0'')) (candidate_lines [''candidate:1 typ host'']) =
      [''a=candidate:1 typ host'' @ [newline]]"
    by code_simp+
  with inline_inserts_block [of "[''candidate:1 typ host'']" "''m=x'' @ [newline] @ ''a=mid:0''"]
  show ?thesis by auto
qed

end
