(* ===== verification/Identity.thy ===== *)
theory Identity
  imports Sdp
begin

text \<open>
  \<open>bridge/norelay_identity.go\<close>: who is behind an offer. The JSON, base64, X.509 and JWS
  libraries are parameters, collected in a record; \<open>'k\<close> is the type of ECDSA public keys.
\<close>

datatype 'k any_key = Ecdsa 'k | OtherKey

record 'k crypto_lib =
  b64_std :: "string \<Rightarrow> string option"
  b64_raw_url :: "string \<Rightarrow> string option"
  json_string :: "string \<Rightarrow> string option"
  json_assertion :: "string \<Rightarrow> string option"
  json_identity :: "string \<Rightarrow> (string \<times> string) option"
  json_jwk :: "string \<Rightarrow> 'k any_key option"
  parse_pkix :: "string \<Rightarrow> 'k any_key option"
  parse_detached :: "string \<Rightarrow> string \<Rightarrow> bool"
  jws_verify :: "'k \<Rightarrow> string \<Rightarrow> string \<Rightarrow> bool"
  quote :: "string \<Rightarrow> string"

record 'k player_token =
  pt_xuid :: xuid
  pt_name :: string
  pt_public_key :: "'k option"

record offer_identity =
  oi_token :: string
  oi_fingerprints :: string

datatype identity_error =
    NoIdentityAttribute
  | BadIdentityAttribute
  | BadAssertion
  | IncompleteAssertion
  | NoVerifier
  | TokenRejected
  | NoPublicKey
  | BadFingerprint fingerprint_error
  | BadSignatureFormat
  | SignatureMismatch

section \<open>The token verifier\<close>

datatype cpk_error = NotBase64 | BadPkix | PkixNotEcdsa | NeitherDerNorJwk | JwkNotEcdsa

definition parse_cpk :: "'k crypto_lib \<Rightarrow> string \<Rightarrow> cpk_error + 'k" where
  "parse_cpk lib raw =
     (case json_string lib raw of
        Some s \<Rightarrow>
          (case (case b64_std lib s of Some der \<Rightarrow> Some der | None \<Rightarrow> b64_raw_url lib s) of
             None \<Rightarrow> Inl NotBase64
           | Some der \<Rightarrow>
               (case parse_pkix lib der of
                  None \<Rightarrow> Inl BadPkix
                | Some (Ecdsa k) \<Rightarrow> Inr k
                | Some OtherKey \<Rightarrow> Inl PkixNotEcdsa))
      | None \<Rightarrow>
          (case json_jwk lib raw of
             None \<Rightarrow> Inl NeitherDerNorJwk
           | Some (Ecdsa k) \<Rightarrow> Inr k
           | Some OtherKey \<Rightarrow> Inl JwkNotEcdsa))"

record token_claims =
  cl_xuid :: xuid
  cl_name :: string
  cl_cpk :: string

text \<open>\<open>verify_multiplayer\<close> is the session's verification of the token's signature.\<close>

definition session_token_verifier ::
  "'k crypto_lib \<Rightarrow> (string \<Rightarrow> token_claims option) \<Rightarrow> string \<Rightarrow> 'k player_token option" where
  "session_token_verifier lib verify_multiplayer token =
     (case verify_multiplayer token of
        None \<Rightarrow> None
      | Some c \<Rightarrow>
          (if cl_xuid c = '''' then None
           else (case parse_cpk lib (cl_cpk c) of
                   Inl e \<Rightarrow> None
                 | Inr k \<Rightarrow> Some \<lparr>pt_xuid = cl_xuid c, pt_name = cl_name c, pt_public_key = Some k\<rparr>)))"

section \<open>The identity of an offer\<close>

definition parse_offer_identity :: "'k crypto_lib \<Rightarrow> string \<Rightarrow> identity_error + offer_identity" where
  "parse_offer_identity lib sdp =
     (case sdp_attribute sdp ''identity'' False of
        None \<Rightarrow> Inl NoIdentityAttribute
      | Some value \<Rightarrow>
          (case b64_std lib value of
             None \<Rightarrow> Inl BadIdentityAttribute
           | Some b \<Rightarrow>
               (case json_assertion lib b of
                  None \<Rightarrow> Inl BadIdentityAttribute
                | Some raw \<Rightarrow>
                    (let assertion = (case json_string lib raw of Some nested \<Rightarrow> nested | None \<Rightarrow> raw)
                     in (case json_identity lib assertion of
                           None \<Rightarrow> Inl BadAssertion
                         | Some (fingerprints, token) \<Rightarrow>
                             (if count_byte CHR ''.'' token \<noteq> 2 \<or> count_byte CHR ''.'' fingerprints \<noteq> 2
                              then Inl IncompleteAssertion
                              else Inr \<lparr>oi_token = token, oi_fingerprints = fingerprints\<rparr>))))))"

definition verify_offer_identity ::
  "'k crypto_lib \<Rightarrow> (string \<Rightarrow> 'k player_token option) \<Rightarrow> string \<Rightarrow> identity_error + 'k player_token" where
  "verify_offer_identity lib verify sdp =
     (case parse_offer_identity lib sdp of
        Inl e \<Rightarrow> Inl e
      | Inr i \<Rightarrow>
          (case verify (oi_token i) of
             None \<Rightarrow> Inl TokenRejected
           | Some player \<Rightarrow>
               (case pt_public_key player of
                  None \<Rightarrow> Inl NoPublicKey
                | Some k \<Rightarrow>
                    (case fingerprint_payload (quote lib) sdp of
                       Inl e \<Rightarrow> Inl (BadFingerprint e)
                     | Inr payload \<Rightarrow>
                         (if \<not> parse_detached lib (oi_fingerprints i) payload then Inl BadSignatureFormat
                          else if \<not> jws_verify lib k (oi_fingerprints i) payload then Inl SignatureMismatch
                          else Inr player)))))"

text \<open>
  What a successful verification establishes: the offer names a token the verifier accepts for
  this player, and the token's key signed the fingerprint of this description.
\<close>

lemma verify_offer_identity_Inr:
  assumes "verify_offer_identity lib verify sdp = Inr player"
  obtains i k payload where "parse_offer_identity lib sdp = Inr i" "verify (oi_token i) = Some player"
    "pt_public_key player = Some k" "fingerprint_payload (quote lib) sdp = Inr payload"
    "jws_verify lib k (oi_fingerprints i) payload"
  using assms by (auto simp: verify_offer_identity_def split: sum.splits option.splits if_splits)

lemma session_token_verifier_Some:
  "session_token_verifier lib vm token = Some player \<Longrightarrow>
   \<exists>c k. vm token = Some c \<and> pt_xuid player = cl_xuid c \<and> cl_xuid c \<noteq> '''' \<and>
     parse_cpk lib (cl_cpk c) = Inr k \<and> pt_public_key player = Some k"
  by (auto simp: session_token_verifier_def split: option.splits if_splits sum.splits)

text \<open>Only the identity and fingerprint attributes decide: rewriting candidates changes nothing.\<close>

lemma verify_attributes_cong:
  assumes "sdp_attribute s ''identity'' False = sdp_attribute t ''identity'' False"
    and "sdp_attribute s ''fingerprint'' True = sdp_attribute t ''fingerprint'' True"
  shows "verify_offer_identity lib verify s = verify_offer_identity lib verify t"
proof -
  have parse: "parse_offer_identity lib s = parse_offer_identity lib t"
    unfolding parse_offer_identity_def assms(1) ..
  have payload: "fingerprint_payload (quote lib) s = fingerprint_payload (quote lib) t"
    unfolding fingerprint_payload_def assms(2) ..
  show ?thesis unfolding verify_offer_identity_def parse payload ..
qed

end
