(* ===== verification/Broker.thy ===== *)
theory Broker
  imports Identity
begin

text \<open>
  \<open>signalBroker\<close> of \<open>bridge/norelay.go\<close>: offers are held while candidates trickle in, then
  forwarded to the backend once. \<open>notify_signal\<close>, \<open>forward_take\<close> and \<open>forward_finish\<close> are the
  critical sections under \<open>b.mu\<close>; \<open>forward_actions\<close> is what one \<open>forward\<close> does between them,
  outside the lock. A timer is the instant at which it fires; its callback may run at any moment,
  also after the offer was dropped, which \<open>forward_take\<close> has to cope with.
\<close>

section \<open>State\<close>

record connection_key =
  ck_network_id :: string
  ck_connection_id :: "64 word"

datatype signal_type = SigOffer | SigAnswer | SigCandidate | SigError | SigOther string

record signal =
  sig_type :: signal_type
  sig_connection_id :: "64 word"
  sig_data :: string
  sig_network_id :: string

record brokered_offer =
  of_offer :: string
  of_candidates :: "string list"
  of_deadline :: instant
  of_timer :: "instant option"
  of_done :: bool

text \<open>\<open>b_forwarding\<close> is the number of \<open>forward\<close> calls between their two critical sections.\<close>

record broker =
  b_pending :: "connection_key \<rightharpoonup> brokered_offer"
  b_in_flight :: int
  b_dropped :: int
  b_dropped_logged :: instant
  b_forwarding :: nat

definition candidate_quiet :: duration where "candidate_quiet = 150 * millisecond"
definition max_gather :: duration where "max_gather = 2 * second"
definition max_in_flight :: int where "max_in_flight = 32"
definition max_offer_bytes :: nat where "max_offer_bytes = 65536"
definition max_candidates :: nat where "max_candidates = 32"
definition max_candidate_bytes :: nat where "max_candidate_bytes = 1024"
definition drop_log_interval :: duration where "drop_log_interval = 10 * second"

definition new_broker :: broker where
  "new_broker =
     \<lparr>b_pending = Map.empty, b_in_flight = 0, b_dropped = 0,
      b_dropped_logged = - unix_to_internal * second, b_forwarding = 0\<rparr>"

definition signal_key :: "signal \<Rightarrow> connection_key" where
  "signal_key s = \<lparr>ck_network_id = sig_network_id s, ck_connection_id = sig_connection_id s\<rparr>"

section \<open>The critical sections\<close>

definition arm :: "instant \<Rightarrow> brokered_offer \<Rightarrow> brokered_offer" where
  "arm now off =
     (let wait = candidate_quiet;
          until = time_sub (of_deadline off) now;
          wait = (if until < wait then until else wait);
          wait = (if wait < 0 then 0 else wait)
      in off\<lparr>of_timer := Some (now + wait)\<rparr>)"

definition refused_locked :: "instant \<Rightarrow> broker \<Rightarrow> broker" where
  "refused_locked now b =
     (let b = b\<lparr>b_dropped := b_dropped b + 1\<rparr>
      in if time_sub now (b_dropped_logged b) < drop_log_interval then b
         else b\<lparr>b_dropped := 0, b_dropped_logged := now\<rparr>)"

definition notify_signal :: "instant \<Rightarrow> signal \<Rightarrow> broker \<Rightarrow> broker \<times> bool" where
  "notify_signal now s b =
     (let key = signal_key s
      in case sig_type s of
        SigOffer \<Rightarrow>
          (if b_pending b key \<noteq> None then (b, False)
           else if length (sig_data s) > max_offer_bytes \<or> b_in_flight b \<ge> max_in_flight
           then (refused_locked now b, False)
           else
             (let off = \<lparr>of_offer = sig_data s, of_candidates = [],
                         of_deadline = (if has_inline_candidate (sig_data s) then now
                                        else now + max_gather),
                         of_timer = None, of_done = False\<rparr>
              in (b\<lparr>b_pending := (b_pending b)(key \<mapsto> arm now off),
                    b_in_flight := b_in_flight b + 1\<rparr>, True)))
      | SigCandidate \<Rightarrow>
          (case b_pending b key of
             None \<Rightarrow> (b, True)
           | Some off \<Rightarrow>
               (if \<not> of_done off \<and> length (of_candidates off) < max_candidates \<and>
                   length (sig_data s) \<le> max_candidate_bytes \<and> \<not> is_relay_candidate (sig_data s)
                then (b\<lparr>b_pending := (b_pending b)(key \<mapsto>
                         arm now (off\<lparr>of_candidates := of_candidates off @ [sig_data s]\<rparr>))\<rparr>, True)
                else (b, True)))
      | SigError \<Rightarrow>
          (case b_pending b key of
             None \<Rightarrow> (b, True)
           | Some off \<Rightarrow>
               (if \<not> of_done off
                then (b\<lparr>b_pending := (b_pending b)(key := None), b_in_flight := b_in_flight b - 1\<rparr>, True)
                else (b, True)))
      | _ \<Rightarrow> (b, False))"

definition forward_take :: "connection_key \<Rightarrow> broker \<Rightarrow> broker \<times> (string \<times> string list) option" where
  "forward_take key b =
     (case b_pending b key of
        None \<Rightarrow> (b, None)
      | Some off \<Rightarrow>
          (if of_done off then (b, None)
           else (b\<lparr>b_pending := (b_pending b)(key := None), b_forwarding := Suc (b_forwarding b)\<rparr>,
                 Some (of_offer off, of_candidates off))))"

definition forward_finish :: "broker \<Rightarrow> broker" where
  "forward_finish b = b\<lparr>b_in_flight := b_in_flight b - 1, b_forwarding := b_forwarding b - 1\<rparr>"

section \<open>What one forward does\<close>

text \<open>
  \<open>env\<close> is what the broker was built with and what the world answers: the verifier, the
  allow-list and the join hook (each may be nil), the backend's answer to a posted offer, and
  whether the signaling accepts a signal. The two error codes are constants of go-nethernet.
\<close>

record 'k broker_env =
  env_lib :: "'k crypto_lib"
  env_verify :: "(string \<Rightarrow> 'k player_token option) option"
  env_allow :: "(xuid \<Rightarrow> bool) option"
  env_on_join :: bool
  env_post :: "string \<Rightarrow> string option"
  env_signal_ok :: "signal \<Rightarrow> bool"
  env_identity_not_allowed :: int
  env_failed_to_create_answer :: int

datatype broker_action = PostOffer string | SendSignal signal | RecordJoin xuid string

definition make_signal :: "signal_type \<Rightarrow> connection_key \<Rightarrow> string \<Rightarrow> signal" where
  "make_signal t key d =
     \<lparr>sig_type = t, sig_connection_id = ck_connection_id key, sig_data = d,
      sig_network_id = ck_network_id key\<rparr>"

definition fail_signal :: "connection_key \<Rightarrow> int \<Rightarrow> broker_action" where
  "fail_signal key code = SendSignal (make_signal SigError key (show_int code))"

fun trickle :: "(signal \<Rightarrow> bool) \<Rightarrow> connection_key \<Rightarrow> string list \<Rightarrow> broker_action list" where
  "trickle ok key [] = []"
| "trickle ok key (c # cs) =
     SendSignal (make_signal SigCandidate key c) #
       (if ok (make_signal SigCandidate key c) then trickle ok key cs else [])"

definition offer_player :: "'k broker_env \<Rightarrow> string \<Rightarrow> identity_error + 'k player_token" where
  "offer_player env sdp =
     (case env_verify env of
        None \<Rightarrow> Inl NoVerifier
      | Some verify \<Rightarrow> verify_offer_identity (env_lib env) verify sdp)"

definition forwarded_offer :: "string \<Rightarrow> string list \<Rightarrow> string" where
  "forwarded_offer sdp candidates = inline_candidates (fst (strip_relay_candidates sdp)) candidates"

definition forward_actions ::
  "'k broker_env \<Rightarrow> connection_key \<Rightarrow> string \<Rightarrow> string list \<Rightarrow> broker_action list" where
  "forward_actions env key sdp candidates =
     (let player = offer_player env sdp;
          refused = (case env_allow env of
                       None \<Rightarrow> False
                     | Some allow \<Rightarrow>
                         (case player of Inl e \<Rightarrow> True | Inr p \<Rightarrow> \<not> allow (pt_xuid p)))
      in if refused then [fail_signal key (env_identity_not_allowed env)]
         else
           (let posted = forwarded_offer sdp candidates
            in PostOffer posted #
               (case env_post env posted of
                  None \<Rightarrow> [fail_signal key (env_failed_to_create_answer env)]
                | Some answer \<Rightarrow>
                    (let s = make_signal SigAnswer key answer
                     in SendSignal s #
                        (if \<not> env_signal_ok env s then []
                         else trickle (env_signal_ok env) key (answer_candidates answer) @
                              (case player of
                                 Inr p \<Rightarrow> if env_on_join env then [RecordJoin (pt_xuid p) (pt_name p)] else []
                               | Inl e \<Rightarrow> []))))))"

text \<open>One run of \<open>forward\<close> with nothing in between, from the timer to the return.\<close>

definition forward ::
  "'k broker_env \<Rightarrow> connection_key \<Rightarrow> broker \<Rightarrow> broker \<times> broker_action list" where
  "forward env key b =
     (case forward_take key b of
        (b', None) \<Rightarrow> (b', [])
      | (b', Some (sdp, candidates)) \<Rightarrow> (forward_finish b', forward_actions env key sdp candidates))"

section \<open>Invariant of the broker\<close>

definition offer_inv :: "brokered_offer \<Rightarrow> bool" where
  "offer_inv off \<longleftrightarrow>
     \<not> of_done off \<and> of_timer off \<noteq> None \<and>
     length (of_offer off) \<le> max_offer_bytes \<and>
     length (of_candidates off) \<le> max_candidates \<and>
     list_all (\<lambda>c. length c \<le> max_candidate_bytes \<and> \<not> is_relay_candidate c) (of_candidates off)"

definition broker_inv :: "broker \<Rightarrow> bool" where
  "broker_inv b \<longleftrightarrow>
     finite (dom (b_pending b)) \<and>
     b_in_flight b = int (card (dom (b_pending b)) + b_forwarding b) \<and>
     b_in_flight b \<le> max_in_flight \<and>
     (\<forall>k off. b_pending b k = Some off \<longrightarrow> offer_inv off)"

inductive broker_step :: "broker \<Rightarrow> broker \<Rightarrow> bool" where
  signal: "broker_step b (fst (notify_signal now s b))"
| take: "broker_step b (fst (forward_take key b))"
| finish: "0 < b_forwarding b \<Longrightarrow> broker_step b (forward_finish b)"

inductive broker_reachable :: "broker \<Rightarrow> bool" where
  start: "broker_reachable new_broker"
| step: "broker_reachable b \<Longrightarrow> broker_step b b' \<Longrightarrow> broker_reachable b'"

lemma arm_fields [simp]:
  "of_offer (arm now off) = of_offer off" "of_candidates (arm now off) = of_candidates off"
  "of_deadline (arm now off) = of_deadline off" "of_done (arm now off) = of_done off"
  "of_timer (arm now off) \<noteq> None"
  by (simp_all add: arm_def Let_def)

lemma refused_locked_fields [simp]:
  "b_pending (refused_locked now b) = b_pending b" "b_in_flight (refused_locked now b) = b_in_flight b"
  "b_forwarding (refused_locked now b) = b_forwarding b"
  by (simp_all add: refused_locked_def Let_def)

lemma refused_locked_inv: "broker_inv b \<Longrightarrow> broker_inv (refused_locked now b)"
  by (simp add: broker_inv_def)

lemma broker_inv_new: "broker_inv new_broker"
  by (simp add: broker_inv_def new_broker_def max_in_flight_def)

lemma broker_inv_insert:
  assumes "broker_inv b" "b_pending b k = None" "b_in_flight b < max_in_flight" "offer_inv off"
  shows "broker_inv (b\<lparr>b_pending := (b_pending b)(k \<mapsto> off), b_in_flight := b_in_flight b + 1\<rparr>)"
  using assms card_dom_upd_new [of "b_pending b" k off] by (auto simp: broker_inv_def)

lemma broker_inv_update:
  assumes "broker_inv b" "b_pending b k = Some old" "offer_inv off"
  shows "broker_inv (b\<lparr>b_pending := (b_pending b)(k \<mapsto> off)\<rparr>)"
proof -
  have "insert k (dom (b_pending b)) = dom (b_pending b)" using assms(2) by auto
  with assms show ?thesis by (auto simp: broker_inv_def)
qed

lemma broker_inv_delete:
  assumes "broker_inv b" "b_pending b k = Some off"
  shows "broker_inv (b\<lparr>b_pending := (b_pending b)(k := None), b_in_flight := b_in_flight b - 1\<rparr>)"
    and "broker_inv (b\<lparr>b_pending := (b_pending b)(k := None), b_forwarding := Suc (b_forwarding b)\<rparr>)"
proof -
  have fin: "finite (dom (b_pending b))" using assms(1) by (simp add: broker_inv_def)
  moreover have "finite (dom ((b_pending b)(k := None)))" using fin by simp
  moreover have "0 < card (dom (b_pending b))" using card_dom_pos [OF fin assms(2)] .
  ultimately show "broker_inv (b\<lparr>b_pending := (b_pending b)(k := None), b_in_flight := b_in_flight b - 1\<rparr>)"
    and "broker_inv (b\<lparr>b_pending := (b_pending b)(k := None), b_forwarding := Suc (b_forwarding b)\<rparr>)"
    using assms card_dom_delete [OF fin assms(2)]
    by (simp_all add: broker_inv_def map_upd_None del: dom_fun_upd)
qed

lemma notify_signal_inv:
  assumes "broker_inv b"
  shows "broker_inv (fst (notify_signal now s b))"
proof (cases "sig_type s")
  case SigOffer
  have "offer_inv (arm now \<lparr>of_offer = sig_data s, of_candidates = [], of_deadline = d,
      of_timer = None, of_done = False\<rparr>)" if "\<not> length (sig_data s) > max_offer_bytes" for d
    using that by (simp add: offer_inv_def arm_fields(5) del: not_None_eq)
  with SigOffer assms show ?thesis
    by (auto simp: notify_signal_def Let_def refused_locked_inv intro!: broker_inv_insert)
next
  case SigCandidate
  show ?thesis
  proof (cases "b_pending b (signal_key s)")
    case None
    with SigCandidate assms show ?thesis by (simp add: notify_signal_def Let_def)
  next
    case (Some off)
    then have "offer_inv off" using assms by (simp add: broker_inv_def)
    then have "offer_inv (arm now (off\<lparr>of_candidates := of_candidates off @ [sig_data s]\<rparr>))"
      if "length (of_candidates off) < max_candidates" "length (sig_data s) \<le> max_candidate_bytes"
        "\<not> is_relay_candidate (sig_data s)"
      using that by (simp add: offer_inv_def arm_fields(5) del: not_None_eq)
    with SigCandidate Some assms show ?thesis
      by (auto simp: notify_signal_def Let_def intro!: broker_inv_update [OF assms])
  qed
next
  case SigError
  with assms show ?thesis
    by (auto simp: notify_signal_def Let_def split: option.split intro!: broker_inv_delete(1))
qed (use assms in \<open>simp_all add: notify_signal_def Let_def\<close>)

lemma forward_take_inv: "broker_inv b \<Longrightarrow> broker_inv (fst (forward_take key b))"
  by (auto simp: forward_take_def split: option.split intro!: broker_inv_delete(2))

lemma forward_finish_inv: "broker_inv b \<Longrightarrow> 0 < b_forwarding b \<Longrightarrow> broker_inv (forward_finish b)"
  by (auto simp: forward_finish_def broker_inv_def)

lemma broker_step_inv: "broker_step b b' \<Longrightarrow> broker_inv b \<Longrightarrow> broker_inv b'"
  by (induction rule: broker_step.induct) (auto intro: notify_signal_inv forward_take_inv forward_finish_inv)

lemma broker_reachable_inv: "broker_reachable b \<Longrightarrow> broker_inv b"
  by (induction rule: broker_reachable.induct) (auto intro: broker_inv_new broker_step_inv)


inductive_cases broker_stepE: "broker_step b b'"

section \<open>Every accepted offer is settled once\<close>

text \<open>
  The events in the order in which the lock admits them. \<open>Accepted\<close>, \<open>Forwarded\<close> and
  \<open>Abandoned\<close> are what an event did to an offer: held it, took it to be forwarded, or dropped it
  because the client gave up.
\<close>

datatype broker_event = EvSignal instant signal | EvTimer connection_key | EvDone

datatype broker_outcome = Accepted connection_key | Forwarded connection_key | Abandoned connection_key

definition signal_outcome :: "signal \<Rightarrow> broker \<Rightarrow> broker \<times> bool \<Rightarrow> broker_outcome list" where
  "signal_outcome s b r =
     (if sig_type s = SigOffer \<and> snd r then [Accepted (signal_key s)]
      else if b_pending b (signal_key s) \<noteq> None \<and> b_pending (fst r) (signal_key s) = None
      then [Abandoned (signal_key s)] else [])"

fun broker_do :: "broker_event \<Rightarrow> broker \<Rightarrow> broker \<times> broker_outcome list" where
  "broker_do (EvSignal now s) b =
     (fst (notify_signal now s b), signal_outcome s b (notify_signal now s b))"
| "broker_do (EvTimer key) b =
     (fst (forward_take key b), if snd (forward_take key b) = None then [] else [Forwarded key])"
| "broker_do EvDone b = (if b_forwarding b = 0 then b else forward_finish b, [])"

fun broker_run :: "broker_event list \<Rightarrow> broker \<Rightarrow> broker \<times> broker_outcome list" where
  "broker_run [] b = (b, [])"
| "broker_run (e # es) b =
     (let (b, out) = broker_do e b; (b, rest) = broker_run es b in (b, out @ rest))"

definition held :: "broker \<Rightarrow> connection_key \<Rightarrow> nat" where
  "held b k = (if b_pending b k = None then 0 else 1)"

lemma forward_take_held:
  "held (fst (forward_take key b)) k +
     count_list (if snd (forward_take key b) = None then [] else [Forwarded key]) (Forwarded k) = held b k"
  by (auto simp: forward_take_def held_def split: option.split)

lemma notify_signal_held:
  "held b k + count_list (signal_outcome s b (notify_signal now s b)) (Accepted k) =
     held (fst (notify_signal now s b)) k +
     count_list (signal_outcome s b (notify_signal now s b)) (Abandoned k)"
  by (cases "sig_type s")
     (auto simp: notify_signal_def signal_outcome_def held_def Let_def split: option.split)

lemma signal_outcome_not_forwarded [simp]: "count_list (signal_outcome s b r) (Forwarded k) = 0"
  by (simp add: signal_outcome_def)

lemma broker_do_held:
  "held b k + count_list (snd (broker_do e b)) (Accepted k) =
     held (fst (broker_do e b)) k + count_list (snd (broker_do e b)) (Forwarded k) +
     count_list (snd (broker_do e b)) (Abandoned k)"
proof (cases e)
  case (EvSignal now s)
  then show ?thesis using notify_signal_held [of b k s now] by simp
next
  case (EvTimer key)
  then show ?thesis using forward_take_held [of key b k] by (auto split: if_splits)
qed (simp add: held_def forward_finish_def)

lemma broker_run_held:
  "held b k + count_list (snd (broker_run es b)) (Accepted k) =
     held (fst (broker_run es b)) k + count_list (snd (broker_run es b)) (Forwarded k) +
     count_list (snd (broker_run es b)) (Abandoned k)"
proof (induction es arbitrary: b)
  case (Cons e es)
  show ?case using broker_do_held [of b k e] Cons.IH [of "fst (broker_do e b)"]
    by (simp add: case_prod_beta Let_def)
qed simp

lemma broker_do_inv: "broker_inv b \<Longrightarrow> broker_inv (fst (broker_do e b))"
  by (cases e) (auto intro: notify_signal_inv forward_take_inv forward_finish_inv)

interpretation broker_machine: invariant_machine "\<lambda>b e. fst (broker_do e b)" broker_inv
  by unfold_locales (rule broker_do_inv)

lemma arm_bound:
  assumes "in_int64 (of_deadline off - now)"
  shows "\<exists>t. of_timer (arm now off) = Some t \<and> now \<le> t \<and> t \<le> now + candidate_quiet \<and> t \<le> max now (of_deadline off)"
  using assms by (auto simp: arm_def Let_def time_sub_def clamp64_def in_int64_def candidate_quiet_def
      millisecond_def max_int64_def min_int64_def)

section \<open>Properties\<close>

text \<open>
  C1: the broker stays within its limits in every reachable state, under any interleaving of
  signals, timers and backend answers: at most 32 offers are held or being forwarded, the count
  of them is exact, and a held offer is at most 64 KiB, has at most 32 candidates of at most a
  kilobyte, none of them a relay candidate, and its timer is armed.
\<close>

theorem broker_within_limits:
  assumes "broker_reachable b"
  shows "b_in_flight b = int (card (dom (b_pending b)) + b_forwarding b) \<and> b_in_flight b \<le> 32 \<and>
    (\<forall>k off. b_pending b k = Some off \<longrightarrow>
       length (of_offer off) \<le> 65536 \<and> length (of_candidates off) \<le> 32 \<and>
       list_all (\<lambda>c. length c \<le> 1024 \<and> \<not> is_relay_candidate c) (of_candidates off) \<and>
       \<not> of_done off \<and> of_timer off \<noteq> None)"
  using broker_reachable_inv [OF assms]
  by (auto simp: broker_inv_def offer_inv_def max_in_flight_def max_offer_bytes_def max_candidates_def
      max_candidate_bytes_def)

definition example_key :: connection_key where
  "example_key = \<lparr>ck_network_id = ''9'', ck_connection_id = 7\<rparr>"

definition example_offer :: signal where
  "example_offer = make_signal SigOffer example_key ''v=0''"

theorem broker_within_limits_witness:
  "b_in_flight (fst (notify_signal 0 example_offer new_broker)) = 1 \<and>
   b_in_flight (fst (notify_signal 0 example_offer new_broker)) \<le> 32"
proof -
  have "broker_reachable (fst (notify_signal 0 example_offer new_broker))"
    by (intro broker_reachable.step [OF broker_reachable.start] broker_step.signal)
  from broker_within_limits [OF this] show ?thesis
    by (simp add: notify_signal_def example_offer_def make_signal_def new_broker_def signal_key_def
        max_offer_bytes_def max_in_flight_def Let_def)
qed

text \<open>An environment and an offer on which the properties about one forward are exercised.\<close>

definition example_lib :: "nat crypto_lib" where
  "example_lib =
     \<lparr>b64_std = Some, b64_raw_url = Some, json_string = \<lambda>_. None, json_assertion = Some,
      json_identity = \<lambda>_. Some (''a.b.c'', ''x.y.z''), json_jwk = \<lambda>_. None, parse_pkix = \<lambda>_. None,
      parse_detached = \<lambda>_ _. True, jws_verify = \<lambda>k _ _. k = 4, quote = \<lambda>s. s\<rparr>"

definition example_env :: "nat broker_env" where
  "example_env =
     \<lparr>env_lib = example_lib,
      env_verify = Some (\<lambda>_. Some \<lparr>pt_xuid = ''5'', pt_name = ''Al'', pt_public_key = Some 4\<rparr>),
      env_allow = Some (\<lambda>x. x = ''5''), env_on_join = True, env_post = \<lambda>_. Some ''v=0'',
      env_signal_ok = \<lambda>_. True, env_identity_not_allowed = 1, env_failed_to_create_answer = 2\<rparr>"

definition example_sdp :: string where
  "example_sdp = concat (map (\<lambda>l. l @ [newline]) [''m=x'', ''a=identity:q'', ''a=fingerprint:sha AA''])"

definition example_broker :: broker where
  "example_broker = new_broker\<lparr>b_pending := [example_key \<mapsto>
     \<lparr>of_offer = example_sdp, of_candidates = [''candidate:1''], of_deadline = 0, of_timer = Some 0, of_done = False\<rparr>],
     b_in_flight := 1\<rparr>"

lemma example_forward:
  "snd (forward example_env example_key example_broker) =
     forward_actions example_env example_key example_sdp [''candidate:1'']"
  by (simp add: forward_def forward_take_def example_broker_def new_broker_def)

lemma example_actions:
  "forward_actions example_env example_key example_sdp [''candidate:1''] =
     [PostOffer (forwarded_offer example_sdp [''candidate:1'']),
      SendSignal (make_signal SigAnswer example_key ''v=0''), RecordJoin ''5'' ''Al'']"
proof -
  have p: "offer_player example_env example_sdp = Inr \<lparr>pt_xuid = ''5'', pt_name = ''Al'', pt_public_key = Some 4\<rparr>"
    and a: "answer_candidates ''v=0'' = []"
    by code_simp+
  show ?thesis unfolding forward_actions_def p by (simp add: a example_env_def)
qed

text \<open>
  C2: every accepted offer is settled exactly once: over any sequence of events, the offers
  accepted for a connection are the ones taken to be forwarded, the ones the client abandoned
  and, possibly, one still held. So none is forwarded twice, and a timer that fires late
  forwards nothing.
\<close>

theorem offer_settled_once:
  "count_list (snd (broker_run es new_broker)) (Accepted k) =
     count_list (snd (broker_run es new_broker)) (Forwarded k) +
     count_list (snd (broker_run es new_broker)) (Abandoned k) +
     (if b_pending (fst (broker_run es new_broker)) k = None then 0 else 1)"
  using broker_run_held [of new_broker k es] by (simp add: held_def new_broker_def)

text \<open>
  C3: with an allow-list, an offer reaches the backend only when its token was accepted, the
  token's key signed the fingerprint of this very description, and the player is on the list.
\<close>

theorem only_allowed_forwarded:
  assumes "PostOffer posted \<in> set (snd (forward env key b))" "env_allow env = Some allow"
  shows "\<exists>off verify player k payload i. b_pending b key = Some off \<and>
    posted = forwarded_offer (of_offer off) (of_candidates off) \<and>
    env_verify env = Some verify \<and> parse_offer_identity (env_lib env) (of_offer off) = Inr i \<and>
    verify (oi_token i) = Some player \<and> allow (pt_xuid player) \<and>
    pt_public_key player = Some k \<and>
    fingerprint_payload (quote (env_lib env)) (of_offer off) = Inr payload \<and>
    jws_verify (env_lib env) k (oi_fingerprints i) payload"
proof -
  obtain off where off: "b_pending b key = Some off" "\<not> of_done off"
    and post: "PostOffer posted \<in> set (forward_actions env key (of_offer off) (of_candidates off))"
    using assms(1) by (auto simp: forward_def forward_take_def split: option.splits if_splits)
  have trickled: "PostOffer posted \<notin> set (trickle ok key cs)" for ok cs
    by (induction cs) auto
  obtain player where p: "offer_player env (of_offer off) = Inr player" "allow (pt_xuid player)"
    using post assms(2) by (auto simp: forward_actions_def Let_def fail_signal_def split: sum.splits if_splits)
  have posted: "posted = forwarded_offer (of_offer off) (of_candidates off)"
    using post trickled
    by (auto simp: forward_actions_def Let_def fail_signal_def split: sum.splits if_splits option.splits)
  obtain verify where v: "env_verify env = Some verify"
    "verify_offer_identity (env_lib env) verify (of_offer off) = Inr player"
    using p(1) by (auto simp: offer_player_def split: option.splits)
  from v(2) show ?thesis
    by (rule verify_offer_identity_Inr) (use off p posted v(1) in blast)
qed

theorem only_allowed_forwarded_witness:
  "\<exists>off. b_pending example_broker example_key = Some off \<and> of_offer off = example_sdp \<and>
    PostOffer (forwarded_offer (of_offer off) (of_candidates off)) \<in> set (snd (forward example_env example_key example_broker))"
proof -
  have "PostOffer (forwarded_offer example_sdp [''candidate:1'']) \<in> set (snd (forward example_env example_key example_broker))"
    by (simp add: example_forward example_actions)
  moreover have "env_allow example_env = Some (\<lambda>x. x = ''5'')" by (simp add: example_env_def)
  ultimately obtain off where "b_pending example_broker example_key = Some off"
    "forwarded_offer example_sdp [''candidate:1''] = forwarded_offer (of_offer off) (of_candidates off)"
    using only_allowed_forwarded [of "forwarded_offer example_sdp [''candidate:1'']" example_env example_key
        example_broker "\<lambda>x. x = ''5''"] by blast
  then show ?thesis
    by (auto simp: example_broker_def example_forward [unfolded example_broker_def] example_actions)
qed

text \<open>
  A join is recorded only for a player whose identity was verified, only after the backend
  answered and the answer was signalled to the client, and at most once per offer.
\<close>

theorem join_only_when_verified:
  assumes "RecordJoin x name \<in> set (forward_actions env key sdp candidates)"
  shows "\<exists>player answer acts. offer_player env sdp = Inr player \<and> x = pt_xuid player \<and> name = pt_name player \<and>
    env_post env (forwarded_offer sdp candidates) = Some answer \<and>
    forward_actions env key sdp candidates =
      [PostOffer (forwarded_offer sdp candidates), SendSignal (make_signal SigAnswer key answer)] @ acts @
      [RecordJoin x name] \<and>
    list_all (\<lambda>a. \<exists>c. a = SendSignal (make_signal SigCandidate key c)) acts"
proof -
  have tr: "list_all (\<lambda>a. \<exists>c. a = SendSignal (make_signal SigCandidate key c)) (trickle ok key cs)" for ok cs
    by (induction cs) auto
  then have nt: "RecordJoin x name \<notin> set (trickle ok key cs)" for ok cs
    by (force simp: list_all_iff)
  show ?thesis
    using assms nt tr
    by (auto simp: forward_actions_def Let_def fail_signal_def split: sum.splits if_splits option.splits)
qed

theorem join_only_when_verified_witness:
  "\<exists>player. offer_player example_env example_sdp = Inr player \<and> pt_xuid player = ''5''"
proof -
  have "RecordJoin ''5'' ''Al'' \<in> set (forward_actions example_env example_key example_sdp [''candidate:1''])"
    by (simp add: example_actions)
  from join_only_when_verified [OF this] show ?thesis by auto
qed

text \<open>The replies among what a forward does, in order.\<close>

definition replies :: "broker_action list \<Rightarrow> signal_type list" where
  "replies as = concat (map (\<lambda>a. case a of
     SendSignal s \<Rightarrow> if sig_type s = SigAnswer \<or> sig_type s = SigError then [sig_type s] else [] | _ \<Rightarrow> []) as)"

text \<open>
  Whatever happens, the client of a forwarded offer gets exactly one reply, an answer or an
  error; it is an error exactly when the player was refused or the backend did not answer.
\<close>

theorem one_reply:
  "replies (forward_actions env key sdp candidates) =
    (if (\<exists>allow. env_allow env = Some allow \<and>
           (case offer_player env sdp of Inl e \<Rightarrow> True | Inr p \<Rightarrow> \<not> allow (pt_xuid p))) \<or>
        env_post env (forwarded_offer sdp candidates) = None
     then [SigError] else [SigAnswer])"
proof -
  have tr: "replies (trickle ok key cs @ as) = replies as" for ok cs as
    by (induction cs) (simp_all add: replies_def make_signal_def)
  have "replies (SendSignal s # as) = (if sig_type s = SigAnswer \<or> sig_type s = SigError then [sig_type s] else []) @ replies as"
    "replies (PostOffer p # as) = replies as" "replies (RecordJoin x n # as) = replies as" "replies [] = []"
    for s p x n as by (simp_all add: replies_def)
  note r = this
  have trickled: "replies (trickle ok key cs) = []" for ok cs using tr [of ok cs "[]"] r(4) by simp
  show ?thesis
    by (auto simp: forward_actions_def Let_def fail_signal_def r tr trickled make_signal_def
        split: sum.splits option.splits)
qed



text \<open>
  C40: An armed timer fires no later than the quiet period after the signal, and not after the
  offer's deadline unless that has passed already, in which case it fires at once.
\<close>

theorem arm_fires_in_time:
  assumes "in_int64 (of_deadline off - now)"
  shows "\<exists>t. of_timer (arm now off) = Some t \<and> now \<le> t \<and> t \<le> now + 150 * millisecond \<and>
    t \<le> max now (of_deadline off)"
  using arm_bound [OF assms] by (simp add: candidate_quiet_def)

theorem arm_fires_in_time_witness:
  "\<exists>t. of_timer (arm second \<lparr>of_offer = [], of_candidates = [], of_deadline = second + 2 * millisecond,
     of_timer = None, of_done = False\<rparr>) = Some t \<and> t \<le> second + 2 * millisecond"
proof -
  let ?off = "\<lparr>of_offer = [], of_candidates = [], of_deadline = second + 2 * millisecond,
     of_timer = None, of_done = False\<rparr>"
  have "in_int64 (of_deadline ?off - second)" "max second (of_deadline ?off) = second + 2 * millisecond"
    by (simp_all add: in_int64_def min_int64_def max_int64_def second_def millisecond_def)
  with arm_fires_in_time [of ?off second] show ?thesis by auto
qed

end
