(* ===== verification/Session_Tokens.thy ===== *)
theory Session_Tokens
  imports N2R_Prelude
begin

text \<open>
  \<open>session/session.go\<close>: the chain of tokens behind a Minecraft session. The services and the
  OAuth library are arguments: \<open>live_valid\<close> is \<open>oauth2.Token.Valid\<close>, a \<open>services\<close> record holds the
  answers one call gets. Every operation runs under \<open>s.mu\<close>, so a call is one step. \<open>Panics\<close> is a
  nil dereference, which ends the process.
\<close>

section \<open>State\<close>

record live_token =
  lt_access :: string
  lt_expiry :: instant

record playfab_identity =
  pi_ticket :: string
  pi_expiration :: instant

record service_token =
  mt_header :: string
  mt_valid_until :: instant

record auth_session =
  as_tok :: "live_token option"
  as_playfab :: "playfab_identity option"
  as_mc :: "service_token option"
  as_user_token :: string
  as_ready :: bool

definition no_session :: auth_session where
  "no_session = \<lparr>as_tok = None, as_playfab = None, as_mc = None, as_user_token = '''', as_ready = False\<rparr>"

text \<open>
  The answers: a fresh live token, discovery and its environment, and the two results of
  \<open>Login\<close>, the identity pointer and whether there was an error; \<open>sv_login_asks\<close> tells whether
  \<open>Login\<close> got as far as asking for the live token. \<open>sv_mc\<close> is the answer to a user token.
\<close>

record services =
  sv_live :: "live_token option"
  sv_discovery :: bool
  sv_login_asks :: bool
  sv_login :: "playfab_identity option \<times> bool"
  sv_mc :: "string \<Rightarrow> service_token option"

datatype 'a outcome = Panics | Fails | Returns 'a

section \<open>Operations\<close>

definition expiration_time_delta :: duration where "expiration_time_delta = minute"

definition past_expiration_time :: "instant \<Rightarrow> instant \<Rightarrow> bool" where
  "past_expiration_time now t \<longleftrightarrow> now > t - expiration_time_delta"

definition token_locked :: "(live_token \<Rightarrow> bool) \<Rightarrow> services \<Rightarrow> auth_session \<Rightarrow> auth_session \<times> live_token option" where
  "token_locked live_valid sv s =
     (case as_tok s of
        Some t \<Rightarrow>
          (if live_valid t then (s, Some t)
           else (case sv_live sv of None \<Rightarrow> (s, None) | Some t' \<Rightarrow> (s\<lparr>as_tok := Some t'\<rparr>, Some t')))
      | None \<Rightarrow> (case sv_live sv of None \<Rightarrow> (s, None) | Some t' \<Rightarrow> (s\<lparr>as_tok := Some t'\<rparr>, Some t')))"

text \<open>The identity is assigned together with the error, whatever the error is.\<close>

definition login_with_playfab :: "(live_token \<Rightarrow> bool) \<Rightarrow> services \<Rightarrow> auth_session \<Rightarrow> auth_session \<times> bool" where
  "login_with_playfab live_valid sv s =
     (let s = (if sv_login_asks sv then fst (token_locked live_valid sv s) else s);
          (identity, err) = sv_login sv
      in (s\<lparr>as_playfab := identity\<rparr>, \<not> err))"

definition playfab_identity_locked ::
  "(live_token \<Rightarrow> bool) \<Rightarrow> instant \<Rightarrow> services \<Rightarrow> auth_session \<Rightarrow> auth_session \<times> playfab_identity option outcome" where
  "playfab_identity_locked live_valid now sv s =
     (case as_playfab s of
        None \<Rightarrow> (s, Panics)
      | Some p \<Rightarrow>
          (if past_expiration_time now (pi_expiration p)
           then (let (s, ok) = login_with_playfab live_valid sv s
                 in if \<not> ok then (s, Fails) else (s, Returns (as_playfab s)))
           else (s, Returns (as_playfab s))))"

definition obtain_mc_token ::
  "(live_token \<Rightarrow> bool) \<Rightarrow> instant \<Rightarrow> services \<Rightarrow> auth_session \<Rightarrow> auth_session \<times> service_token outcome" where
  "obtain_mc_token live_valid now sv s =
     (case playfab_identity_locked live_valid now sv s of
        (s, Panics) \<Rightarrow> (s, Panics)
      | (s, Fails) \<Rightarrow> (s, Fails)
      | (s, Returns None) \<Rightarrow> (s, Panics)
      | (s, Returns (Some p)) \<Rightarrow>
          (let s = s\<lparr>as_user_token := pi_ticket p\<rparr>
           in case sv_mc sv (pi_ticket p) of
                None \<Rightarrow> (s, Fails)
              | Some t \<Rightarrow> (s\<lparr>as_mc := Some t\<rparr>, Returns t)))"

definition mc_token ::
  "(live_token \<Rightarrow> bool) \<Rightarrow> instant \<Rightarrow> services \<Rightarrow> auth_session \<Rightarrow> auth_session \<times> service_token outcome" where
  "mc_token live_valid now sv s =
     (case as_mc s of
        Some t \<Rightarrow>
          (if past_expiration_time now (mt_valid_until t) then obtain_mc_token live_valid now sv s
           else (s, Returns t))
      | None \<Rightarrow> obtain_mc_token live_valid now sv s)"

definition force_refresh_mc_token ::
  "(live_token \<Rightarrow> bool) \<Rightarrow> instant \<Rightarrow> services \<Rightarrow> auth_session \<Rightarrow> auth_session \<times> service_token outcome" where
  "force_refresh_mc_token live_valid now sv s = obtain_mc_token live_valid now sv s"

definition session_login ::
  "(live_token \<Rightarrow> bool) \<Rightarrow> instant \<Rightarrow> services \<Rightarrow> auth_session \<Rightarrow> auth_session \<times> unit outcome" where
  "session_login live_valid now sv s =
     (let (s, tok) = token_locked live_valid sv s
      in if tok = None then (s, Fails)
         else if \<not> sv_discovery sv then (s, Fails)
         else (let (s, ok) = login_with_playfab live_valid sv (s\<lparr>as_ready := True\<rparr>)
               in if \<not> ok then (s, Fails)
                  else (case obtain_mc_token live_valid now sv s of
                          (s, Returns t) \<Rightarrow> (s, Returns ())
                        | (s, Fails) \<Rightarrow> (s, Fails)
                        | (s, Panics) \<Rightarrow> (s, Panics))))"

text \<open>\<open>SessionFromTokenSource\<close>: the session, if the login succeeds.\<close>

definition session_from_token_source ::
  "(live_token \<Rightarrow> bool) \<Rightarrow> instant \<Rightarrow> services \<Rightarrow> auth_session outcome" where
  "session_from_token_source live_valid now sv =
     (case session_login live_valid now sv no_session of
        (s, Returns u) \<Rightarrow> Returns s
      | (s, Fails) \<Rightarrow> Fails
      | (s, Panics) \<Rightarrow> Panics)"

section \<open>Runs\<close>

datatype token_call = GetMcToken | ForceRefresh | GetLive

fun token_do ::
  "(live_token \<Rightarrow> bool) \<Rightarrow> instant \<times> services \<times> token_call \<Rightarrow> auth_session \<Rightarrow> auth_session \<times> service_token outcome" where
  "token_do live_valid (now, sv, GetMcToken) s = mc_token live_valid now sv s"
| "token_do live_valid (now, sv, ForceRefresh) s = force_refresh_mc_token live_valid now sv s"
| "token_do live_valid (now, sv, GetLive) s = (fst (token_locked live_valid sv s), Fails)"

definition token_step :: "(live_token \<Rightarrow> bool) \<Rightarrow> auth_session \<Rightarrow> instant \<times> services \<times> token_call \<Rightarrow> auth_session" where
  "token_step live_valid s c = fst (token_do live_valid c s)"

text \<open>A \<open>Login\<close> that gives an identity whenever it gives no error, as it documents.\<close>

definition login_contract :: "services \<Rightarrow> bool" where
  "login_contract sv \<longleftrightarrow> (\<not> snd (sv_login sv) \<longrightarrow> fst (sv_login sv) \<noteq> None)"

lemmas token_op_defs = mc_token_def force_refresh_mc_token_def obtain_mc_token_def
  playfab_identity_locked_def login_with_playfab_def

lemma token_locked_other [simp]:
  "as_playfab (fst (token_locked live_valid sv s)) = as_playfab s"
  "as_mc (fst (token_locked live_valid sv s)) = as_mc s"
  by (auto simp: token_locked_def split: option.split)

lemma login_with_playfab_result:
  "login_with_playfab live_valid sv s = (s', ok) \<Longrightarrow>
   ok = (\<not> snd (sv_login sv)) \<and> as_playfab s' = fst (sv_login sv) \<and> as_mc s' = as_mc s"
  by (auto simp: login_with_playfab_def Let_def split: prod.splits)

lemma playfab_identity_kept:
  "playfab_identity_locked live_valid now sv s = (s', r) \<Longrightarrow> as_mc s' = as_mc s"
  by (auto simp: playfab_identity_locked_def split: option.splits if_splits prod.splits
      dest: login_with_playfab_result)

lemma obtain_mc_token_kept:
  "obtain_mc_token live_valid now sv s = (s', r) \<Longrightarrow>
   (case r of Returns t \<Rightarrow> as_mc s' = Some t \<and> (\<exists>ticket. sv_mc sv ticket = Some t) | _ \<Rightarrow> as_mc s' = as_mc s)"
  by (auto simp: obtain_mc_token_def Let_def split: prod.splits outcome.splits option.splits
      dest: playfab_identity_kept)

lemma obtain_panics:
  assumes "login_contract sv"
  shows "snd (obtain_mc_token live_valid now sv s) = Panics \<longleftrightarrow> as_playfab s = None"
proof (cases "as_playfab s")
  case None
  then show ?thesis by (simp add: obtain_mc_token_def playfab_identity_locked_def)
next
  case (Some p)
  obtain s1 ok where l: "login_with_playfab live_valid sv s = (s1, ok)" by (cases "login_with_playfab live_valid sv s")
  from login_with_playfab_result [OF l] assms have "ok \<Longrightarrow> as_playfab s1 \<noteq> None"
    by (auto simp: login_contract_def)
  with Some l show ?thesis
    by (auto simp: obtain_mc_token_def playfab_identity_locked_def Let_def split: option.splits)
qed

lemma obtain_returns:
  assumes "obtain_mc_token live_valid now sv s = (s', Returns t)"
  shows "as_playfab s' \<noteq> None \<and> as_mc s' = Some t \<and> (\<exists>ticket. sv_mc sv ticket = Some t)"
proof -
  obtain s1 p where p: "playfab_identity_locked live_valid now sv s = (s1, Returns (Some p))"
    "sv_mc sv (pi_ticket p) = Some t" "as_playfab s' = as_playfab s1"
    using assms by (auto simp: obtain_mc_token_def Let_def split: prod.splits outcome.splits option.splits)
  from p(1) have "as_playfab s1 = Some p"
    by (auto simp: playfab_identity_locked_def Let_def split: option.splits if_splits prod.splits)
  with p(3) obtain_mc_token_kept [OF assms] show ?thesis by simp
qed

lemma session_login_returns:
  assumes "session_login live_valid now sv s = (s', Returns u)"
  shows "\<exists>s1 t. obtain_mc_token live_valid now sv s1 = (s', Returns t)"
proof -
  obtain s1 tok where one: "token_locked live_valid sv s = (s1, tok)" by (cases "token_locked live_valid sv s")
  obtain s2 ok where two: "login_with_playfab live_valid sv (s1\<lparr>as_ready := True\<rparr>) = (s2, ok)"
    by (cases "login_with_playfab live_valid sv (s1\<lparr>as_ready := True\<rparr>)")
  obtain s3 r where three: "obtain_mc_token live_valid now sv s2 = (s3, r)" by (cases "obtain_mc_token live_valid now sv s2")
  have "s3 = s' \<and> (\<exists>t. r = Returns t)"
    using assms unfolding session_login_def one two Let_def prod.case
    by (simp add: three split: if_splits outcome.splits)
  with three show ?thesis by blast
qed

lemma logged_in_session:
  assumes "session_from_token_source live_valid now sv = Returns s"
  shows "as_playfab s \<noteq> None \<and> as_mc s \<noteq> None"
proof -
  have "\<exists>u. session_login live_valid now sv no_session = (s, Returns u)"
    using assms by (auto simp: session_from_token_source_def split: prod.splits outcome.splits)
  then show ?thesis using session_login_returns obtain_returns by blast
qed

text \<open>While every \<open>Login\<close> so far succeeded, the identity is there.\<close>

definition session_inv :: "auth_session \<Rightarrow> bool" where
  "session_inv s \<longleftrightarrow> as_playfab s \<noteq> None"

definition no_login_failure :: "services \<Rightarrow> bool" where
  "no_login_failure sv \<longleftrightarrow> login_contract sv \<and> \<not> snd (sv_login sv)"

lemma obtain_keeps_inv:
  assumes "no_login_failure sv" "session_inv s" "obtain_mc_token live_valid now sv s = (s', r)"
  shows "session_inv s' \<and> r \<noteq> Panics"
proof -
  obtain s1 q where q: "playfab_identity_locked live_valid now sv s = (s1, q)"
    by (cases "playfab_identity_locked live_valid now sv s")
  obtain s2 ok where l: "login_with_playfab live_valid sv s = (s2, ok)" by (cases "login_with_playfab live_valid sv s")
  have "as_playfab s2 \<noteq> None" using login_with_playfab_result [OF l] assms(1)
    by (simp add: no_login_failure_def login_contract_def)
  then have "as_playfab s1 \<noteq> None"
    using q l assms(2)
    by (auto simp: playfab_identity_locked_def session_inv_def Let_def split: option.splits if_splits)
  moreover have "r \<noteq> Panics"
    using obtain_panics [of sv live_valid now s] assms by (simp add: no_login_failure_def session_inv_def)
  moreover have "as_playfab s' = as_playfab s1"
    using assms(3) q by (auto simp: obtain_mc_token_def Let_def split: outcome.splits option.splits)
  ultimately show ?thesis by (simp add: session_inv_def)
qed

lemma token_do_inv:
  assumes "no_login_failure sv" "session_inv s" "token_do live_valid (now, sv, c) s = (s', r)"
  shows "session_inv s' \<and> r \<noteq> Panics"
proof (cases c)
  case GetMcToken
  with assms obtain_keeps_inv [OF assms(1,2), of live_valid now s' r] show ?thesis
    by (auto simp: mc_token_def split: option.splits if_splits)
next
  case ForceRefresh
  with assms obtain_keeps_inv [OF assms(1,2), of live_valid now s' r] show ?thesis
    by (simp add: force_refresh_mc_token_def)
next
  case GetLive
  with assms show ?thesis by (auto simp: session_inv_def)
qed

section \<open>Properties\<close>

text \<open>
  A cached Minecraft token is handed out only while it has at least a minute left; otherwise
  the token is the service's fresh answer, and it is cached.
\<close>

theorem mc_token_not_expired:
  assumes "mc_token live_valid now sv s = (s', Returns t)"
  shows "as_mc s' = Some t \<and>
    (s' = s \<and> now + minute \<le> mt_valid_until t \<or> (\<exists>ticket. sv_mc sv ticket = Some t))"
proof -
  consider "as_mc s = Some t" "\<not> past_expiration_time now (mt_valid_until t)" "s' = s"
    | "obtain_mc_token live_valid now sv s = (s', Returns t)"
    using assms by (auto simp: mc_token_def split: option.splits if_splits)
  then show ?thesis
    by cases (use obtain_returns in \<open>auto simp: past_expiration_time_def expiration_time_delta_def\<close>)
qed

definition example_services :: services where
  "example_services =
     \<lparr>sv_live = Some \<lparr>lt_access = ''l'', lt_expiry = 100\<rparr>, sv_discovery = True, sv_login_asks = True,
      sv_login = (Some \<lparr>pi_ticket = ''p'', pi_expiration = hour\<rparr>, False),
      sv_mc = (\<lambda>ticket. Some \<lparr>mt_header = ticket, mt_valid_until = 4 * hour\<rparr>)\<rparr>"

lemma example_login:
  "session_from_token_source (\<lambda>t. True) 0 example_services =
     Returns \<lparr>as_tok = Some \<lparr>lt_access = ''l'', lt_expiry = 100\<rparr>,
       as_playfab = Some \<lparr>pi_ticket = ''p'', pi_expiration = hour\<rparr>,
       as_mc = Some \<lparr>mt_header = ''p'', mt_valid_until = 4 * hour\<rparr>, as_user_token = ''p'', as_ready = True\<rparr>"
  by (simp add: session_from_token_source_def session_login_def token_op_defs token_locked_def no_session_def
      example_services_def past_expiration_time_def expiration_time_delta_def hour_def minute_def second_def)

theorem mc_token_not_expired_witness:
  "\<exists>s t. session_from_token_source (\<lambda>t. True) 0 example_services = Returns s \<and>
    mc_token (\<lambda>t. True) hour example_services s = (s, Returns t) \<and> hour + minute \<le> mt_valid_until t"
proof -
  let ?s = "\<lparr>as_tok = Some \<lparr>lt_access = ''l'', lt_expiry = 100\<rparr>,
    as_playfab = Some \<lparr>pi_ticket = ''p'', pi_expiration = hour\<rparr>,
    as_mc = Some \<lparr>mt_header = ''p'', mt_valid_until = 4 * hour\<rparr>, as_user_token = ''p'', as_ready = True\<rparr>"
  have m: "mc_token (\<lambda>t. True) hour example_services ?s = (?s, Returns \<lparr>mt_header = ''p'', mt_valid_until = 4 * hour\<rparr>)"
    by (simp add: mc_token_def past_expiration_time_def expiration_time_delta_def hour_def minute_def second_def)
  from mc_token_not_expired [OF m] have "hour + minute \<le> 4 * hour"
    by (simp add: hour_def minute_def second_def)
  with example_login m show ?thesis by auto
qed

text \<open>
  C37: as long as every PlayFab login succeeds, no request for a token panics, in any order of
  requests after the first login.
\<close>

theorem tokens_never_panic:
  assumes "session_from_token_source live_valid now0 sv0 = Returns s"
    and "list_all (\<lambda>(now, sv, c). no_login_failure sv) cs" "no_login_failure sv"
  shows "snd (token_do live_valid (now, sv, c) (foldl (token_step live_valid) s cs)) \<noteq> Panics"
proof -
  have "session_inv s" using logged_in_session [OF assms(1)] by (simp add: session_inv_def)
  then have "session_inv (foldl (token_step live_valid) s cs)"
    using assms(2)
  proof (induction cs arbitrary: s)
    case (Cons c cs)
    obtain now sv c' where [simp]: "c = (now, sv, c')" by (cases c)
    have "session_inv (token_step live_valid s c)"
      using token_do_inv [of sv s live_valid now c'] Cons.prems
      by (cases "token_do live_valid c s") (simp add: token_step_def)
    with Cons show ?case by simp
  qed simp
  from token_do_inv [OF assms(3) this, of live_valid now c] show ?thesis
    by (cases "token_do live_valid (now, sv, c) (foldl (token_step live_valid) s cs)") simp
qed

theorem tokens_never_panic_witness:
  "\<exists>s. session_from_token_source (\<lambda>t. True) 0 example_services = Returns s \<and>
    snd (token_do (\<lambda>t. True) (2 * hour, example_services, ForceRefresh)
      (foldl (token_step (\<lambda>t. True)) s [(hour, example_services, GetMcToken)])) \<noteq> Panics"
proof -
  have "no_login_failure example_services"
    by (simp add: no_login_failure_def login_contract_def example_services_def)
  with tokens_never_panic [OF example_login, of "[(hour, example_services, GetMcToken)]" example_services "2 * hour" ForceRefresh]
  show ?thesis using example_login by auto
qed

text \<open>
  A PlayFab login that fails with a nil identity makes the next forced refresh panic, whatever
  the services would answer by then: the nil identity overwrote the old one.
\<close>

theorem failed_login_then_panic:
  assumes "as_playfab s = Some p" "past_expiration_time now (pi_expiration p)"
    and "sv_login sv = (None, True)"
  shows "\<exists>s'. force_refresh_mc_token live_valid now sv s = (s', Fails) \<and>
    snd (force_refresh_mc_token live_valid now' sv' s') = Panics"
proof -
  obtain s1 where l: "login_with_playfab live_valid sv s = (s1, False)"
    using assms(3) by (auto simp: login_with_playfab_def Let_def)
  with assms have "force_refresh_mc_token live_valid now sv s = (s1, Fails)"
    by (simp add: force_refresh_mc_token_def obtain_mc_token_def playfab_identity_locked_def)
  moreover have "as_playfab s1 = None" using login_with_playfab_result [OF l] assms(3) by simp
  then have "snd (force_refresh_mc_token live_valid now' sv' s1) = Panics"
    by (simp add: force_refresh_mc_token_def obtain_mc_token_def playfab_identity_locked_def)
  ultimately show ?thesis by blast
qed

theorem failed_login_then_panic_witness:
  "\<exists>s s'. session_from_token_source (\<lambda>t. True) 0 example_services = Returns s \<and>
    force_refresh_mc_token (\<lambda>t. True) hour (example_services\<lparr>sv_login := (None, True)\<rparr>) s = (s', Fails) \<and>
    snd (force_refresh_mc_token (\<lambda>t. True) hour example_services s') = Panics"
proof -
  let ?s = "\<lparr>as_tok = Some \<lparr>lt_access = ''l'', lt_expiry = 100\<rparr>,
       as_playfab = Some \<lparr>pi_ticket = ''p'', pi_expiration = hour\<rparr>,
       as_mc = Some \<lparr>mt_header = ''p'', mt_valid_until = 4 * hour\<rparr>, as_user_token = ''p'', as_ready = True\<rparr>"
  have "past_expiration_time hour (pi_expiration \<lparr>pi_ticket = ''p'', pi_expiration = hour\<rparr>)"
    by (simp add: past_expiration_time_def expiration_time_delta_def minute_def second_def)
  from failed_login_then_panic [of ?s, OF _ this, of "example_services\<lparr>sv_login := (None, True)\<rparr>" "\<lambda>t. True" hour example_services]
  show ?thesis using example_login by auto
qed

end

