(* ===== verification/Ws_Signaling.thy ===== *)
theory Ws_Signaling
  imports Broker Session_Tokens
begin

text \<open>
  \<open>signaling/conn.go\<close> and \<open>signaling/dial.go\<close>: the websocket signaling connection. Decoding is an
  argument: \<open>parse_signal\<close> is \<open>Signal.UnmarshalText\<close>, \<open>parse_credentials\<close> the decoding of the
  credentials' JSON. The channel of signals is the list of what its reader is given.
\<close>

section \<open>State\<close>

record ws_message =
  wm_type :: "32 word"
  wm_from :: string
  wm_to :: string
  wm_data :: string

definition message_type_request_ping :: "32 word" where "message_type_request_ping = 0"
definition message_type_signal :: "32 word" where "message_type_signal = 1"
definition message_type_credentials :: "32 word" where "message_type_credentials = 2"

record 'c ws_conn =
  wc_network_id :: string
  wc_credentials :: "'c option"
  wc_ready :: bool
  wc_closed :: bool

definition dial_ws :: "(nat \<Rightarrow> string) \<Rightarrow> nat \<Rightarrow> string \<Rightarrow> 'c ws_conn" where
  "dial_ws show_id minted network_id =
     \<lparr>wc_network_id = (if network_id = '''' then show_id minted else network_id),
      wc_credentials = None, wc_ready = False, wc_closed = False\<rparr>"

section \<open>Operations\<close>

text \<open>
  One iteration of \<open>read\<close>: the signals given to the reader. Closing the ready channel a second
  time panics.
\<close>

definition read_message ::
  "(string \<Rightarrow> signal option) \<Rightarrow> (string \<Rightarrow> 'c option) \<Rightarrow> ws_message \<Rightarrow> 'c ws_conn \<Rightarrow>
   ('c ws_conn \<times> signal list) outcome" where
  "read_message parse_signal parse_credentials m c =
     (if wm_type m = message_type_credentials then
        (if wm_from m \<noteq> ''Server'' then Returns (c, [])
         else (case parse_credentials (wm_data m) of
                 None \<Rightarrow> Returns (c, [])
               | Some cr \<Rightarrow>
                   (let c = c\<lparr>wc_credentials := Some cr\<rparr>
                    in if wc_ready c then Panics else Returns (c\<lparr>wc_ready := True\<rparr>, []))))
      else if wm_type m = message_type_signal then
        (case parse_signal (wm_data m) of
           None \<Rightarrow> Returns (c, [])
         | Some sg \<Rightarrow> Returns (c, [sg\<lparr>sig_network_id := wm_from m\<rparr>]))
      else Returns (c, []))"

fun read_messages ::
  "(string \<Rightarrow> signal option) \<Rightarrow> (string \<Rightarrow> 'c option) \<Rightarrow> ws_message list \<Rightarrow> 'c ws_conn \<Rightarrow>
   ('c ws_conn \<times> signal list) outcome" where
  "read_messages parse_signal parse_credentials [] c = Returns (c, [])"
| "read_messages parse_signal parse_credentials (m # ms) c =
     (case read_message parse_signal parse_credentials m c of
        Panics \<Rightarrow> Panics
      | Fails \<Rightarrow> Fails
      | Returns (c, sgs) \<Rightarrow>
          (case read_messages parse_signal parse_credentials ms c of
             Panics \<Rightarrow> Panics
           | Fails \<Rightarrow> Fails
           | Returns (c, sgs') \<Rightarrow> Returns (c, sgs @ sgs')))"

text \<open>\<open>Signal\<close>: the message that is written; \<open>show_signal\<close> is \<open>Signal.String\<close>.\<close>

definition ws_signal :: "(signal \<Rightarrow> string) \<Rightarrow> signal \<Rightarrow> ws_message" where
  "ws_signal show_signal sg =
     \<lparr>wm_type = message_type_signal, wm_from = '''', wm_to = sig_network_id sg, wm_data = show_signal sg\<rparr>"

definition ws_ping :: ws_message where
  "ws_ping = \<lparr>wm_type = message_type_request_ping, wm_from = '''', wm_to = '''', wm_data = ''''\<rparr>"

text \<open>\<open>Credentials\<close>, once one of its two channels is ready; \<open>None\<close> while it waits.\<close>

definition ws_credentials :: "'c ws_conn \<Rightarrow> 'c option outcome option" where
  "ws_credentials c =
     (if wc_closed c then Some Fails else if wc_ready c then Some (Returns (wc_credentials c)) else None)"

definition close_ws :: "'c ws_conn \<Rightarrow> 'c ws_conn" where
  "close_ws c = c\<lparr>wc_closed := True\<rparr>"

section \<open>Lemmas\<close>

definition credentials_message :: "(string \<Rightarrow> 'c option) \<Rightarrow> ws_message \<Rightarrow> bool" where
  "credentials_message parse_credentials m \<longleftrightarrow>
     wm_type m = message_type_credentials \<and> wm_from m = ''Server'' \<and> parse_credentials (wm_data m) \<noteq> None"

definition signal_of :: "(string \<Rightarrow> signal option) \<Rightarrow> ws_message \<Rightarrow> signal list" where
  "signal_of parse_signal m =
     (if wm_type m = message_type_signal
      then (case parse_signal (wm_data m) of None \<Rightarrow> [] | Some sg \<Rightarrow> [sg\<lparr>sig_network_id := wm_from m\<rparr>])
      else [])"

lemma read_message_eq:
  "read_message parse_signal parse_credentials m c =
     (if credentials_message parse_credentials m
      then (if wc_ready c then Panics
            else Returns (c\<lparr>wc_credentials := parse_credentials (wm_data m), wc_ready := True\<rparr>, []))
      else Returns (c, signal_of parse_signal m))"
  by (auto simp: read_message_def credentials_message_def signal_of_def message_type_signal_def
      message_type_credentials_def Let_def split: option.split)

lemma read_messages_eq:
  "read_messages parse_signal parse_credentials ms c =
     (let cs = filter (credentials_message parse_credentials) ms
      in if length cs + (if wc_ready c then 1 else 0) \<ge> 2 \<and> cs \<noteq> [] then Panics
         else Returns
           (if cs = [] then c
            else c\<lparr>wc_credentials := parse_credentials (wm_data (hd cs)), wc_ready := True\<rparr>,
            concat (map (signal_of parse_signal) ms)))"
proof (induction ms arbitrary: c)
  case (Cons m ms)
  have quiet: "signal_of parse_signal m = []" if "credentials_message parse_credentials m"
    using that by (simp add: credentials_message_def signal_of_def message_type_signal_def message_type_credentials_def)
  show ?case
    by (auto simp: read_message_eq Cons.IH Let_def quiet Suc_le_eq)
qed simp

section \<open>Properties\<close>

text \<open>
  A run of messages delivers every signal that decodes, in order and under the id of its
  sender, and opens the connection with the first credentials of the server; credentials from
  anyone else change nothing. A second message of valid credentials makes the reader panic.
\<close>

theorem signals_in_order_or_panic:
  "read_messages parse_signal parse_credentials ms (dial_ws show_id minted network_id) =
     (let cs = filter (credentials_message parse_credentials) ms
      in if length cs \<ge> 2 then Panics
         else Returns
           ((dial_ws show_id minted network_id)
              \<lparr>wc_credentials := (if cs = [] then None else parse_credentials (wm_data (hd cs))),
               wc_ready := (cs \<noteq> [])\<rparr>,
            concat (map (signal_of parse_signal) ms)))"
  unfolding read_messages_eq Let_def by (auto simp: dial_ws_def)

end
