(* ===== verification/Messaging_Conn.thy ===== *)
theory Messaging_Conn
  imports Broker
begin

text \<open>
  \<open>messaging/conn.go\<close>: the JSON-RPC signaling connection. Candidates that come before the
  description of their connection are held in a \<open>pendingStore\<close> and released after it. The
  channel \<open>signals\<close> is what the operations return: the signals that reach the reader, in order.
\<close>

section \<open>Candidates before their description\<close>

record pending_store =
  ps_pending :: "signal list"
  ps_described :: bool
  ps_last_activity :: instant

type_synonym stores = "64 word \<rightharpoonup> pending_store"

definition try_send :: "instant \<Rightarrow> signal \<Rightarrow> pending_store \<Rightarrow> pending_store \<times> signal list" where
  "try_send now s p =
     (let p = p\<lparr>ps_last_activity := now\<rparr>
      in if sig_type s = SigOffer \<or> sig_type s = SigAnswer
         then (p\<lparr>ps_described := True, ps_pending := []\<rparr>, s # ps_pending p)
         else if ps_described p \<or> sig_type s \<noteq> SigCandidate then (p, [s])
         else (p\<lparr>ps_pending := ps_pending p @ [s]\<rparr>, []))"

definition stored :: "instant \<Rightarrow> 64 word \<Rightarrow> stores \<Rightarrow> pending_store" where
  "stored now cid m =
     (case m cid of None \<Rightarrow> \<lparr>ps_pending = [], ps_described = False, ps_last_activity = now\<rparr> | Some p \<Rightarrow> p)"

definition receive_signal :: "instant \<Rightarrow> signal \<Rightarrow> stores \<Rightarrow> stores \<times> signal list" where
  "receive_signal now s m =
     (if sig_type s = SigCandidate \<or> sig_type s = SigOffer \<or> sig_type s = SigAnswer
      then (let (p, out) = try_send now s (stored now (sig_connection_id s) m)
            in (m(sig_connection_id s \<mapsto> p), out))
      else (m, [s]))"

text \<open>One tick of \<open>pendingStoreTicker\<close>.\<close>

definition store_tick :: "instant \<Rightarrow> stores \<Rightarrow> stores" where
  "store_tick now m =
     (\<lambda>cid. case m cid of
        None \<Rightarrow> None
      | Some p \<Rightarrow> if time_sub now (ps_last_activity p) > 30 * second then None else Some p)"

section \<open>Inbound messages\<close>

text \<open>
  What the JSON of one \<open>Signaling_ReceiveMessage_v1_0\<close> holds: outer and inner parameters that do
  not parse, no inner request, a signal with the sender's NetherNet id and its text, or another
  inner method. \<open>parse_signal\<close> is \<open>Signal.UnmarshalText\<close>.
\<close>

datatype inbound =
    BadParams | BadInner | NoInner | BadInnerParams | WebRtc string string | DeliveryNotice | OtherInner | OtherMethod

definition handle_callback ::
  "(string \<Rightarrow> signal option) \<Rightarrow> instant \<Rightarrow> string \<Rightarrow> inbound \<Rightarrow> stores \<Rightarrow> stores \<times> signal list \<times> bool" where
  "handle_callback parse_signal now sender msg m =
     (case msg of
        WebRtc nether_id text \<Rightarrow>
          (if nether_id = '''' \<or> text = '''' then (m, [], False)
           else (case parse_signal text of
                   None \<Rightarrow> (m, [], False)
                 | Some s \<Rightarrow>
                     (let (m, out) = receive_signal now (s\<lparr>sig_network_id := sender\<rparr>) m in (m, out, True))))
      | _ \<Rightarrow> (m, [], False))"

section \<open>Credentials and ids\<close>

record turn_credentials =
  tc_expiration :: nat
  tc_secret :: string

record msg_conn =
  mc_local_id :: string
  mc_nether_id :: string
  mc_credentials :: "turn_credentials option"
  mc_credentials_time :: instant

definition outbound_nether_id :: "msg_conn \<Rightarrow> string" where
  "outbound_nether_id c = (if mc_nether_id c \<noteq> '''' then mc_nether_id c else mc_local_id c)"

definition set_nether_id :: "string \<Rightarrow> msg_conn \<Rightarrow> msg_conn" where
  "set_nether_id i c = c\<lparr>mc_nether_id := i\<rparr>"

datatype turn_answer = CallFailed | CallResult "turn_credentials option"

text \<open>
  \<open>Credentials\<close>: the cached ones until they expire, else those of the call; the flag says whether
  the service was called. \<open>now'\<close> is the clock after the call.
\<close>

definition credentials ::
  "instant \<Rightarrow> instant \<Rightarrow> turn_answer \<Rightarrow> msg_conn \<Rightarrow> msg_conn \<times> turn_credentials option \<times> bool" where
  "credentials now now' answer c =
     (let cached = (case mc_credentials c of
                      None \<Rightarrow> None
                    | Some k \<Rightarrow>
                        if now < mc_credentials_time c + wrap64 (second * int (tc_expiration k)) then Some k else None)
      in case cached of
           Some k \<Rightarrow> (c, Some k, False)
         | None \<Rightarrow>
             (case answer of
                CallFailed \<Rightarrow> (c, None, True)
              | CallResult None \<Rightarrow> (c, None, True)
              | CallResult (Some k) \<Rightarrow>
                  (if tc_expiration k = 0 then (c, None, True)
                   else (c\<lparr>mc_credentials := Some k, mc_credentials_time := now'\<rparr>, Some k, True))))"

section \<open>Runs\<close>

datatype msg_event = Received instant signal | Tick instant

fun msg_do :: "msg_event \<Rightarrow> stores \<Rightarrow> stores \<times> signal list" where
  "msg_do (Received now s) m = receive_signal now s m"
| "msg_do (Tick now) m = (store_tick now m, [])"

fun msg_run :: "msg_event list \<Rightarrow> stores \<Rightarrow> stores \<times> signal list" where
  "msg_run [] m = (m, [])"
| "msg_run (e # es) m = (let (m, out) = msg_do e m; (m, rest) = msg_run es m in (m, out @ rest))"

definition description :: "64 word \<Rightarrow> signal \<Rightarrow> bool" where
  "description cid s \<longleftrightarrow> sig_connection_id s = cid \<and> (sig_type s = SigOffer \<or> sig_type s = SigAnswer)"

definition candidate :: "64 word \<Rightarrow> signal \<Rightarrow> bool" where
  "candidate cid s \<longleftrightarrow> sig_connection_id s = cid \<and> sig_type s = SigCandidate"

definition store_described :: "64 word \<Rightarrow> stores \<Rightarrow> bool" where
  "store_described cid m \<longleftrightarrow> (case m cid of None \<Rightarrow> False | Some p \<Rightarrow> ps_described p)"

definition store_waiting :: "64 word \<Rightarrow> stores \<Rightarrow> signal list" where
  "store_waiting cid m = (case m cid of None \<Rightarrow> [] | Some p \<Rightarrow> ps_pending p)"

text \<open>A described store holds nothing back, and a store holds candidates of its own connection.\<close>

definition stores_inv :: "stores \<Rightarrow> bool" where
  "stores_inv m \<longleftrightarrow>
     (\<forall>cid p. m cid = Some p \<longrightarrow> (ps_described p \<longrightarrow> ps_pending p = []) \<and> list_all (candidate cid) (ps_pending p))"

lemma receive_signal_inv: "stores_inv m \<Longrightarrow> stores_inv (fst (receive_signal now s m))"
  by (auto simp: receive_signal_def try_send_def stores_inv_def stored_def candidate_def Let_def split: option.splits)

lemma store_tick_inv: "stores_inv m \<Longrightarrow> stores_inv (store_tick now m)"
  by (auto simp: store_tick_def stores_inv_def split: option.splits if_splits)

lemma msg_do_inv: "stores_inv m \<Longrightarrow> stores_inv (fst (msg_do e m))"
  by (cases e) (simp_all add: receive_signal_inv store_tick_inv)

interpretation msg_machine: invariant_machine "\<lambda>m e. fst (msg_do e m)" stores_inv
  by unfold_locales (rule msg_do_inv)

text \<open>No candidate is delivered before a description of its connection.\<close>

fun in_order :: "64 word \<Rightarrow> bool \<Rightarrow> signal list \<Rightarrow> bool" where
  "in_order cid described [] = True"
| "in_order cid described (s # out) =
     ((candidate cid s \<longrightarrow> described) \<and> in_order cid (described \<or> description cid s) out)"

lemma in_order_True [simp]: "in_order cid True out"
  by (induction out) simp_all

lemma in_order_append:
  "in_order cid d (xs @ ys) \<longleftrightarrow> in_order cid d xs \<and> in_order cid (d \<or> (\<exists>s \<in> set xs. description cid s)) ys"
  by (induction xs arbitrary: d) (auto simp: disj_assoc)

lemma in_order_none: "(\<And>s. s \<in> set out \<Longrightarrow> \<not> candidate cid s) \<Longrightarrow> in_order cid d out"
  by (induction out arbitrary: d) auto

lemma receive_in_order:
  assumes "stores_inv m" "store_described cid m \<longrightarrow> d"
  shows "in_order cid d (snd (receive_signal now s m)) \<and>
    (store_described cid (fst (receive_signal now s m)) \<longrightarrow>
       d \<or> (\<exists>t \<in> set (snd (receive_signal now s m)). description cid t))"
proof (cases "sig_connection_id s = cid")
  case True
  then show ?thesis
    using assms
    by (auto simp: receive_signal_def try_send_def stored_def store_described_def Let_def
        description_def candidate_def split: option.splits if_splits)
next
  case False
  have "list_all (candidate (sig_connection_id s)) (ps_pending (stored now (sig_connection_id s) m))"
    using assms(1) by (auto simp: stored_def stores_inv_def split: option.split)
  then have "\<not> candidate cid t" if "t \<in> set (snd (receive_signal now s m))" for t
    using that False
    by (auto simp: receive_signal_def try_send_def Let_def candidate_def list_all_iff split: if_splits)
  moreover have "store_described cid (fst (receive_signal now s m)) = store_described cid m"
    using False by (simp add: receive_signal_def store_described_def Let_def case_prod_beta)
  ultimately show ?thesis using assms(2) by (auto intro: in_order_none)
qed

lemma msg_run_in_order:
  "stores_inv m \<Longrightarrow> store_described cid m \<longrightarrow> d \<Longrightarrow> in_order cid d (snd (msg_run es m))"
proof (induction es arbitrary: m d)
  case Nil
  then show ?case by simp
next
  case (Cons e es)
  let ?m = "fst (msg_do e m)" and ?out = "snd (msg_do e m)"
  have step: "in_order cid d ?out \<and> (store_described cid ?m \<longrightarrow> d \<or> (\<exists>t \<in> set ?out. description cid t))"
  proof (cases e)
    case (Received now s)
    then show ?thesis using receive_in_order [OF Cons.prems] by simp
  next
    case (Tick now)
    then show ?thesis using Cons.prems(2)
      by (auto simp: store_described_def store_tick_def split: option.splits if_splits)
  qed
  have "in_order cid (d \<or> (\<exists>t \<in> set ?out. description cid t)) (snd (msg_run es ?m))"
    using step by (intro Cons.IH msg_do_inv Cons.prems(1)) blast
  with step show ?case by (simp add: case_prod_beta Let_def in_order_append)
qed

text \<open>Without a tick no candidate is lost or reordered.\<close>

lemma receive_conserves:
  assumes "stores_inv m"
  shows "filter (candidate cid) (snd (receive_signal now s m)) @ store_waiting cid (fst (receive_signal now s m)) =
    store_waiting cid m @ filter (candidate cid) [s]"
proof (cases "sig_connection_id s = cid")
  case True
  have c: "filter (candidate cid) (ps_pending p) = ps_pending p" if "m cid = Some p" for p
    using assms that by (auto simp: stores_inv_def list_all_iff filter_id_conv)
  have d: "ps_pending p = []" if "m cid = Some p" "ps_described p" for p
    using assms that by (auto simp: stores_inv_def)
  show ?thesis
    using True c d
    by (cases "sig_type s"; cases "m cid")
      (auto simp: receive_signal_def try_send_def stored_def store_waiting_def Let_def candidate_def)
next
  case False
  have "list_all (candidate (sig_connection_id s)) (ps_pending (stored now (sig_connection_id s) m))"
    using assms(1) by (auto simp: stored_def stores_inv_def split: option.split)
  then have "filter (candidate cid) (snd (receive_signal now s m)) = []"
    using False
    by (auto simp: receive_signal_def try_send_def Let_def candidate_def list_all_iff filter_empty_conv split: if_splits)
  with False show ?thesis
    by (simp add: receive_signal_def store_waiting_def Let_def case_prod_beta candidate_def)
qed

lemma run_conserves:
  "stores_inv m \<Longrightarrow>
   filter (candidate cid) (snd (msg_run (map (\<lambda>(t, s). Received t s) es) m)) @
     store_waiting cid (fst (msg_run (map (\<lambda>(t, s). Received t s) es) m)) =
   store_waiting cid m @ filter (candidate cid) (map snd es)"
proof (induction es arbitrary: m)
  case Nil
  then show ?case by simp
next
  case (Cons e es)
  obtain t s where [simp]: "e = (t, s)" by (cases e)
  show ?case
    using Cons.IH [OF receive_signal_inv [OF Cons.prems, of t s]] receive_conserves [OF Cons.prems, of cid t s]
    by (simp add: case_prod_beta Let_def)
qed

section \<open>Properties\<close>

text \<open>
  Whatever arrives in whatever order, and whenever idle stores are dropped, the reader never
  gets a candidate before a description of the same connection.
\<close>

theorem no_early_candidate:
  assumes "snd (msg_run es Map.empty) = xs @ s # ys" "sig_type s = SigCandidate"
  shows "\<exists>d \<in> set xs. description (sig_connection_id s) d"
proof -
  have "in_order (sig_connection_id s) False (snd (msg_run es Map.empty))"
    by (rule msg_run_in_order) (simp_all add: stores_inv_def store_described_def)
  with assms show ?thesis by (simp add: in_order_append candidate_def)
qed

definition example_msg :: "signal_type \<Rightarrow> string \<Rightarrow> signal" where
  "example_msg t d = \<lparr>sig_type = t, sig_connection_id = 7, sig_data = d, sig_network_id = ''9''\<rparr>"

theorem no_early_candidate_witness:
  "snd (msg_run [Received 0 (example_msg SigCandidate ''c''), Received 1 (example_msg SigOffer ''o'')] Map.empty) =
     [example_msg SigOffer ''o''] @ example_msg SigCandidate ''c'' # [] \<and>
   (\<exists>d \<in> set [example_msg SigOffer ''o'']. description 7 d)"
proof -
  have run: "snd (msg_run [Received 0 (example_msg SigCandidate ''c''), Received 1 (example_msg SigOffer ''o'')] Map.empty) =
     [example_msg SigOffer ''o''] @ example_msg SigCandidate ''c'' # []"
    by (simp add: receive_signal_def try_send_def stored_def example_msg_def Let_def)
  from no_early_candidate [OF run] run show ?thesis by (simp add: example_msg_def)
qed

text \<open>
  While no idle store is dropped, no candidate is lost, repeated or reordered: what the reader
  got of a connection, followed by what is still held back, is what came in.
\<close>

theorem candidates_conserved:
  "filter (candidate cid) (snd (msg_run (map (\<lambda>(t, s). Received t s) es) Map.empty)) @
     store_waiting cid (fst (msg_run (map (\<lambda>(t, s). Received t s) es) Map.empty)) =
   filter (candidate cid) (map snd es)"
  using run_conserves [of Map.empty cid es] by (simp add: stores_inv_def store_waiting_def)

text \<open>
  A connection that is idle for more than thirty seconds when the ticker runs loses the fact
  that its description came: later candidates are held back, however many come, until another
  description arrives.
\<close>

theorem idle_store_forgets_description:
  assumes "m cid = Some p" "time_sub now (ps_last_activity p) > 30 * second"
    and "list_all (\<lambda>(t, s). candidate cid s) es"
  shows "snd (msg_run (Tick now # map (\<lambda>(t, s). Received t s) es) m) = [] \<and>
    store_waiting cid (fst (msg_run (Tick now # map (\<lambda>(t, s). Received t s) es) m)) = map snd es"
proof -
  have held: "snd (msg_run (map (\<lambda>(t, s). Received t s) es) n) = [] \<and>
      store_waiting cid (fst (msg_run (map (\<lambda>(t, s). Received t s) es) n)) = store_waiting cid n @ map snd es"
    if "\<not> store_described cid n" for n
    using that assms(3)
  proof (induction es arbitrary: n)
    case (Cons e es)
    obtain t s where [simp]: "e = (t, s)" by (cases e)
    have r: "snd (receive_signal t s n) = []" "\<not> store_described cid (fst (receive_signal t s n))"
      "store_waiting cid (fst (receive_signal t s n)) = store_waiting cid n @ [s]"
      using Cons.prems
      by (auto simp: receive_signal_def try_send_def stored_def store_described_def store_waiting_def candidate_def
          Let_def split: option.splits)
    from Cons.IH [OF r(2)] Cons.prems(2) r show ?case by (simp add: case_prod_beta Let_def)
  qed simp
  have "store_tick now m cid = None" using assms(1,2) by (simp add: store_tick_def)
  then have "\<not> store_described cid (store_tick now m)" "store_waiting cid (store_tick now m) = []"
    by (simp_all add: store_described_def store_waiting_def)
  with held [of "store_tick now m"] show ?thesis by (simp add: case_prod_beta Let_def)
qed

theorem idle_store_forgets_description_witness:
  "snd (msg_run (Tick (40 * second) # map (\<lambda>(t, s). Received t s) [(41 * second, example_msg SigCandidate ''c'')])
     [7 \<mapsto> \<lparr>ps_pending = [], ps_described = True, ps_last_activity = 0\<rparr>]) = []"
proof -
  let ?m = "[7 \<mapsto> \<lparr>ps_pending = [], ps_described = True, ps_last_activity = 0\<rparr>] :: stores"
  let ?p = "\<lparr>ps_pending = [], ps_described = True, ps_last_activity = 0\<rparr>"
  have "?m 7 = Some ?p" "time_sub (40 * second) (ps_last_activity ?p) > 30 * second"
    "list_all (\<lambda>(t, s). candidate 7 s) [(41 * second, example_msg SigCandidate ''c'')]"
    by (simp_all add: time_sub_def in_int64_def min_int64_def max_int64_def second_def candidate_def example_msg_def)
  then show ?thesis
    using idle_store_forgets_description [of ?m 7 ?p "40 * second" "[(41 * second, example_msg SigCandidate ''c'')]"]
    by blast
qed

end
