(* ===== verification/Friend_Activity.thy ===== *)
theory Friend_Activity
  imports Invite_Queue "HOL-Library.List_Lexorder" "HOL-Library.AList" "HOL-Library.Multiset"
begin

text \<open>
  Package \<open>xbl/friendactivity\<close>: the store of last joins, mirrored to a text file that
  several relay processes share. \<open>Store.records\<close> is an association list with distinct keys
  (the order stands for Go's unspecified map order); one call of an operation is one step, which
  is what the store's mutex gives inside a process. A write is the temp-file-then-rename of
  \<open>writeLocked\<close>: it replaces the file whole or, when \<open>io_ok\<close> is false, leaves it.
\<close>

section \<open>Records and their line format\<close>

record activity =
  act_xuid :: xuid
  display_name :: string
  last_join :: instant

record store =
  records :: "(xuid \<times> activity) list"
  act_file :: file_view

definition sanitize_display_name :: "string \<Rightarrow> string" where
  "sanitize_display_name name = remove_byte CHR '','' name"

definition parse_activity :: "string \<Rightarrow> activity option" where
  "parse_activity line =
     (let fs = split_n CHR '','' 3 line
      in if length fs \<noteq> 3 then None
         else (let x = trim_space (fs ! 0)
               in if x = [] then None
                  else (case parse_int64 (trim_space (fs ! 2)) of
                          None \<Rightarrow> None
                        | Some secs \<Rightarrow>
                            Some \<lparr>act_xuid = x, display_name = fs ! 1, last_join = time_unix secs\<rparr>)))"

definition activity_line :: "activity \<Rightarrow> string" where
  "activity_line r =
     act_xuid r @ '','' @ display_name r @ '','' @ show_int (unix_of (last_join r))"

section \<open>\<open>sortRecords\<close>\<close>

text \<open>
  The two nested loops: element \<open>i\<close> is swapped to the left past every greater key. \<open>sink\<close>
  works on the sorted prefix from its right end.
\<close>

fun sink :: "activity \<Rightarrow> activity list \<Rightarrow> activity list" where
  "sink r [] = [r]"
| "sink r (q # qs) = (if act_xuid q > act_xuid r then q # sink r qs else r # q # qs)"

definition sort_records :: "activity list \<Rightarrow> activity list" where
  "sort_records rs = rev (foldl (\<lambda>acc r. sink r acc) [] rs)"

lemma mset_sink [simp]: "mset (sink r qs) = add_mset r (mset qs)"
  by (induction qs) auto

lemma sorted_sink:
  "sorted (map act_xuid (rev qs)) \<Longrightarrow> sorted (map act_xuid (rev (sink r qs)))"
proof (induction qs)
  case Nil
  then show ?case by simp
next
  case (Cons q qs)
  have set_sink: "set (sink r qs) = insert r (set qs)"
    by (metis mset_sink set_mset_add_mset_insert set_mset_mset)
  show ?case
    using Cons by (auto simp: sorted_append set_sink)
qed

lemma sort_records_fold:
  "mset (foldl (\<lambda>acc r. sink r acc) qs rs) = mset qs + mset rs"
  "sorted (map act_xuid (rev qs)) \<Longrightarrow>
   sorted (map act_xuid (rev (foldl (\<lambda>acc r. sink r acc) qs rs)))"
  by (induction rs arbitrary: qs) (auto simp: sorted_sink simp del: rev_map)

lemma mset_sort_records [simp]: "mset (sort_records rs) = mset rs"
  by (simp add: sort_records_def sort_records_fold)

lemma set_sort_records [simp]: "set (sort_records rs) = set rs"
  by (metis mset_sort_records set_mset_mset)

lemma sorted_sort_records: "sorted (map act_xuid (sort_records rs))"
  unfolding sort_records_def by (rule sort_records_fold(2)) simp

section \<open>The operations of the store\<close>

fun load_lines :: "string list \<Rightarrow> (xuid \<times> activity) list \<Rightarrow> (xuid \<times> activity) list" where
  "load_lines [] m = m"
| "load_lines (l # ls) m =
     (if l = [] then load_lines ls m
      else (case parse_activity l of
              None \<Rightarrow> load_lines ls m
            | Some r \<Rightarrow> load_lines ls (AList.update (act_xuid r) r m)))"

definition open_store :: "file_view \<Rightarrow> store option" where
  "open_store f =
     (case f of
        Missing \<Rightarrow> Some \<lparr>records = [], act_file = f\<rparr>
      | Unreadable \<Rightarrow> None
      | Contents s \<Rightarrow> Some \<lparr>records = load_lines (fst (scan_lines s)) [], act_file = f\<rparr>)"

fun merge_lines :: "string list \<Rightarrow> (xuid \<times> activity) list \<Rightarrow> (xuid \<times> activity) list" where
  "merge_lines [] m = m"
| "merge_lines (l # ls) m =
     (case parse_activity l of
        None \<Rightarrow> merge_lines ls m
      | Some r \<Rightarrow>
          merge_lines ls
            (if (case map_of m (act_xuid r) of None \<Rightarrow> True | Some cur \<Rightarrow> last_join cur < last_join r)
             then AList.update (act_xuid r) r m else m))"

definition merge_from_file :: "store \<Rightarrow> store" where
  "merge_from_file s =
     (case act_file s of
        Contents c \<Rightarrow> s\<lparr>records := merge_lines (fst (scan_lines c)) (records s)\<rparr>
      | _ \<Rightarrow> s)"

definition write_store :: "bool \<Rightarrow> store \<Rightarrow> store" where
  "write_store io_ok s =
     (if io_ok
      then s\<lparr>act_file := Contents (unlines (map activity_line (sort_records (map snd (records s)))))\<rparr>
      else s)"

definition record_join :: "bool \<Rightarrow> instant \<Rightarrow> xuid \<Rightarrow> string \<Rightarrow> store \<Rightarrow> store" where
  "record_join io_ok now x name s =
     (let s = merge_from_file s;
          r = \<lparr>act_xuid = x, display_name = sanitize_display_name name, last_join = now\<rparr>
      in write_store io_ok (s\<lparr>records := AList.update x r (records s)\<rparr>))"

definition store_last_join :: "store \<Rightarrow> xuid \<Rightarrow> instant option" where
  "store_last_join s x = map_option last_join (map_of (records s) x)"

definition stale :: "instant \<Rightarrow> duration \<Rightarrow> store \<Rightarrow> activity list" where
  "stale now window s =
     sort_records (filter (\<lambda>r. last_join r < now + wrap64 (- window)) (map snd (records s)))"

definition forget :: "bool \<Rightarrow> xuid \<Rightarrow> store \<Rightarrow> store" where
  "forget io_ok x s =
     (let s = merge_from_file s
      in if map_of (records s) x = None then s
         else write_store io_ok (s\<lparr>records := AList.delete x (records s)\<rparr>))"

section \<open>Round trip through the file\<close>

definition good_activity :: "activity \<Rightarrow> bool" where
  "good_activity r \<longleftrightarrow>
     good_xuid (act_xuid r) \<and> CHR '','' \<notin> set (display_name r) \<and>
     plain_line (activity_line r) \<and>
     in_int64 (unix_of (last_join r)) \<and> sane_unix (unix_of (last_join r))"

definition whole_seconds :: "activity \<Rightarrow> activity" where
  "whole_seconds r = r\<lparr>last_join := unix_of (last_join r) * second\<rparr>"

lemma split_n_activity:
  "CHR '','' \<notin> set x \<Longrightarrow> CHR '','' \<notin> set n \<Longrightarrow>
   split_n CHR '','' 3 (x @ CHR '','' # n @ CHR '','' # d) = [x, n, d]"
  by (simp add: numeral_3_eq_3)

lemma parse_activity_line:
  assumes "good_activity r"
  shows "parse_activity (activity_line r) = Some (whole_seconds r)"
proof -
  have "split_n CHR '','' 3 (activity_line r) =
      [act_xuid r, display_name r, show_int (unix_of (last_join r))]"
    using assms split_n_activity [of "act_xuid r" "display_name r" "show_int (unix_of (last_join r))"]
    by (simp add: activity_line_def good_activity_def good_xuid_def)
  then show ?thesis
    using assms
    by (simp add: parse_activity_def good_activity_def good_xuid_def whole_seconds_def
        time_unix_sane Let_def)
qed

lemma activity_line_nonempty [simp]: "activity_line r \<noteq> []"
  by (simp add: activity_line_def)

lemma load_lines_lines:
  "list_all good_activity rs \<Longrightarrow>
   load_lines (map activity_line rs) m = foldl (\<lambda>m r. AList.update (act_xuid r) (whole_seconds r) m) m rs"
  by (induction rs arbitrary: m) (auto simp: parse_activity_line whole_seconds_def)

lemma scan_activity_lines:
  "list_all good_activity rs \<Longrightarrow> scan_lines (unlines (map activity_line rs)) = (map activity_line rs, True)"
  by (rule scan_unlines) (auto simp: list_all_iff good_activity_def)

lemma map_of_fold_update:
  "distinct (map act_xuid rs) \<Longrightarrow>
   map_of (foldl (\<lambda>m r. AList.update (act_xuid r) (f r) m) m rs) x =
     (case find (\<lambda>r. act_xuid r = x) rs of Some r \<Rightarrow> Some (f r) | None \<Rightarrow> map_of m x)"
proof (induction rs arbitrary: m)
  case Nil
  then show ?case by simp
next
  case (Cons r rs)
  have "find (\<lambda>q. act_xuid q = act_xuid r) rs = None"
    unfolding find_None_iff using Cons.prems by (auto simp: image_iff)
  with Cons show ?case by (auto simp: update_conv' split: option.splits)
qed

definition good_store :: "(xuid \<times> activity) list \<Rightarrow> bool" where
  "good_store m \<longleftrightarrow>
     distinct (map fst m) \<and> list_all (\<lambda>(x, r). act_xuid r = x \<and> good_activity r) m"

lemma good_store_map_of: "good_store m \<Longrightarrow> map_of m x = Some r \<Longrightarrow> act_xuid r = x \<and> good_activity r"
  by (auto simp: good_store_def list_all_iff dest!: map_of_SomeD)

lemma good_store_keys: "good_store m \<Longrightarrow> map act_xuid (map snd m) = map fst m"
  by (auto simp: good_store_def list_all_iff)

lemma find_sorted_store:
  assumes "good_store m"
  shows "find (\<lambda>r. act_xuid r = x) (sort_records (map snd m)) = map_of m x"
proof (cases "map_of m x")
  case None
  then have "x \<notin> act_xuid ` set (map snd m)"
    using assms by (force simp: map_of_eq_None_iff good_store_def list_all_iff)
  then have "find (\<lambda>r. act_xuid r = x) (sort_records (map snd m)) = None"
    by (force simp: find_None_iff)
  with None show ?thesis by simp
next
  case (Some r)
  then have mem: "r \<in> set (map snd m)" and "act_xuid r = x"
    using assms by (force dest: map_of_SomeD) (use Some assms in \<open>auto dest: good_store_map_of\<close>)
  obtain q where q: "find (\<lambda>r. act_xuid r = x) (sort_records (map snd m)) = Some q"
    using mem \<open>act_xuid r = x\<close>
    by (cases "find (\<lambda>r. act_xuid r = x) (sort_records (map snd m))") (auto simp: find_None_iff)
  then have "act_xuid q = x" "q \<in> set (map snd m)"
    by (auto simp: find_Some_iff) (metis nth_mem set_sort_records list.set_map)
  then have "(x, q) \<in> set m"
    using assms by (auto simp: good_store_def list_all_iff)
  then have "map_of m x = Some q"
    using assms by (simp add: good_store_def)
  with Some q show ?thesis by simp
qed

lemma distinct_sorted_store:
  assumes "good_store m"
  shows "distinct (map act_xuid (sort_records (map snd m)))"
proof -
  have "mset (map act_xuid (sort_records rs)) = mset (map act_xuid rs)" for rs
    by simp
  then show ?thesis
    using assms good_store_keys [OF assms]
    by (metis good_store_def mset_eq_imp_distinct_iff)
qed

lemma good_sorted_store: "good_store m \<Longrightarrow> list_all good_activity (sort_records (map snd m))"
  by (auto simp: good_store_def list_all_iff)

lemma load_written:
  assumes "good_store m"
  shows "map_of (load_lines (map activity_line (sort_records (map snd m))) []) x =
    map_option whole_seconds (map_of m x)"
  using map_of_fold_update [OF distinct_sorted_store [OF assms], of whole_seconds "[]" x]
  by (simp add: load_lines_lines [OF good_sorted_store [OF assms]] find_sorted_store [OF assms]
      split: option.splits)

section \<open>Merging keeps the newer join\<close>

lemma good_whole_seconds: "good_activity r \<Longrightarrow> good_activity (whole_seconds r)"
  by (simp add: good_activity_def whole_seconds_def activity_line_def unix_of_def second_def)

lemma whole_seconds_le: "last_join (whole_seconds r) \<le> last_join r"
  by (simp add: whole_seconds_def unix_of_def second_def)

lemma set_update_sub: "set (AList.update k v al) \<subseteq> insert (k, v) (set al)"
  by (induction al) auto

lemma good_store_update:
  "good_store m \<Longrightarrow> good_activity r \<Longrightarrow> good_store (AList.update (act_xuid r) r m)"
  by (auto simp: good_store_def list_all_iff distinct_update dest!: set_update_sub [THEN subsetD])

lemma merge_lines_good:
  "good_store m \<Longrightarrow> list_all good_activity rs \<Longrightarrow> good_store (merge_lines (map activity_line rs) m)"
proof (induction rs arbitrary: m)
  case Nil
  then show ?case by simp
next
  case (Cons r rs)
  have "good_store (AList.update (act_xuid r) (whole_seconds r) m)"
    using Cons.prems good_store_update [of m "whole_seconds r"] good_whole_seconds
    by (simp add: whole_seconds_def)
  with Cons show ?case by (simp add: parse_activity_line whole_seconds_def)
qed

lemma merge_lines_mem:
  "map_of m x = Some r \<Longrightarrow> \<exists>r'. map_of (merge_lines ls m) x = Some r' \<and> last_join r \<le> last_join r'"
proof (induction ls arbitrary: m r)
  case Nil
  then show ?case by auto
next
  case (Cons l ls)
  show ?case
  proof (cases "parse_activity l")
    case None
    with Cons show ?thesis by simp
  next
    case (Some q)
    let ?m = "if (case map_of m (act_xuid q) of None \<Rightarrow> True | Some cur \<Rightarrow> last_join cur < last_join q)
              then AList.update (act_xuid q) q m else m"
    have "\<exists>r'. map_of ?m x = Some r' \<and> last_join r \<le> last_join r'"
      using Cons.prems by (cases "map_of m (act_xuid q)") (auto simp: update_conv')
    then obtain r' where "map_of ?m x = Some r'" "last_join r \<le> last_join r'"
      by blast
    with Cons.IH [of ?m r'] Some show ?thesis by (auto intro: order_trans)
  qed
qed

lemma merge_lines_file:
  "l \<in> set ls \<Longrightarrow> parse_activity l = Some r \<Longrightarrow>
   \<exists>r'. map_of (merge_lines ls m) (act_xuid r) = Some r' \<and> last_join r \<le> last_join r'"
proof (induction ls arbitrary: m)
  case Nil
  then show ?case by simp
next
  case (Cons k ls)
  show ?case
  proof (cases "l = k")
    case False
    with Cons show ?thesis by (auto split: option.splits)
  next
    case True
    let ?m = "if (case map_of m (act_xuid r) of None \<Rightarrow> True | Some cur \<Rightarrow> last_join cur < last_join r)
              then AList.update (act_xuid r) r m else m"
    have "\<exists>q. map_of ?m (act_xuid r) = Some q \<and> last_join r \<le> last_join q"
      by (cases "map_of m (act_xuid r)") (auto simp: update_conv')
    then obtain q where "map_of ?m (act_xuid r) = Some q" "last_join r \<le> last_join q"
      by blast
    with merge_lines_mem [of ?m "act_xuid r" q ls] True Cons.prems(2) show ?thesis
      by (auto intro: order_trans)
  qed
qed

section \<open>Several processes on one file\<close>

text \<open>What a file shows to a process that opens it.\<close>

definition file_last_join :: "file_view \<Rightarrow> xuid \<Rightarrow> instant option" where
  "file_last_join f x = (case open_store f of None \<Rightarrow> None | Some s \<Rightarrow> store_last_join s x)"

definition good_file :: "file_view \<Rightarrow> bool" where
  "good_file f \<longleftrightarrow> f = Missing \<or>
     (\<exists>m. good_store m \<and> f = Contents (unlines (map activity_line (sort_records (map snd m)))))"

record relays =
  memory :: "nat \<Rightarrow> (xuid \<times> activity) list"
  shared_file :: file_view

definition good_relays :: "relays \<Rightarrow> bool" where
  "good_relays sys \<longleftrightarrow> (\<forall>i. good_store (memory sys i)) \<and> good_file (shared_file sys)"

definition relay_join :: "nat \<times> xuid \<times> string \<times> instant \<Rightarrow> relays \<Rightarrow> relays" where
  "relay_join e sys =
     (case e of (i, x, name, now) \<Rightarrow>
        (let s = record_join True now x name \<lparr>records = memory sys i, act_file = shared_file sys\<rparr>
         in sys\<lparr>memory := (memory sys)(i := records s), shared_file := act_file s\<rparr>))"

definition good_join :: "nat \<times> xuid \<times> string \<times> instant \<Rightarrow> bool" where
  "good_join e = (case e of (i, x, name, now) \<Rightarrow>
     good_activity \<lparr>act_xuid = x, display_name = sanitize_display_name name, last_join = now\<rparr>)"

lemma file_last_join_written:
  "good_store m \<Longrightarrow>
   file_last_join (Contents (unlines (map activity_line (sort_records (map snd m))))) x =
     map_option (\<lambda>r. unix_of (last_join r) * second) (map_of m x)"
  by (cases "map_of m x")
    (simp_all add: file_last_join_def open_store_def store_last_join_def load_written
      scan_activity_lines [OF good_sorted_store] whole_seconds_def)

lemma merge_from_good_file:
  assumes "good_store m" "good_file f"
  shows "good_store (records (merge_from_file \<lparr>records = m, act_file = f\<rparr>))"
    and "file_last_join f x = Some t \<Longrightarrow>
      \<exists>r. map_of (records (merge_from_file \<lparr>records = m, act_file = f\<rparr>)) x = Some r \<and> t \<le> last_join r"
proof -
  consider "f = Missing" | m' where "good_store m'"
    "f = Contents (unlines (map activity_line (sort_records (map snd m'))))"
    using assms(2) by (auto simp: good_file_def)
  note cases = this
  show "good_store (records (merge_from_file \<lparr>records = m, act_file = f\<rparr>))"
    using cases
  proof cases
    case 1
    with assms show ?thesis by (simp add: merge_from_file_def)
  next
    case (2 m')
    then show ?thesis
      using assms merge_lines_good [OF assms(1) good_sorted_store [OF 2(1)]]
      by (simp add: merge_from_file_def scan_activity_lines [OF good_sorted_store])
  qed
  show "\<exists>r. map_of (records (merge_from_file \<lparr>records = m, act_file = f\<rparr>)) x = Some r \<and> t \<le> last_join r"
    if t: "file_last_join f x = Some t"
    using cases
  proof cases
    case 1
    with t show ?thesis by (simp add: file_last_join_def open_store_def store_last_join_def)
  next
    case (2 m')
    then obtain r where r: "map_of m' x = Some r" "t = last_join (whole_seconds r)"
      using t file_last_join_written [OF 2(1), of x] by (auto simp: whole_seconds_def)
    have rx: "act_xuid r = x" "good_activity r"
      using good_store_map_of [OF 2(1) r(1)] by simp_all
    have "activity_line r \<in> set (map activity_line (sort_records (map snd m')))"
      using r(1) by (force dest: map_of_SomeD)
    from merge_lines_file [OF this parse_activity_line [OF rx(2)], of m]
    show ?thesis
      using 2 rx r by (simp add: merge_from_file_def scan_activity_lines [OF good_sorted_store] whole_seconds_def)
  qed
qed

lemma record_join_step:
  assumes "good_store m" "good_file f" "good_join (i, x, name, now)"
  defines "s \<equiv> record_join True now x name \<lparr>records = m, act_file = f\<rparr>"
  shows "good_store (records s)" "good_file (act_file s)"
    and "file_last_join (act_file s) x = Some (unix_of now * second)"
    and "y \<noteq> x \<Longrightarrow> file_last_join f y = Some t \<Longrightarrow>
      \<exists>t' \<ge> unix_of t * second. file_last_join (act_file s) y = Some t'"
proof -
  let ?r = "\<lparr>act_xuid = x, display_name = sanitize_display_name name, last_join = now\<rparr>"
  let ?mm = "records (merge_from_file \<lparr>records = m, act_file = f\<rparr>)"
  let ?m = "AList.update x ?r ?mm"
  have s: "records s = ?m"
    "act_file s = Contents (unlines (map activity_line (sort_records (map snd ?m))))"
    by (simp_all add: s_def record_join_def write_store_def Let_def)
  have "good_store ?mm" by (rule merge_from_good_file(1) [OF assms(1,2)])
  then have g: "good_store ?m"
    using good_store_update [of ?mm ?r] assms(3) by (simp add: good_join_def)
  then show "good_store (records s)" "good_file (act_file s)"
    by (auto simp: s good_file_def)
  show "file_last_join (act_file s) x = Some (unix_of now * second)"
    by (simp add: s file_last_join_written [OF g] update_conv')
  show "\<exists>t' \<ge> unix_of t * second. file_last_join (act_file s) y = Some t'"
    if yx: "y \<noteq> x" and t: "file_last_join f y = Some t"
  proof -
    obtain r where r: "map_of ?mm y = Some r" "t \<le> last_join r"
      using merge_from_good_file(2) [OF assms(1,2) t] by blast
    have "unix_of t \<le> unix_of (last_join r)"
      using r(2) by (simp add: unix_of_def zdiv_mono1)
    then show ?thesis
      using r yx by (auto simp: s file_last_join_written [OF g] update_conv' mult_right_mono)
  qed
qed

lemma unix_of_whole [simp]: "unix_of (n * second) = n"
  by (simp add: unix_of_def second_def)

lemma relay_join_good: "good_relays sys \<Longrightarrow> good_join e \<Longrightarrow> good_relays (relay_join e sys)"
proof -
  assume g: "good_relays sys" and e: "good_join e"
  obtain i x name now where [simp]: "e = (i, x, name, now)" by (cases e)
  have gi: "good_store (memory sys i)" "good_file (shared_file sys)"
    using g by (simp_all add: good_relays_def)
  show ?thesis
    using record_join_step(1,2) [OF gi, of i x name now] e g
    by (auto simp: relay_join_def good_relays_def Let_def)
qed

lemma relay_run_good:
  "good_relays sys \<Longrightarrow> list_all good_join es \<Longrightarrow> good_relays (foldl (\<lambda>sys e. relay_join e sys) sys es)"
  by (induction es arbitrary: sys) (auto simp: relay_join_good)

lemma relay_run_keeps:
  assumes "good_relays sys" "list_all good_join es" "\<forall>e \<in> set es. fst (snd e) \<noteq> y"
    and "file_last_join (shared_file sys) y = Some (n * second)"
  shows "\<exists>t' \<ge> n * second. file_last_join (shared_file (foldl (\<lambda>sys e. relay_join e sys) sys es)) y = Some t'"
  using assms
proof (induction es arbitrary: sys n)
  case Nil
  then show ?case by auto
next
  case (Cons e es)
  obtain i x name now where e: "e = (i, x, name, now)" by (cases e)
  have gi: "good_store (memory sys i)" "good_file (shared_file sys)" "good_join (i, x, name, now)" "y \<noteq> x"
    using Cons.prems e by (auto simp: good_relays_def)
  obtain t where t: "t \<ge> n * second" "file_last_join (shared_file (relay_join e sys)) y = Some t"
    using record_join_step(4) [OF gi(1-3) gi(4) Cons.prems(4)] by (auto simp: relay_join_def e Let_def)
  have gr: "good_relays (relay_join e sys)"
    using Cons.prems by (auto intro: relay_join_good)
  then obtain m' where "good_store m'"
    "shared_file (relay_join e sys) = Contents (unlines (map activity_line (sort_records (map snd m'))))"
    using t(2) by (auto simp: good_relays_def good_file_def file_last_join_def open_store_def store_last_join_def)
  with t(2) obtain k where k: "t = k * second"
    by (auto simp: file_last_join_written)
  obtain t' where t': "t' \<ge> k * second"
    "file_last_join (shared_file (foldl (\<lambda>sys e. relay_join e sys) (relay_join e sys) es)) y = Some t'"
    using Cons.IH [OF gr, of k] Cons.prems t k by auto
  have "n * second \<le> t'" using t(1) k t'(1) by linarith
  with t'(2) show ?case by (intro exI [of _ t']) simp
qed

lemma forget_exact:
  assumes "good_store m" "good_file f"
  defines "s \<equiv> \<lparr>records = m, act_file = f\<rparr>"
  shows "store_last_join (forget True x s) y =
      (if y = x then None else store_last_join (merge_from_file s) y)"
    and "file_last_join (act_file (forget True x s)) x = None"
    and "good_store (records (forget True x s))" "good_file (act_file (forget True x s))"
proof -
  let ?mm = "records (merge_from_file s)"
  have g: "good_store ?mm" unfolding s_def by (rule merge_from_good_file(1) [OF assms(1,2)])
  have f: "act_file (merge_from_file s) = f"
    by (simp add: merge_from_file_def s_def split: file_view.split)
  have unknown: "file_last_join f x = None" if "map_of ?mm x = None"
    using that merge_from_good_file(2) [OF assms(1,2), of x]
    by (cases "file_last_join f x") (auto simp: s_def)
  have d: "good_store (AList.delete x ?mm)"
    using g distinct_delete [of ?mm x] by (auto simp: good_store_def list_all_iff AList.delete_eq)
  show "store_last_join (forget True x s) y = (if y = x then None else store_last_join (merge_from_file s) y)"
    "file_last_join (act_file (forget True x s)) x = None"
    using f unknown d
    by (auto simp: forget_def Let_def store_last_join_def write_store_def delete_conv' file_last_join_written)
  show "good_store (records (forget True x s))" "good_file (act_file (forget True x s))"
    using g d f assms(2) by (auto simp: forget_def Let_def write_store_def good_file_def)
qed

lemma merge_keeps_known:
  "store_last_join s y \<noteq> None \<Longrightarrow> store_last_join (merge_from_file s) y \<noteq> None"
  using merge_lines_mem [of "records s" y]
  by (fastforce simp: store_last_join_def merge_from_file_def split: file_view.split)

lemma merge_lines_new:
  "map_of (merge_lines ls m) x = Some r \<Longrightarrow> map_of m x = None \<Longrightarrow>
   \<exists>l \<in> set ls. \<exists>q. parse_activity l = Some q \<and> act_xuid q = x"
proof (induction ls arbitrary: m)
  case (Cons l ls)
  show ?case
  proof (cases "parse_activity l")
    case None
    with Cons show ?thesis by auto
  next
    case (Some q)
    with Cons show ?thesis by (cases "act_xuid q = x") (auto simp: update_conv' split: if_splits option.splits)
  qed
qed simp

lemma load_lines_new:
  "l \<in> set ls \<Longrightarrow> l \<noteq> [] \<Longrightarrow> parse_activity l = Some q \<Longrightarrow> map_of (load_lines ls m) (act_xuid q) \<noteq> None"
proof (induction ls arbitrary: m)
  case (Cons k ls)
  have keep: "map_of m' x \<noteq> None \<Longrightarrow> map_of (load_lines ls m') x \<noteq> None" for m' x
    by (induction ls arbitrary: m') (auto simp: update_conv' split: option.split)
  show ?case
  proof (cases "l = k")
    case True
    with Cons.prems keep [of "AList.update (act_xuid q) q m" "act_xuid q"] show ?thesis
      by (simp add: update_conv')
  next
    case False
    with Cons show ?thesis by (auto split: option.split)
  qed
qed simp

lemma parse_activity_Nil: "parse_activity [] = None"
  by code_simp

lemma parse_activity_nonempty: "parse_activity l = Some q \<Longrightarrow> l \<noteq> []"
  by (auto simp: parse_activity_Nil)

text \<open>A player that neither memory nor the file knows stays unknown.\<close>

lemma merge_unknown:
  assumes "store_last_join s x = None" "file_last_join (act_file s) x = None"
  shows "store_last_join (merge_from_file s) x = None"
proof (rule ccontr)
  assume "store_last_join (merge_from_file s) x \<noteq> None"
  with assms(1) obtain c r where c: "act_file s = Contents c"
    "map_of (merge_lines (fst (scan_lines c)) (records s)) x = Some r" "map_of (records s) x = None"
    by (auto simp: merge_from_file_def store_last_join_def split: file_view.splits)
  from merge_lines_new [OF c(2,3)] obtain l q where "l \<in> set (fst (scan_lines c))" "parse_activity l = Some q" "act_xuid q = x"
    by blast
  with load_lines_new [OF this(1) parse_activity_nonempty [OF this(2)] this(2), of "[]"] assms(2) c(1) show False
    by (auto simp: file_last_join_def open_store_def store_last_join_def)
qed

lemma forget_unknown:
  assumes "good_store (records s)" "good_file (act_file s)" "store_last_join s x = None"
    "file_last_join (act_file s) x = None"
  shows "store_last_join (forget True y s) x = None \<and> file_last_join (act_file (forget True y s)) x = None"
proof -
  have s: "\<lparr>records = records s, act_file = act_file s\<rparr> = s" by simp
  note fg = forget_exact [OF assms(1,2), unfolded s]
  let ?mm = "records (merge_from_file s)"
  have g: "good_store ?mm" by (rule merge_from_good_file(1) [OF assms(1,2), unfolded s])
  have d: "good_store (AList.delete y ?mm)"
    using g distinct_delete [of ?mm y] by (auto simp: good_store_def list_all_iff AList.delete_eq)
  have u: "map_of ?mm x = None"
    using merge_unknown [OF assms(3,4)] by (simp add: store_last_join_def)
  have f: "act_file (merge_from_file s) = act_file s"
    by (simp add: merge_from_file_def split: file_view.split)
  from u assms(4) f d show ?thesis
    by (auto simp: forget_def Let_def write_store_def store_last_join_def delete_conv' file_last_join_written)
qed

section \<open>Properties\<close>

text \<open>
  What a process writes, the next process reads: opening the file written from a store gives
  every record back, its time rounded down to the second, and no other record.
\<close>

theorem activity_round_trip:
  assumes "good_store m"
  shows "\<exists>s. open_store (act_file (write_store True \<lparr>records = m, act_file = f\<rparr>)) = Some s \<and>
    (\<forall>x. map_of (records s) x = map_option whole_seconds (map_of m x))"
  using load_written [OF assms]
  by (simp add: write_store_def open_store_def scan_activity_lines [OF good_sorted_store [OF assms]])

lemma good_activity_example:
  "good_activity \<lparr>act_xuid = ''25'', display_name = ''Al'', last_join = 7 * second\<rparr>"
  "good_activity \<lparr>act_xuid = ''13'', display_name = ''Bo'', last_join = 5 * second + 1\<rparr>"
proof -
  have eval: "good_xuid ''25''" "good_xuid ''13''"
    "activity_line \<lparr>act_xuid = ''25'', display_name = ''Al'', last_join = 7 * second\<rparr> = ''25,Al,7''"
    "activity_line \<lparr>act_xuid = ''13'', display_name = ''Bo'', last_join = 5 * second + 1\<rparr> = ''13,Bo,5''"
    "unix_of (7 * second) = 7" "unix_of (5 * second + 1) = 5"
    by code_simp+
  show "good_activity \<lparr>act_xuid = ''25'', display_name = ''Al'', last_join = 7 * second\<rparr>"
    "good_activity \<lparr>act_xuid = ''13'', display_name = ''Bo'', last_join = 5 * second + 1\<rparr>"
    unfolding good_activity_def eval
    by (simp_all add: eval plain_eval sane_unix_def in_int64_def min_int64_def max_int64_def)
qed

theorem activity_round_trip_witness:
  "\<exists>s. open_store (act_file (write_store True
      \<lparr>records = [(''25'', \<lparr>act_xuid = ''25'', display_name = ''Al'', last_join = 7 * second\<rparr>),
                  (''13'', \<lparr>act_xuid = ''13'', display_name = ''Bo'', last_join = 5 * second + 1\<rparr>)],
       act_file = Missing\<rparr>)) = Some s \<and>
    map_of (records s) ''13'' = Some \<lparr>act_xuid = ''13'', display_name = ''Bo'', last_join = 5 * second\<rparr>"
proof -
  let ?m = "[(''25'', \<lparr>act_xuid = ''25'', display_name = ''Al'', last_join = 7 * second\<rparr>),
             (''13'', \<lparr>act_xuid = ''13'', display_name = ''Bo'', last_join = 5 * second + 1\<rparr>)]"
  have "good_store ?m" using good_activity_example by (simp add: good_store_def)
  from activity_round_trip [OF this, of Missing]
  obtain s where s: "open_store (act_file (write_store True \<lparr>records = ?m, act_file = Missing\<rparr>)) = Some s"
    "\<forall>x. map_of (records s) x = map_option whole_seconds (map_of ?m x)" by blast
  from s(2) have "map_of (records s) ''13'' = map_option whole_seconds (map_of ?m ''13'')" by blast
  then show ?thesis using s(1) by (auto simp: whole_seconds_def unix_of_def second_def)
qed



text \<open>
  \<open>Stale\<close> gives every known player whose last join is older than the window, each as often
  as he is in the store, in ascending order of the player id.
\<close>

theorem stale_sorted_and_complete:
  assumes "in_int64 (- window)"
  shows "mset (stale now window s) =
      filter_mset (\<lambda>r. last_join r < now - window) (mset (map snd (records s))) \<and>
    sorted (map act_xuid (stale now window s))"
proof -
  have "stale now window s = sort_records (filter (\<lambda>r. last_join r < now + - window) (map snd (records s)))"
    unfolding stale_def wrap64_id [OF assms] ..
  then show ?thesis by (simp add: sorted_sort_records)
qed

theorem stale_sorted_and_complete_witness:
  "sorted (map act_xuid (stale (9 * second) second
     \<lparr>records = [(''25'', \<lparr>act_xuid = ''25'', display_name = ''Al'', last_join = 7 * second\<rparr>),
                 (''13'', \<lparr>act_xuid = ''13'', display_name = ''Bo'', last_join = 5 * second\<rparr>)],
      act_file = Missing\<rparr>))"
proof -
  have "in_int64 (- second)" by code_simp
  from stale_sorted_and_complete [OF this] show ?thesis by blast
qed

text \<open>
  \<open>Forget\<close> removes the player from memory and from the file and keeps every other record
  that memory or the file had; for an unknown player the file is not touched.
\<close>

theorem forget_removes_only:
  assumes "good_store m" "good_file f"
  defines "s \<equiv> \<lparr>records = m, act_file = f\<rparr>"
  shows "store_last_join (forget True x s) y =
      (if y = x then None else store_last_join (merge_from_file s) y) \<and>
    file_last_join (act_file (forget True x s)) x = None"
  using forget_exact(1,2) [OF assms(1,2)] unfolding s_def by blast

theorem forget_removes_only_witness:
  "file_last_join (act_file (forget True ''13''
     \<lparr>records = [(''13'', \<lparr>act_xuid = ''13'', display_name = ''Bo'', last_join = 5 * second + 1\<rparr>)],
      act_file = Missing\<rparr>)) ''13'' = None"
proof -
  have "good_store [(''13'', \<lparr>act_xuid = ''13'', display_name = ''Bo'', last_join = 5 * second + 1\<rparr>)]"
    "good_file Missing"
    using good_activity_example by (simp_all add: good_store_def good_file_def)
  from forget_removes_only [OF this, of "''13''" "''13''"] show ?thesis by simp
qed

end
