(* ===== verification/Xbl_Session.thy ===== *)
theory Xbl_Session
  imports Friend_Activity
begin

text \<open>
  \<open>xbl/session.go\<close>: the Xbox Live session of a broadcast, the requests that publish it, and the
  nonces of the players who are joining. The directory's answers are arguments: the status and the
  decoded body. \<open>nonces\<close> and \<open>nonceConnections\<close> are association lists with distinct keys, whose
  order stands for Go's map order. \<open>xbl/connection_json.go\<close>: reading a NetherNet id.
\<close>

section \<open>State\<close>

record world_info =
  wi_host_name :: string
  wi_world_name :: string
  wi_players :: int
  wi_max_players :: int
  wi_protocol :: "32 word"
  wi_version :: string

record xbl_session =
  xs_xuid :: xuid
  xs_connection_id :: string
  xs_session_id :: string
  xs_handle_id :: string
  xs_nether_id :: "64 word"
  xs_pmsg_id :: string
  xs_level_id :: string
  xs_cfg :: world_info
  xs_subscription_id :: string
  xs_nonces :: "(xuid \<times> string) list"
  xs_nonce_connections :: "(xuid \<times> string) list"

text \<open>\<open>uuid\<close> and \<open>uuid'\<close> are fresh ids, \<open>level\<close> the hash that names the level of a session id.\<close>

definition new_session ::
  "(string \<Rightarrow> string) \<Rightarrow> string \<Rightarrow> string \<Rightarrow> world_info \<Rightarrow> xuid \<Rightarrow> string \<Rightarrow> string \<Rightarrow> string \<Rightarrow> 64 word \<Rightarrow> xbl_session" where
  "new_session level uuid uuid' no_cfg x session_id connection_id pmsg_id nether_id =
     (let session_id = (if session_id = '''' then uuid else session_id)
      in \<lparr>xs_xuid = x, xs_connection_id = connection_id, xs_session_id = session_id, xs_handle_id = '''',
          xs_nether_id = nether_id, xs_pmsg_id = pmsg_id, xs_level_id = level session_id, xs_cfg = no_cfg,
          xs_subscription_id = uuid', xs_nonces = [], xs_nonce_connections = []\<rparr>)"

definition set_connection_id :: "string \<Rightarrow> xbl_session \<Rightarrow> xbl_session" where
  "set_connection_id c s = s\<lparr>xs_connection_id := c\<rparr>"

definition set_world_info :: "world_info \<Rightarrow> xbl_session \<Rightarrow> xbl_session" where
  "set_world_info cfg s = s\<lparr>xs_cfg := cfg\<rparr>"

section \<open>The published document\<close>

record session_request =
  rq_member_xuid :: xuid
  rq_initialize :: bool
  rq_active :: bool
  rq_connection :: string
  rq_subscription :: string
  rq_change_types :: "string list"
  rq_join_restriction :: string
  rq_read_restriction :: string
  rq_closed :: bool
  rq_broadcast_setting :: int
  rq_cross_play_disabled :: bool
  rq_joinability :: string
  rq_lan_game :: bool
  rq_max_member_count :: int
  rq_member_count :: int
  rq_online_cross_platform :: bool
  rq_connection_type :: int
  rq_host_ip :: string
  rq_host_port :: int
  rq_nether_id :: "64 word"
  rq_pmsg_id :: string
  rq_title_id :: int
  rq_transport_layer :: int
  rq_level_id :: string
  rq_host_name :: string
  rq_owner_id :: xuid
  rq_raknet_guid :: string
  rq_world_name :: string
  rq_world_type :: string
  rq_protocol :: int
  rq_version :: string
  rq_editor_world :: bool
  rq_hardcore :: bool
  rq_nonces :: "(xuid \<times> string) list"

text \<open>\<open>buildRequest\<close>, with the one member and the one connection of the document spread over their fields.\<close>

definition build_request :: "xbl_session \<Rightarrow> session_request" where
  "build_request s =
     \<lparr>rq_member_xuid = xs_xuid s, rq_initialize = True, rq_active = True, rq_connection = xs_connection_id s,
      rq_subscription = xs_subscription_id s, rq_change_types = [''everything''],
      rq_join_restriction = ''followed'', rq_read_restriction = ''followed'', rq_closed = False,
      rq_broadcast_setting = 3, rq_cross_play_disabled = False, rq_joinability = ''joinable_by_friends'',
      rq_lan_game = True, rq_max_member_count = wi_max_players (xs_cfg s), rq_member_count = wi_players (xs_cfg s),
      rq_online_cross_platform = True, rq_connection_type = 7, rq_host_ip = '''', rq_host_port = 0,
      rq_nether_id = xs_nether_id s, rq_pmsg_id = xs_pmsg_id s, rq_title_id = 0, rq_transport_layer = 2,
      rq_level_id = xs_level_id s, rq_host_name = wi_host_name (xs_cfg s), rq_owner_id = xs_xuid s,
      rq_raknet_guid = '''', rq_world_name = wi_world_name (xs_cfg s), rq_world_type = ''Survival'',
      rq_protocol = sint (wi_protocol (xs_cfg s)), rq_version = wi_version (xs_cfg s),
      rq_editor_world = False, rq_hardcore = False, rq_nonces = xs_nonces s\<rparr>"

section \<open>Talking to the session directory\<close>

text \<open>An exchange: no token, no answer, or a status with a body that decodes or not.\<close>

datatype 'a exchange = NoToken | NoAnswer | Answer int "'a option"

datatype xbl_error = TokenFailed | RequestFailed | BadStatus int | BadBody

definition expect :: "int set \<Rightarrow> 'a exchange \<Rightarrow> xbl_error + 'a" where
  "expect statuses e =
     (case e of
        NoToken \<Rightarrow> Inl TokenFailed
      | NoAnswer \<Rightarrow> Inl RequestFailed
      | Answer status body \<Rightarrow>
          (if status \<notin> statuses then Inl (BadStatus status)
           else (case body of None \<Rightarrow> Inl BadBody | Some b \<Rightarrow> Inr b)))"

definition put_session :: "'a exchange \<Rightarrow> xbl_error + 'a" where
  "put_session e = expect {200, 201} e"

definition update_session :: "'a exchange \<Rightarrow> xbl_error option" where
  "update_session e = (case put_session e of Inl err \<Rightarrow> Some err | Inr b \<Rightarrow> None)"

definition create_session ::
  "'a exchange \<Rightarrow> string exchange \<Rightarrow> xbl_session \<Rightarrow> xbl_session \<times> xbl_error option" where
  "create_session put_answer handle_answer s =
     (case put_session put_answer of
        Inl e \<Rightarrow> (s, Some e)
      | Inr b \<Rightarrow>
          (case expect {200, 201} handle_answer of
             Inl e \<Rightarrow> (s, Some e)
           | Inr handle \<Rightarrow> (s\<lparr>xs_handle_id := handle\<rparr>, None)))"

section \<open>Nonces\<close>

text \<open>
  A member as the directory reports it: the XUID of its \<open>system\<close> constants, if it has them, and the
  connection of its \<open>system\<close> properties, if it has those.
\<close>

record member =
  mb_constants :: "xuid option"
  mb_connection :: "string option"

fun active_connections :: "xuid \<Rightarrow> member list \<Rightarrow> (xuid \<times> string) list" where
  "active_connections self [] = []"
| "active_connections self (m # ms) =
     (let rest = active_connections self ms
      in case mb_constants m of
           None \<Rightarrow> rest
         | Some x \<Rightarrow>
             (if x = '''' \<or> x = self then rest
              else (let conn = (case mb_connection m of Some c \<Rightarrow> if c \<noteq> '''' then c else x | None \<Rightarrow> x)
                    in if x \<in> fst ` set rest then rest else (x, conn) # rest)))"

text \<open>The loop over \<open>activeConn\<close>; \<open>nonce\<close> is the random nonce drawn for a player.\<close>

definition issue_nonce ::
  "(xuid \<Rightarrow> string) \<Rightarrow> xuid \<times> string \<Rightarrow> (xuid \<times> string) list \<times> (xuid \<times> string) list \<times> bool \<Rightarrow>
   (xuid \<times> string) list \<times> (xuid \<times> string) list \<times> bool" where
  "issue_nonce nonce xc st =
     (case (xc, st) of ((x, conn), (nonces, conns, changed)) \<Rightarrow>
        if map_of conns x = Some conn then (nonces, conns, changed)
        else (AList.update x (nonce x) nonces, AList.update x conn conns, True))"

definition refresh_locked :: "(xuid \<Rightarrow> string) \<Rightarrow> (xuid \<times> string) list \<Rightarrow> xbl_session \<Rightarrow> xbl_session \<times> bool" where
  "refresh_locked nonce active s =
     (let gone = filter (\<lambda>x. x \<notin> fst ` set active) (map fst (xs_nonces s));
          nonces = filter (\<lambda>(x, n). x \<notin> set gone) (xs_nonces s);
          conns = filter (\<lambda>(x, c). x \<notin> set gone) (xs_nonce_connections s);
          (nonces, conns, changed) = fold (issue_nonce nonce) active (nonces, conns, gone \<noteq> [])
      in (s\<lparr>xs_nonces := nonces, xs_nonce_connections := conns\<rparr>, changed))"

text \<open>\<open>RefreshNonces\<close>; the flag says whether an update was sent, \<open>put_answer\<close> is its answer.\<close>

definition refresh_nonces ::
  "(xuid \<Rightarrow> string) \<Rightarrow> member list exchange \<Rightarrow> 'a exchange \<Rightarrow> xbl_session \<Rightarrow>
   xbl_session \<times> bool \<times> xbl_error option" where
  "refresh_nonces nonce get_answer put_answer s =
     (case expect {200} get_answer of
        Inl e \<Rightarrow> (s, False, Some e)
      | Inr members \<Rightarrow>
          (let (s, changed) = refresh_locked nonce (active_connections (xs_xuid s) members) s
           in if changed then (s, True, update_session put_answer) else (s, False, None)))"

section \<open>NetherNet ids in JSON\<close>

text \<open>
  The raw text of the field, \<open>''''\<close> when it is absent; \<open>json_string\<close> decodes a JSON string. What
  is neither number nor numeric string gives zero.
\<close>

definition nether_id_of :: "(string \<Rightarrow> string option) \<Rightarrow> string \<Rightarrow> nat" where
  "nether_id_of json_string raw =
     (let i = trim_space raw
      in if i = '''' \<or> i = ''null'' then 0
         else (case (if hd i = CHR 0x22 then json_string i else Some i) of
                 None \<Rightarrow> 0
               | Some s \<Rightarrow> (case parse_uint64 s of Some n \<Rightarrow> n | None \<Rightarrow> 0)))"

section \<open>Invariant\<close>

definition nonces_inv :: "xbl_session \<Rightarrow> bool" where
  "nonces_inv s \<longleftrightarrow> dom (map_of (xs_nonces s)) = dom (map_of (xs_nonce_connections s))"

lemma active_connections_distinct: "distinct (map fst (active_connections self ms))"
  by (induction self ms rule: active_connections.induct) (auto simp: Let_def split: option.split)

lemma map_of_filter_key: "map_of (filter (\<lambda>(x, v). P x) al) y = (if P y then map_of al y else None)"
  by (induction al) auto

lemma issue_nonce_step:
  assumes "issue_nonce nonce (x, conn) (ns, cs, ch) = (ns', cs', ch')"
  shows "map_of cs' = (map_of cs)(x \<mapsto> conn)"
    and "map_of ns' = (if map_of cs x = Some conn then map_of ns else (map_of ns)(x \<mapsto> nonce x))"
    and "ch' \<longleftrightarrow> ch \<or> map_of cs x \<noteq> Some conn"
  using assms by (auto simp: issue_nonce_def update_conv' split: if_splits)

lemma issue_nonces:
  assumes "distinct (map fst active)" "fold (issue_nonce nonce) active (ns, cs, ch) = (ns', cs', ch')"
  shows "map_of cs' y = (case map_of active y of Some c \<Rightarrow> Some c | None \<Rightarrow> map_of cs y) \<and>
    map_of ns' y = (case map_of active y of
        Some c \<Rightarrow> if map_of cs y = Some c then map_of ns y else Some (nonce y) | None \<Rightarrow> map_of ns y) \<and>
    (ch' \<longleftrightarrow> ch \<or> (\<exists>(x, c) \<in> set active. map_of cs x \<noteq> Some c))"
  using assms
proof (induction active arbitrary: ns cs ch)
  case Nil
  then show ?case by simp
next
  case (Cons a active)
  obtain x conn where a: "a = (x, conn)" by (cases a)
  obtain ns1 cs1 ch1 where one: "issue_nonce nonce (x, conn) (ns, cs, ch) = (ns1, cs1, ch1)"
    by (cases "issue_nonce nonce (x, conn) (ns, cs, ch)")
  note step = issue_nonce_step [OF one]
  have fresh: "x \<notin> fst ` set active" using Cons.prems(1) a by simp
  then have "map_of active x = None" by (simp add: map_of_eq_None_iff)
  moreover have "(\<exists>(z, c) \<in> set active. map_of cs1 z \<noteq> Some c) = (\<exists>(z, c) \<in> set active. map_of cs z \<noteq> Some c)"
    using fresh by (force simp: step(1))
  moreover note Cons.IH [of ns1 cs1 ch1]
  ultimately show ?case
    using Cons.prems a one by (auto simp: step split: option.splits)
qed

lemma key_mem: "x \<in> fst ` set al \<longleftrightarrow> map_of al x \<noteq> None"
  by (simp add: map_of_eq_None_iff)

lemma map_differs:
  "m \<noteq> a \<longleftrightarrow> (\<exists>x. a x = None \<and> m x \<noteq> None) \<or> (\<exists>x c. a x = Some c \<and> m x \<noteq> Some c)"
proof -
  have "m x \<noteq> a x \<longleftrightarrow> a x = None \<and> m x \<noteq> None \<or> (\<exists>c. a x = Some c \<and> m x \<noteq> Some c)" for x
    by (cases "a x") auto
  moreover have "m \<noteq> a \<longleftrightarrow> (\<exists>x. m x \<noteq> a x)" by (auto simp: fun_eq_iff)
  ultimately show ?thesis by blast
qed

text \<open>What a refresh leaves, player by player.\<close>

lemma refresh_locked_spec:
  assumes "nonces_inv s" "distinct (map fst active)" "refresh_locked nonce active s = (s', changed)"
  shows "map_of (xs_nonce_connections s') = map_of active"
    and "map_of (xs_nonces s') y = (case map_of active y of
        None \<Rightarrow> None
      | Some c \<Rightarrow> if map_of (xs_nonce_connections s) y = Some c then map_of (xs_nonces s) y else Some (nonce y))"
    and "changed \<longleftrightarrow> map_of (xs_nonce_connections s) \<noteq> map_of active"
proof -
  define gone where "gone = filter (\<lambda>x. x \<notin> fst ` set active) (map fst (xs_nonces s))"
  let ?ns = "filter (\<lambda>(x, n). x \<notin> set gone) (xs_nonces s)"
    and ?cs = "filter (\<lambda>(x, c). x \<notin> set gone) (xs_nonce_connections s)"
  obtain ns' cs' where f: "fold (issue_nonce nonce) active (?ns, ?cs, gone \<noteq> []) = (ns', cs', changed)"
    "s' = s\<lparr>xs_nonces := ns', xs_nonce_connections := cs'\<rparr>"
    using assms(3) by (auto simp: refresh_locked_def Let_def simp flip: gone_def split: prod.splits)

  have dom: "map_of (xs_nonces s) x = None \<longleftrightarrow> map_of (xs_nonce_connections s) x = None" for x
    using assms(1) by (auto simp: nonces_inv_def domIff)
  have gone: "x \<in> set gone \<longleftrightarrow> map_of active x = None \<and> map_of (xs_nonces s) x \<noteq> None" for x
    unfolding gone_def set_filter set_map key_mem by (simp add: conj_commute)
  have cs: "map_of ?cs x = (if map_of active x = None then None else map_of (xs_nonce_connections s) x)" for x
    using dom [of x] by (auto simp: map_of_filter_key gone)
  have ns: "map_of ?ns x = (if map_of active x = None then None else map_of (xs_nonces s) x)" for x
    by (auto simp: map_of_filter_key gone)
  note all = issue_nonces [OF assms(2) f(1)]
  show "map_of (xs_nonce_connections s') = map_of active"
  proof
    fix x
    show "map_of (xs_nonce_connections s') x = map_of active x"
      using all [of x] cs [of x] f(2) by (simp split: option.splits)
  qed
  show "map_of (xs_nonces s') y = (case map_of active y of
        None \<Rightarrow> None
      | Some c \<Rightarrow> if map_of (xs_nonce_connections s) y = Some c then map_of (xs_nonces s) y else Some (nonce y))"
    using all [of y] cs [of y] ns [of y] f(2) by (simp split: option.split)
  have "(gone \<noteq> []) = (\<exists>x. x \<in> set gone)" by (cases gone) auto
  then have g: "(gone \<noteq> []) = (\<exists>x. map_of active x = None \<and> map_of (xs_nonce_connections s) x \<noteq> None)"
    unfolding gone dom .
  have "(\<exists>(x, c) \<in> set active. map_of ?cs x \<noteq> Some c) = (\<exists>x c. map_of active x = Some c \<and> map_of ?cs x \<noteq> Some c)"
    unfolding map_of_eq_Some_iff [OF assms(2)] by blast
  then have "(\<exists>(x, c) \<in> set active. map_of ?cs x \<noteq> Some c) =
      (\<exists>x c. map_of active x = Some c \<and> map_of (xs_nonce_connections s) x \<noteq> Some c)"
    by (auto simp: cs)
  with all [of y] g show "changed \<longleftrightarrow> map_of (xs_nonce_connections s) \<noteq> map_of active"
    unfolding map_differs by simp
qed

lemma refresh_nonces_inv:
  assumes "nonces_inv s"
  shows "nonces_inv (fst (refresh_nonces nonce get_answer put_answer s))"
proof (cases "expect {200} get_answer")
  case (Inr members)
  let ?a = "active_connections (xs_xuid s) members"
  obtain s' changed where r: "refresh_locked nonce ?a s = (s', changed)" by (cases "refresh_locked nonce ?a s")
  note spec = refresh_locked_spec [OF assms active_connections_distinct r]
  have "map_of (xs_nonces s') x = None \<longleftrightarrow> map_of (xs_nonce_connections s') x = None" for x
    using spec(1) spec(2) [of x] assms by (auto simp: nonces_inv_def domIff set_eq_iff split: option.split)
  then have "nonces_inv s'" by (auto simp: nonces_inv_def domIff set_eq_iff)
  then show ?thesis using Inr r by (simp add: refresh_nonces_def)
qed (simp add: refresh_nonces_def assms)

text \<open>Sessions driven by refreshes only: the other operations leave the nonces alone.\<close>

interpretation session_run: invariant_machine
  "\<lambda>s (nonce, get_answer, put_answer). fst (refresh_nonces nonce get_answer put_answer s)" nonces_inv
  by unfold_locales (auto intro: refresh_nonces_inv)

section \<open>Properties\<close>

text \<open>
  After a refresh that read the session, exactly the other members have a nonce; a member
  keeps his nonce as long as his connection is the one it was issued for, and gets a new one when
  he joined again; and the document is pushed exactly when some connection changed.
\<close>

theorem refresh_issues_per_connection:
  assumes "nonces_inv s" "refresh_nonces nonce (Answer 200 (Some members)) put_answer s = (s', pushed, err)"
  defines "active \<equiv> map_of (active_connections (xs_xuid s) members)"
  shows "map_of (xs_nonces s') y = (case active y of
        None \<Rightarrow> None
      | Some c \<Rightarrow> if map_of (xs_nonce_connections s) y = Some c then map_of (xs_nonces s) y else Some (nonce y)) \<and>
    map_of (xs_nonce_connections s') = active \<and> (pushed \<longleftrightarrow> map_of (xs_nonce_connections s) \<noteq> active)"
proof -
  let ?a = "active_connections (xs_xuid s) members"
  obtain changed where r: "refresh_locked nonce ?a s = (s', changed)" "pushed = changed"
    using assms(2) by (auto simp: refresh_nonces_def expect_def split: prod.splits if_splits)
  from refresh_locked_spec [OF assms(1) active_connections_distinct r(1)] r(2)
  show ?thesis unfolding active_def by blast
qed

definition example_session :: xbl_session where
  "example_session = new_session (\<lambda>s. s) ''u'' ''v''
     \<lparr>wi_host_name = ''h'', wi_world_name = ''w'', wi_players = 1, wi_max_players = 20, wi_protocol = 0, wi_version = ''''\<rparr>
     ''1'' '''' ''c'' ''p'' 7"

theorem refresh_issues_per_connection_witness:
  "map_of (xs_nonces (fst (refresh_nonces (\<lambda>x. ''n'' @ x)
     (Answer 200 (Some [\<lparr>mb_constants = Some ''5'', mb_connection = Some ''k''\<rparr>, \<lparr>mb_constants = Some ''1'', mb_connection = None\<rparr>]))
     (NoAnswer :: unit exchange) example_session))) ''5'' = Some ''n5''"
proof -
  let ?m = "[\<lparr>mb_constants = Some ''5'', mb_connection = Some ''k''\<rparr>, \<lparr>mb_constants = Some ''1'', mb_connection = None\<rparr>]"
  obtain s' pushed err where r: "refresh_nonces (\<lambda>x. ''n'' @ x) (Answer 200 (Some ?m)) (NoAnswer :: unit exchange)
      example_session = (s', pushed, err)"
    by (cases "refresh_nonces (\<lambda>x. ''n'' @ x) (Answer 200 (Some ?m)) (NoAnswer :: unit exchange) example_session")
  have "nonces_inv example_session" by (simp add: nonces_inv_def example_session_def new_session_def Let_def)
  from refresh_issues_per_connection [OF this r, of "''5''"] r show ?thesis
    by (simp add: example_session_def new_session_def Let_def)
qed

lemma quote_solid: "solid (CHR 0x22)"
  by code_simp

text \<open>
  A NetherNet id is read back from both ways of writing it, as a number and as a quoted
  number, for every id of 64 bits.
\<close>

theorem nether_id_round_trip:
  assumes "n \<le> 18446744073709551615" "json_string (CHR 0x22 # show_nat n @ [CHR 0x22]) = Some (show_nat n)"
  shows "nether_id_of json_string (show_nat n) = n \<and>
    nether_id_of json_string (CHR 0x22 # show_nat n @ [CHR 0x22]) = n"
proof -
  let ?q = "CHR 0x22 # show_nat n @ [CHR 0x22]"
  have digit: "is_digit (hd (show_nat n))"
    using show_nat_digits [of n] by (simp add: list_all_iff list.set_sel)
  then have "hd (show_nat n) \<noteq> CHR 0x22" "show_nat n \<noteq> ''null''"
    by (auto simp: is_digit_def)
  moreover have "trim_space (show_nat n) = show_nat n"     using show_int_trim [of "int n"] by (simp add: show_int_def)
  moreover have "trim_space ?q = ?q"
    by (rule trim_space_solid) (simp add: quote_solid)
  ultimately show ?thesis using assms by (simp add: nether_id_of_def)
qed

theorem nether_id_round_trip_witness:
  "nether_id_of (\<lambda>s. Some (butlast (tl s))) (CHR 0x22 # show_nat 42 @ [CHR 0x22]) = 42"
  using nether_id_round_trip [of 42 "\<lambda>s. Some (butlast (tl s))"] by simp

end
