(* ===== verification/Rta.thy ===== *)
theory Rta
  imports Xbl_Session
begin

text \<open>
  \<open>xbl/rta.go\<close>: the real-time-activity websocket of a broadcast. Decoding JSON is an argument:
  \<open>json_int\<close> is the number that \<open>json.Unmarshal\<close> leaves in an \<open>int\<close> that was zero, \<open>json_object\<close>
  the decoded object of a part, \<open>None\<close> when it is none.
\<close>

section \<open>State\<close>

text \<open>The callbacks a client has set, and the connection as its callers see it.\<close>

record rta =
  ra_xuid :: xuid
  ra_on_session_changed :: bool
  ra_on_friend_request :: bool
  ra_on_connection_id :: bool
  ra_connected :: bool
  ra_connection_id :: string
  ra_last_frame :: "instant option"
  ra_ready :: bool

definition new_rta :: "xuid \<Rightarrow> rta" where
  "new_rta x =
     \<lparr>ra_xuid = x, ra_on_session_changed = False, ra_on_friend_request = False,
      ra_on_connection_id = False, ra_connected = False, ra_connection_id = '''',
      ra_last_frame = None, ra_ready = False\<rparr>"

datatype json_value = JString string | JOther

datatype rta_action =
    ConnectionIdChanged string
  | SubscribeFriends xuid
  | FriendRequestCame
  | SessionChanged

section \<open>Operations\<close>

definition touch_last_frame :: "instant \<Rightarrow> rta \<Rightarrow> rta" where
  "touch_last_frame now r = r\<lparr>ra_last_frame := Some now\<rparr>"

definition is_stale :: "instant \<Rightarrow> duration \<Rightarrow> rta \<Rightarrow> bool" where
  "is_stale now max_age r =
     (case ra_last_frame r of
        None \<Rightarrow> False
      | Some t \<Rightarrow> time_sub now t > max_age)"

text \<open>\<open>ForceReconnect\<close>: whether there was a connection to close.\<close>

definition force_reconnect :: "rta \<Rightarrow> bool" where
  "force_reconnect r = ra_connected r"

text \<open>\<open>handle\<close>, one message type after the other.\<close>

definition handle_subscribe :: "(string \<rightharpoonup> json_value) option \<Rightarrow> rta \<Rightarrow> rta \<times> rta_action list" where
  "handle_subscribe data r =
     (case data of
        None \<Rightarrow> (r, [])
      | Some d \<Rightarrow>
          (case d ''ConnectionId'' of
             Some (JString cid) \<Rightarrow>
               (if cid = '''' then (r, [])
                else (r\<lparr>ra_connection_id := cid, ra_ready := True\<rparr>,
                      (if ra_on_connection_id r then [ConnectionIdChanged cid] else []) @
                      [SubscribeFriends (ra_xuid r)]))
           | _ \<Rightarrow> (r, [])))"

definition handle_event :: "(string \<rightharpoonup> json_value) option \<Rightarrow> rta \<Rightarrow> rta_action list" where
  "handle_event data r =
     (case data of
        None \<Rightarrow> []
      | Some d \<Rightarrow>
          (if d ''NotificationType'' = Some (JString ''IncomingFriendRequestCountChanged'') \<and> ra_on_friend_request r
           then [FriendRequestCame] else []) @
          (if d ''ncid'' \<noteq> None \<and> ra_on_session_changed r then [SessionChanged] else []))"

definition handle_frame ::
  "(string \<Rightarrow> int) \<Rightarrow> (string \<Rightarrow> (string \<rightharpoonup> json_value) option) \<Rightarrow> string list \<Rightarrow> rta \<Rightarrow> rta \<times> rta_action list" where
  "handle_frame json_int json_object parts r =
     (if length parts < 1 then (r, [])
      else (let msg_type = json_int (parts ! 0)
            in if msg_type = 1 then
                 (if length parts < 5 then (r, []) else handle_subscribe (json_object (parts ! 4)) r)
               else if msg_type = 3 then
                 (r, if length parts < 3 then [] else handle_event (json_object (parts ! 2)) r)
               else if msg_type = 4 then
                 (r, if ra_on_session_changed r then [SessionChanged] else [])
               else (r, [])))"

text \<open>One iteration of the read loop of \<open>Connect\<close>, and the start of a connection.\<close>

definition read_frame ::
  "(string \<Rightarrow> int) \<Rightarrow> (string \<Rightarrow> (string \<rightharpoonup> json_value) option) \<Rightarrow> instant \<Rightarrow> string list \<Rightarrow> rta \<Rightarrow> rta \<times> rta_action list" where
  "read_frame json_int json_object now parts r = handle_frame json_int json_object parts (touch_last_frame now r)"

definition connected :: "instant \<Rightarrow> rta \<Rightarrow> rta" where
  "connected now r = touch_last_frame now (r\<lparr>ra_connected := True\<rparr>)"

text \<open>
  \<open>ConnectionID\<close>: what its \<open>select\<close> saw first. The ready channel is closed only once an id is
  known, so that branch is there only then.
\<close>

datatype id_wait = IdReady | ContextDone | TimedOut

definition await_connection_id :: "id_wait \<Rightarrow> rta \<Rightarrow> (id_wait + string) option" where
  "await_connection_id w r =
     (case w of
        IdReady \<Rightarrow> if ra_ready r then Some (Inr (ra_connection_id r)) else None
      | ContextDone \<Rightarrow> Some (Inl ContextDone)
      | TimedOut \<Rightarrow> Some (Inl TimedOut))"

section \<open>Runs\<close>

datatype rta_event = Dialled instant | Frame instant "string list" | Pong instant

fun rta_do ::
  "(string \<Rightarrow> int) \<Rightarrow> (string \<Rightarrow> (string \<rightharpoonup> json_value) option) \<Rightarrow> rta_event \<Rightarrow> rta \<Rightarrow> rta \<times> rta_action list" where
  "rta_do json_int json_object (Dialled now) r = (connected now r, [])"
| "rta_do json_int json_object (Frame now parts) r = read_frame json_int json_object now parts r"
| "rta_do json_int json_object (Pong now) r = (touch_last_frame now r, [])"

fun rta_run ::
  "(string \<Rightarrow> int) \<Rightarrow> (string \<Rightarrow> (string \<rightharpoonup> json_value) option) \<Rightarrow> rta_event list \<Rightarrow> rta \<Rightarrow> rta \<times> rta_action list" where
  "rta_run json_int json_object [] r = (r, [])"
| "rta_run json_int json_object (e # es) r =
     (let (r, as) = rta_do json_int json_object e r;
          (r, bs) = rta_run json_int json_object es r
      in (r, as @ bs))"

text \<open>The ids announced to the client, in order.\<close>

fun announced :: "rta_action list \<Rightarrow> string list" where
  "announced [] = []"
| "announced (ConnectionIdChanged cid # as) = cid # announced as"
| "announced (a # as) = announced as"

text \<open>What a frame says about the connection id: the id it carries, if it carries one.\<close>

definition frame_id ::
  "(string \<Rightarrow> int) \<Rightarrow> (string \<Rightarrow> (string \<rightharpoonup> json_value) option) \<Rightarrow> string list \<Rightarrow> string option" where
  "frame_id json_int json_object parts =
     (if length parts \<ge> 5 \<and> json_int (parts ! 0) = 1
      then (case json_object (parts ! 4) of
              Some d \<Rightarrow>
                (case d ''ConnectionId'' of
                   Some (JString cid) \<Rightarrow> if cid = '''' then None else Some cid
                 | _ \<Rightarrow> None)
            | None \<Rightarrow> None)
      else None)"

fun event_ids :: "(string \<Rightarrow> int) \<Rightarrow> (string \<Rightarrow> (string \<rightharpoonup> json_value) option) \<Rightarrow> rta_event list \<Rightarrow> string list" where
  "event_ids json_int json_object [] = []"
| "event_ids json_int json_object (Frame now parts # es) =
     (case frame_id json_int json_object parts of None \<Rightarrow> [] | Some cid \<Rightarrow> [cid]) @ event_ids json_int json_object es"
| "event_ids json_int json_object (Dialled now # es) = event_ids json_int json_object es"
| "event_ids json_int json_object (Pong now # es) = event_ids json_int json_object es"

definition rta_inv :: "rta \<Rightarrow> bool" where
  "rta_inv r \<longleftrightarrow> (ra_ready r \<longleftrightarrow> ra_connection_id r \<noteq> '''')"

lemmas rta_frame_defs = read_frame_def handle_frame_def handle_subscribe_def handle_event_def
  touch_last_frame_def connected_def

lemma announced_append [simp]: "announced (as @ bs) = announced as @ announced bs"
  by (induction as rule: announced.induct) simp_all

lemma announced_event [simp]: "announced (handle_event data r) = []"
  by (auto simp: handle_event_def split: option.split)

lemma handle_frame_id:
  "handle_frame json_int json_object parts r = (r', as) \<Longrightarrow>
   ra_on_connection_id r' = ra_on_connection_id r \<and>
   (case frame_id json_int json_object parts of
      None \<Rightarrow> r' = r \<and> announced as = []
    | Some cid \<Rightarrow> cid \<noteq> '''' \<and> ra_connection_id r' = cid \<and> ra_ready r' \<and>
        announced as = (if ra_on_connection_id r then [cid] else []))"
  unfolding handle_frame_def handle_subscribe_def frame_id_def Let_def
  by (auto split: if_splits option.splits json_value.splits)

lemma rta_run_ids:
  assumes "rta_run json_int json_object es r = (r', as)" "rta_inv r"
  shows "rta_inv r' \<and> ra_connection_id r' = last (ra_connection_id r # event_ids json_int json_object es) \<and>
    '''' \<notin> set (event_ids json_int json_object es) \<and>
    announced as = (if ra_on_connection_id r then event_ids json_int json_object es else [])"
  using assms
proof (induction json_int json_object es arbitrary: r as rule: event_ids.induct)
  case (2 json_int json_object now parts es)
  obtain r1 as1 where one: "handle_frame json_int json_object parts (touch_last_frame now r) = (r1, as1)"
    by (cases "handle_frame json_int json_object parts (touch_last_frame now r)")
  obtain as2 where two: "rta_run json_int json_object es r1 = (r', as2)" "as = as1 @ as2"
    using 2(2) one by (auto simp: Let_def read_frame_def split: prod.splits)
  have h: "ra_on_connection_id (touch_last_frame now r) = ra_on_connection_id r"
    "ra_connection_id (touch_last_frame now r) = ra_connection_id r" "rta_inv (touch_last_frame now r)"
    using 2(3) by (simp_all add: touch_last_frame_def rta_inv_def)
  from handle_frame_id [OF one] h(3) have "rta_inv r1" by (auto simp: rta_inv_def split: option.splits)
  from 2(1) [OF two(1) this] handle_frame_id [OF one] two(2) h show ?case
    by (auto split: option.splits)
next
  case (3 json_int json_object now es)
  have "rta_inv (connected now r)" using 3(3) by (simp add: connected_def touch_last_frame_def rta_inv_def)
  from 3(1) [OF _ this] 3(2) show ?case
    by (auto simp: Let_def connected_def touch_last_frame_def split: prod.splits)
next
  case (4 json_int json_object now es)
  have "rta_inv (touch_last_frame now r)" using 4(3) by (simp add: touch_last_frame_def rta_inv_def)
  from 4(1) [OF _ this] 4(2) show ?case
    by (auto simp: Let_def touch_last_frame_def split: prod.splits)
qed simp

text \<open>\<open>is_stale\<close> reads the newest frame, pong or dial: it saturates as \<open>time.Since\<close> does.\<close>

lemma fresh_frame_not_stale:
  "0 \<le> max_age \<Longrightarrow> now - t \<le> max_age \<Longrightarrow> \<not> is_stale now max_age (touch_last_frame t r)"
  by (auto simp: is_stale_def touch_last_frame_def time_sub_def clamp64_def max_int64_def min_int64_def)

fun event_time :: "rta_event \<Rightarrow> instant" where
  "event_time (Dialled now) = now"
| "event_time (Frame now parts) = now"
| "event_time (Pong now) = now"

lemma rta_do_time: "ra_last_frame (fst (rta_do json_int json_object e r)) = Some (event_time e)"
  by (cases e) (auto simp: rta_frame_defs Let_def split: option.split json_value.split)

lemma rta_run_time:
  "ra_last_frame (fst (rta_run json_int json_object es r)) =
     (if es = [] then ra_last_frame r else Some (event_time (last es)))"
proof (induction es arbitrary: r)
  case (Cons e es)
  show ?case using Cons.IH [of "fst (rta_do json_int json_object e r)"] rta_do_time [of json_int json_object e r]
    by (auto simp: case_prod_beta Let_def)
qed simp

section \<open>Properties\<close>

text \<open>
  The wait for the connection id is open once a frame has brought one, and then gives the
  newest that a frame has brought, however often the connection is lost and made again; a client
  that has set the callback is told each of them, in order.
\<close>

theorem connection_id_is_newest:
  "await_connection_id IdReady (fst (rta_run json_int json_object es (new_rta x))) =
     (if event_ids json_int json_object es = [] then None
      else Some (Inr (last (event_ids json_int json_object es)))) \<and>
   announced (snd (rta_run json_int json_object es (new_rta x\<lparr>ra_on_connection_id := True\<rparr>))) =
     event_ids json_int json_object es"
proof
  obtain r as where run: "rta_run json_int json_object es (new_rta x) = (r, as)"
    by (cases "rta_run json_int json_object es (new_rta x)")
  from rta_run_ids [OF run] have "rta_inv r" "ra_connection_id r = last ('''' # event_ids json_int json_object es)"
    "'''' \<notin> set (event_ids json_int json_object es)"
    by (simp_all add: rta_inv_def new_rta_def)
  with run show "await_connection_id IdReady (fst (rta_run json_int json_object es (new_rta x))) =
     (if event_ids json_int json_object es = [] then None else Some (Inr (last (event_ids json_int json_object es))))"
    by (auto simp: await_connection_id_def rta_inv_def) (metis last_in_set)
  obtain r as where run: "rta_run json_int json_object es (new_rta x\<lparr>ra_on_connection_id := True\<rparr>) = (r, as)"
    by (cases "rta_run json_int json_object es (new_rta x\<lparr>ra_on_connection_id := True\<rparr>)")
  from rta_run_ids [OF this] run show "announced (snd (rta_run json_int json_object es
      (new_rta x\<lparr>ra_on_connection_id := True\<rparr>))) = event_ids json_int json_object es"
    by (simp add: rta_inv_def new_rta_def)
qed

text \<open>
  The health check reports a connection as stale exactly when its last frame, pong or dial is
  older than the limit, and never before the first dial.
\<close>

theorem stale_exactly_when_silent:
  assumes "0 \<le> max_age" "max_age < max_int64"
  shows "is_stale now max_age (fst (rta_run json_int json_object es (new_rta x))) \<longleftrightarrow>
    es \<noteq> [] \<and> event_time (last es) + max_age < now"
  using assms
  by (auto simp: is_stale_def rta_run_time new_rta_def time_sub_def clamp64_def max_int64_def min_int64_def)

theorem stale_exactly_when_silent_witness:
  "is_stale (71 * second) (60 * second) (fst (rta_run (\<lambda>s. 0) (\<lambda>s. None) [Dialled 0, Pong (10 * second)] (new_rta ''7'')))"
  using stale_exactly_when_silent [of "60 * second" "71 * second" "\<lambda>s. 0" "\<lambda>s. None" "[Dialled 0, Pong (10 * second)]" "''7''"]
  by (simp add: second_def max_int64_def)

end
