(* ===== verification/Dials.thy ===== *)
theory Dials
  imports Ws_Signaling Messaging_Conn Rta
begin

text \<open>
  The connections of the signaling services and of real-time activity as they are dialled, read and
  closed: \<open>signaling/dial.go\<close> and \<open>conn.go\<close>, \<open>messaging/dial.go\<close> and \<open>conn.go\<close>, \<open>Connect\<close> of
  \<open>xbl/rta.go\<close>. The goroutines of a connection and the callers of its channels are steps of one machine;
  a channel without a buffer passes a value only when its reader is there. Discovery, URL parsing, the
  dial of a websocket and the decoders are arguments.
\<close>

section \<open>The websocket signaling connection\<close>

text \<open>The goroutine \<open>read\<close>: reading, waiting to hand over a signal, or done.\<close>

datatype reader = Reading | Offering signal | ReadEnded | ReadPanics

datatype dial_result = Dialling | DialOk | DialGivesUp

record 'c ws_dial =
  wd_conn :: "'c ws_conn"
  wd_reader :: reader
  wd_result :: dial_result
  wd_caller_done :: bool
  wd_notified :: "signal list"
  wd_notifier_ends :: bool
  wd_pings :: nat

text \<open>What \<open>DialContext\<close> needs before it has a connection, in its order.\<close>

record dial_env =
  de_discovers :: bool
  de_decodes :: bool
  de_url :: bool
  de_dials :: bool

datatype open_error = NoDiscovery | BadEnvironment | BadServiceUri | NoSocket

definition open_socket :: "dial_env \<Rightarrow> open_error option" where
  "open_socket env =
     (if \<not> de_discovers env then Some NoDiscovery
      else if \<not> de_decodes env then Some BadEnvironment
      else if \<not> de_url env then Some BadServiceUri
      else if \<not> de_dials env then Some NoSocket
      else None)"

definition start_dial :: "dial_env \<Rightarrow> (nat \<Rightarrow> string) \<Rightarrow> nat \<Rightarrow> string \<Rightarrow> open_error + 'c ws_dial" where
  "start_dial env show_id minted network_id =
     (case open_socket env of
        Some e \<Rightarrow> Inl e
      | None \<Rightarrow>
          Inr \<lparr>wd_conn = dial_ws show_id minted network_id, wd_reader = Reading, wd_result = Dialling,
               wd_caller_done = False, wd_notified = [], wd_notifier_ends = False, wd_pings = 0\<rparr>)"

text \<open>
  The steps: \<open>read\<close> gets a message or an error; the context of the dial's caller ends; the \<open>select\<close> at the
  end of \<open>DialContext\<close> takes one of its branches; the goroutine of \<open>Notify\<close> takes one of those of
  \<open>ReadSignal\<close>; the ticker of \<open>ping\<close> fires; the owner closes. A step that cannot happen changes nothing.
\<close>

datatype ws_event =
    Arrives ws_message | ReadFails | CallerEnds | SelectsReady | SelectsDone | NotifierTakes | NotifierSeesEnd | PingTick | OwnerCloses

definition read_step ::
  "(string \<Rightarrow> signal option) \<Rightarrow> (string \<Rightarrow> 'c option) \<Rightarrow> ws_message \<Rightarrow> 'c ws_dial \<Rightarrow> 'c ws_dial" where
  "read_step parse_signal parse_credentials m d =
     (if wd_reader d \<noteq> Reading then d
      else (case read_message parse_signal parse_credentials m (wd_conn d) of
              Returns (c, []) \<Rightarrow> d\<lparr>wd_conn := c\<rparr>
            | Returns (c, sg # sgs) \<Rightarrow> d\<lparr>wd_conn := c, wd_reader := Offering sg\<rparr>
            | _ \<Rightarrow> d\<lparr>wd_reader := ReadPanics\<rparr>))"

definition read_fails :: "'c ws_dial \<Rightarrow> 'c ws_dial" where
  "read_fails d =
     (if wd_reader d \<noteq> Reading then d
      else d\<lparr>wd_reader := ReadEnded, wd_conn := close_ws (wd_conn d)\<rparr>)"

definition dial_selects :: "bool \<Rightarrow> 'c ws_dial \<Rightarrow> 'c ws_dial" where
  "dial_selects ready d =
     (if wd_result d \<noteq> Dialling then d
      else if ready then (if wc_ready (wd_conn d) then d\<lparr>wd_result := DialOk\<rparr> else d)
      else (if wd_caller_done d then d\<lparr>wd_result := DialGivesUp\<rparr> else d))"

text \<open>\<open>Notify\<close> is called on a connection that the dial returned.\<close>

definition notifier_takes :: "'c ws_dial \<Rightarrow> 'c ws_dial" where
  "notifier_takes d =
     (case wd_reader d of
        Offering sg \<Rightarrow>
          (if wd_result d = DialOk \<and> \<not> wd_notifier_ends d
           then d\<lparr>wd_reader := Reading, wd_notified := wd_notified d @ [sg]\<rparr> else d)
      | _ \<Rightarrow> d)"

definition notifier_sees_end :: "'c ws_dial \<Rightarrow> 'c ws_dial" where
  "notifier_sees_end d =
     (if wd_result d = DialOk \<and> wc_closed (wd_conn d) then d\<lparr>wd_notifier_ends := True\<rparr> else d)"

definition ping_tick :: "'c ws_dial \<Rightarrow> 'c ws_dial" where
  "ping_tick d = (if wc_closed (wd_conn d) then d else d\<lparr>wd_pings := Suc (wd_pings d)\<rparr>)"

text \<open>
  \<open>Close\<close> ends the websocket; the read that waits for it fails then. A reader that waits to hand
  over a signal does not notice.
\<close>

definition owner_closes :: "'c ws_dial \<Rightarrow> 'c ws_dial" where
  "owner_closes d = (if wd_result d = DialOk then read_fails d else d)"

fun ws_step ::
  "(string \<Rightarrow> signal option) \<Rightarrow> (string \<Rightarrow> 'c option) \<Rightarrow> ws_event \<Rightarrow> 'c ws_dial \<Rightarrow> 'c ws_dial" where
  "ws_step parse_signal parse_credentials (Arrives m) d = read_step parse_signal parse_credentials m d"
| "ws_step parse_signal parse_credentials ReadFails d = read_fails d"
| "ws_step parse_signal parse_credentials CallerEnds d = d\<lparr>wd_caller_done := True\<rparr>"
| "ws_step parse_signal parse_credentials SelectsReady d = dial_selects True d"
| "ws_step parse_signal parse_credentials SelectsDone d = dial_selects False d"
| "ws_step parse_signal parse_credentials NotifierTakes d = notifier_takes d"
| "ws_step parse_signal parse_credentials NotifierSeesEnd d = notifier_sees_end d"
| "ws_step parse_signal parse_credentials PingTick d = ping_tick d"
| "ws_step parse_signal parse_credentials OwnerCloses d = owner_closes d"

definition ws_run ::
  "(string \<Rightarrow> signal option) \<Rightarrow> (string \<Rightarrow> 'c option) \<Rightarrow> ws_event list \<Rightarrow> 'c ws_dial \<Rightarrow> 'c ws_dial" where
  "ws_run parse_signal parse_credentials es d = foldl (\<lambda>d e. ws_step parse_signal parse_credentials e d) d es"

section \<open>What every run of the connection keeps\<close>

lemma ws_run_simps [simp]:
  "ws_run parse_signal parse_credentials [] d = d"
  "ws_run parse_signal parse_credentials (e # es) d =
     ws_run parse_signal parse_credentials es (ws_step parse_signal parse_credentials e d)"
  by (simp_all add: ws_run_def)

lemma ws_run_snoc:
  "ws_run parse_signal parse_credentials (es @ [e]) d =
     ws_step parse_signal parse_credentials e (ws_run parse_signal parse_credentials es d)"
  by (simp add: ws_run_def)

lemmas ws_step_defs = read_step_def read_fails_def dial_selects_def notifier_takes_def notifier_sees_end_def
  ping_tick_def owner_closes_def close_ws_def

text \<open>A reader that will never see credentials, and a caller that goes on waiting.\<close>

definition stuck :: "'c ws_dial \<Rightarrow> bool" where
  "stuck d \<longleftrightarrow> wd_result d = Dialling \<and> \<not> wd_caller_done d \<and> \<not> wc_ready (wd_conn d) \<and> wd_reader d \<noteq> Reading"

lemma stuck_step: "stuck d \<Longrightarrow> CallerEnds \<noteq> e \<Longrightarrow> stuck (ws_step parse_signal parse_credentials e d)"
  by (cases e) (auto simp: stuck_def ws_step_defs split: reader.split)

lemma stuck_run: "stuck d \<Longrightarrow> CallerEnds \<notin> set es \<Longrightarrow> stuck (ws_run parse_signal parse_credentials es d)"
  by (induction es arbitrary: d) (simp_all add: stuck_step)

lemma start_dial_Inr:
  "start_dial env show_id minted network_id = Inr d \<Longrightarrow>
   wd_conn d = dial_ws show_id minted network_id \<and> wd_reader d = Reading \<and> wd_result d = Dialling \<and>
   \<not> wd_caller_done d \<and> wd_notified d = [] \<and> \<not> wd_notifier_ends d \<and> wd_pings d = 0"
  by (auto simp: start_dial_def split: option.splits)

text \<open>
  The dial of the signaling service waits for credentials or for the end of its caller's context, and for nothing else: when the
  socket fails before the credentials came, or when a signal comes before them, which nobody takes yet,
  the dial does not return, whatever happens afterwards, until that context ends.
\<close>

theorem dial_hangs_without_credentials:
  assumes "start_dial env show_id minted network_id = Inr d"
    and "e = ReadFails \<or> (\<exists>m. e = Arrives m \<and> signal_of parse_signal m \<noteq> [])"
    and "CallerEnds \<notin> set es"
  shows "wd_result (ws_run parse_signal parse_credentials (e # es) d) = Dialling"
proof -
  note d = start_dial_Inr [OF assms(1)]
  have ready: "\<not> wc_ready (wd_conn d)" using d by (simp add: dial_ws_def)
  have "stuck (ws_step parse_signal parse_credentials e d)"
    using assms(2)
  proof
    assume "e = ReadFails"
    with d ready show ?thesis by (simp add: stuck_def ws_step_defs)
  next
    assume "\<exists>m. e = Arrives m \<and> signal_of parse_signal m \<noteq> []"
    then obtain m sg sgs where m: "e = Arrives m" "signal_of parse_signal m = sg # sgs" by (auto simp: neq_Nil_conv)
    then have "\<not> credentials_message parse_credentials m"
      by (auto simp: signal_of_def credentials_message_def message_type_signal_def message_type_credentials_def
          split: if_splits)
    with m d ready show ?thesis by (simp add: stuck_def read_step_def read_message_eq)
  qed
  from stuck_run [OF this assms(3), of parse_signal parse_credentials] show ?thesis by (simp add: stuck_def)
qed

definition good_dial :: dial_env where
  "good_dial = \<lparr>de_discovers = True, de_decodes = True, de_url = True, de_dials = True\<rparr>"

definition demo_dial :: "string ws_dial" where
  "demo_dial = \<lparr>wd_conn = dial_ws (\<lambda>n. ''1'') 1 '''', wd_reader = Reading, wd_result = Dialling,
     wd_caller_done = False, wd_notified = [], wd_notifier_ends = False, wd_pings = 0\<rparr>"

lemma demo_start: "start_dial good_dial (\<lambda>n. ''1'') 1 '''' = Inr demo_dial"
  by (simp add: start_dial_def open_socket_def good_dial_def demo_dial_def)

theorem dial_hangs_without_credentials_witness:
  "wd_result (ws_run (\<lambda>s. None) Some [ReadFails, PingTick, SelectsReady, SelectsDone] demo_dial) = Dialling"
  by (rule dial_hangs_without_credentials [OF demo_start]) simp_all

text \<open>The messages that \<open>read\<close> takes in a run: the others stay in the socket.\<close>

fun messages_read ::
  "(string \<Rightarrow> signal option) \<Rightarrow> (string \<Rightarrow> 'c option) \<Rightarrow> ws_event list \<Rightarrow> 'c ws_dial \<Rightarrow> ws_message list" where
  "messages_read parse_signal parse_credentials [] d = []"
| "messages_read parse_signal parse_credentials (e # es) d =
     (case e of Arrives m \<Rightarrow> if wd_reader d = Reading then [m] else [] | _ \<Rightarrow> []) @
     messages_read parse_signal parse_credentials es (ws_step parse_signal parse_credentials e d)"

definition handed_over :: "'c ws_dial \<Rightarrow> signal list" where
  "handed_over d = wd_notified d @ (case wd_reader d of Offering sg \<Rightarrow> [sg] | _ \<Rightarrow> [])"

definition same_conn :: "'c ws_conn \<Rightarrow> 'c ws_conn \<Rightarrow> bool" where
  "same_conn c c' \<longleftrightarrow> wc_network_id c = wc_network_id c' \<and> wc_credentials c = wc_credentials c' \<and> wc_ready c = wc_ready c'"

lemma read_messages_append:
  "read_messages parse_signal parse_credentials (ms @ [m]) c =
     (case read_messages parse_signal parse_credentials ms c of
        Returns (c, sgs) \<Rightarrow>
          (case read_message parse_signal parse_credentials m c of
             Returns (c, sgs') \<Rightarrow> Returns (c, sgs @ sgs') | Fails \<Rightarrow> Fails | Panics \<Rightarrow> Panics)
      | Fails \<Rightarrow> Fails
      | Panics \<Rightarrow> Panics)"
  by (induction ms arbitrary: c) (auto split: outcome.split)

lemma signal_of_one: "signal_of parse_signal m = [] \<or> (\<exists>sg. signal_of parse_signal m = [sg])"
  by (simp add: signal_of_def split: option.split)

lemma messages_read_append:
  "messages_read parse_signal parse_credentials (es @ [e]) d =
     messages_read parse_signal parse_credentials es d @
     (case e of
        Arrives m \<Rightarrow> if wd_reader (ws_run parse_signal parse_credentials es d) = Reading then [m] else []
      | _ \<Rightarrow> [])"
proof (induction es arbitrary: d)
  case Nil
  then show ?case by (cases e) simp_all
next
  case (Cons a es)
  then show ?case by (cases e) simp_all
qed

text \<open>
  C23: However the goroutines of the connection interleave, what was handed over or waits to be is what \<open>read_messages\<close> gives
  for the messages that were read, with the same id and credentials; the reader panics exactly when
  \<open>read_messages\<close> does; and the notifier got nothing before the credentials came.
\<close>

theorem ws_machine_refines_reading:
  assumes "start_dial env show_id minted network_id = Inr d0"
    and "d = ws_run parse_signal parse_credentials es d0"
  shows "case read_messages parse_signal parse_credentials (messages_read parse_signal parse_credentials es d0) (wd_conn d0) of
      Returns (c, sgs) \<Rightarrow> wd_reader d \<noteq> ReadPanics \<and> sgs = handed_over d \<and> same_conn c (wd_conn d) \<and>
        (wd_notified d \<noteq> [] \<longrightarrow> wc_ready (wd_conn d))
    | Panics \<Rightarrow> wd_reader d = ReadPanics
    | Fails \<Rightarrow> False"
proof -
  note d0 = start_dial_Inr [OF assms(1)]
  let ?R = "\<lambda>es. read_messages parse_signal parse_credentials (messages_read parse_signal parse_credentials es d0) (wd_conn d0)"
  let ?ok = "\<lambda>es d. (case ?R es of
      Returns (c, sgs) \<Rightarrow> wd_reader d \<noteq> ReadPanics \<and> sgs = handed_over d \<and> same_conn c (wd_conn d) \<and>
        (wd_result d = DialOk \<longrightarrow> wc_ready (wd_conn d)) \<and> (wd_notified d \<noteq> [] \<longrightarrow> wc_ready (wd_conn d))
    | Panics \<Rightarrow> wd_reader d = ReadPanics
    | Fails \<Rightarrow> False)"
  have "?ok es (ws_run parse_signal parse_credentials es d0)"
  proof (induction es rule: rev_induct)
    case Nil
    then show ?case using d0 by (simp add: handed_over_def same_conn_def)
  next
    case (snoc e es)
    let ?d = "ws_run parse_signal parse_credentials es d0"
    show ?case
    proof (cases "\<exists>m. e = Arrives m \<and> wd_reader ?d = Reading")
      case False
      then have same: "?R (es @ [e]) = ?R es" by (auto simp: messages_read_append split: ws_event.split)
      show ?thesis
        using snoc False unfolding ws_run_snoc same
        by (cases e) (auto simp: ws_step_defs handed_over_def same_conn_def split: outcome.splits reader.splits)
    next
      case True
      then obtain m where m: "e = Arrives m" "wd_reader ?d = Reading" by blast
      then obtain c sgs where c: "?R es = Returns (c, sgs)" "sgs = handed_over ?d" "same_conn c (wd_conn ?d)"
        "wd_result ?d = DialOk \<longrightarrow> wc_ready (wd_conn ?d)" "wd_notified ?d \<noteq> [] \<longrightarrow> wc_ready (wd_conn ?d)"
        using snoc by (cases "?R es") (auto split: prod.splits)
      have next_R: "?R (es @ [e]) =
          (case read_message parse_signal parse_credentials m c of
             Returns (c, sgs') \<Rightarrow> Returns (c, sgs @ sgs') | Fails \<Rightarrow> Fails | Panics \<Rightarrow> Panics)"
        using m c(1) by (simp add: messages_read_append read_messages_append)
      show ?thesis
        using m c(2-) signal_of_one [of parse_signal m] unfolding ws_run_snoc next_R
        by (auto simp: read_step_def read_message_eq handed_over_def same_conn_def)
    qed
  qed
  with assms(2) show ?thesis by (auto split: outcome.splits)
qed

definition demo_messages :: "ws_message list" where
  "demo_messages =
     [\<lparr>wm_type = message_type_credentials, wm_from = ''Server'', wm_to = '''', wm_data = ''cred''\<rparr>,
      \<lparr>wm_type = message_type_signal, wm_from = ''7'', wm_to = '''', wm_data = ''v=0''\<rparr>]"

definition demo_signal :: "string \<Rightarrow> signal option" where
  "demo_signal text = Some \<lparr>sig_type = SigOffer, sig_connection_id = 3, sig_data = text, sig_network_id = ''''\<rparr>"

definition demo_events :: "ws_event list" where
  "demo_events = map Arrives demo_messages @ [SelectsReady, NotifierTakes, ReadFails]"

theorem ws_machine_refines_reading_witness:
  "handed_over (ws_run demo_signal Some demo_events demo_dial) =
     [\<lparr>sig_type = SigOffer, sig_connection_id = 3, sig_data = ''v=0'', sig_network_id = ''7''\<rparr>]"
proof -
  have "messages_read demo_signal Some demo_events demo_dial = demo_messages"
    by (simp add: demo_events_def demo_messages_def demo_signal_def demo_dial_def dial_ws_def read_message_def ws_step_defs
        message_type_credentials_def message_type_signal_def)
  moreover have "\<exists>c. read_messages demo_signal Some demo_messages (wd_conn demo_dial) =
      Returns (c, [\<lparr>sig_type = SigOffer, sig_connection_id = 3, sig_data = ''v=0'', sig_network_id = ''7''\<rparr>])"
    by (simp add: demo_messages_def demo_signal_def demo_dial_def dial_ws_def read_message_def
        message_type_credentials_def message_type_signal_def)
  ultimately show ?thesis
    using ws_machine_refines_reading [OF demo_start refl, of demo_signal Some demo_events] by auto
qed

text \<open>
  A dial that gave up because its caller's context ended leaves its connection behind: nobody can close it, it stays open until
  the service ends it, and its ticker goes on writing pings to it.
\<close>

theorem abandoned_dial_stays_open:
  assumes "wd_result d = DialGivesUp" "\<not> wc_closed (wd_conn d)" "ReadFails \<notin> set es"
    and "d' = ws_run parse_signal parse_credentials es d"
  shows "wd_result d' = DialGivesUp \<and> \<not> wc_closed (wd_conn d') \<and>
    wd_pings d' = wd_pings d + length (filter (\<lambda>e. e = PingTick) es)"
proof -
  let ?P = "\<lambda>n d'. wd_result d' = DialGivesUp \<and> \<not> wc_closed (wd_conn d') \<and> wd_pings d' = wd_pings d + n"
  have "?P (length (filter (\<lambda>e. e = PingTick) es)) (ws_run parse_signal parse_credentials es d)"
    using assms(3)
  proof (induction es rule: rev_induct)
    case Nil
    then show ?case using assms(1,2) by simp
  next
    case (snoc e es)
    let ?d = "ws_run parse_signal parse_credentials es d"
    from snoc have ih: "?P (length (filter (\<lambda>e. e = PingTick) es)) ?d" by simp
    show ?case
    proof (cases e)
      case (Arrives m)
      with ih show ?thesis unfolding ws_run_snoc
        by (cases "signal_of parse_signal m") (auto simp: read_step_def read_message_eq)
    qed (use ih snoc.prems in \<open>auto simp: ws_run_snoc ws_step_defs split: reader.split\<close>)
  qed
  with assms(4) show ?thesis by simp
qed

theorem abandoned_dial_stays_open_witness:
  "\<not> wc_closed (wd_conn (ws_run (\<lambda>s. None) Some [PingTick, OwnerCloses, PingTick]
      (ws_run (\<lambda>s. None) Some [CallerEnds, SelectsDone] demo_dial)))"
proof -
  let ?d = "ws_run (\<lambda>s. None) Some [CallerEnds, SelectsDone] demo_dial"
  have "wd_result ?d = DialGivesUp" "\<not> wc_closed (wd_conn ?d)"
    by (simp_all add: demo_dial_def dial_selects_def dial_ws_def)
  from abandoned_dial_stays_open [OF this, where es = "[PingTick, OwnerCloses, PingTick]" and parse_signal = "\<lambda>s. None"
      and parse_credentials = Some] show ?thesis by simp
qed

section \<open>The messaging connection\<close>

text \<open>
  \<open>claimMessagingID\<close>: \<open>parse_signed\<close> checks the form of the token, \<open>claims\<close> decodes its claims with the \<open>pmid\<close> claim, the zero id
  when it is missing, and \<open>valid_at\<close> is the validation of the times in them.
\<close>

definition zero_uuid :: string where "zero_uuid = ''00000000-0000-0000-0000-000000000000''"

definition claim_messaging_id ::
  "(string \<Rightarrow> 't option) \<Rightarrow> ('t \<Rightarrow> (string option \<times> 'w) option) \<Rightarrow> ('w \<Rightarrow> bool) \<Rightarrow> string \<Rightarrow> string option" where
  "claim_messaging_id parse_signed claims valid_now header =
     (case parse_signed (trim_prefix header ''MCToken '') of
        None \<Rightarrow> None
      | Some t \<Rightarrow>
          (case claims t of
             None \<Rightarrow> None
           | Some (pmid, window) \<Rightarrow>
               (if valid_now window then Some (case pmid of None \<Rightarrow> zero_uuid | Some i \<Rightarrow> i) else None)))"

text \<open>The connection: its ids, whether its context is over, and how often its websocket was closed.\<close>

record msg_link =
  ml_messaging_id :: string
  ml_network_id :: string
  ml_over :: bool
  ml_once :: bool
  ml_closes :: nat

definition new_msg_link :: "string \<Rightarrow> string \<Rightarrow> msg_link" where
  "new_msg_link messaging_id network_id =
     \<lparr>ml_messaging_id = messaging_id, ml_network_id = network_id, ml_over = False, ml_once = False, ml_closes = 0\<rparr>"

datatype msg_dial_error = NotOpened open_error | NoMessagingId

text \<open>\<open>DialContext\<close>: whether it opened a websocket, and its result.\<close>

definition dial_messaging ::
  "dial_env \<Rightarrow> (string \<Rightarrow> string option) \<Rightarrow> string \<Rightarrow> bool \<times> (msg_dial_error + msg_link)" where
  "dial_messaging env claim header =
     (case open_socket env of
        Some e \<Rightarrow> (False, Inl (NotOpened e))
      | None \<Rightarrow>
          (case claim header of
             None \<Rightarrow> (True, Inl NoMessagingId)
           | Some i \<Rightarrow> (True, Inr (new_msg_link i i))))"

definition close_msg :: "msg_link \<Rightarrow> msg_link" where
  "close_msg l = (if ml_once l then l else l\<lparr>ml_once := True, ml_over := True, ml_closes := Suc (ml_closes l)\<rparr>)"

text \<open>
  \<open>ReadSignal\<close>: a signal that a callback offers, or the end of the context. The goroutine of \<open>Notify\<close> reads until
  the end; the function that \<open>Notify\<close> returns closes the connection.
\<close>

datatype signal_read = GotSignal signal | ConnectionOver

definition may_read :: "signal option \<Rightarrow> msg_link \<Rightarrow> signal_read list" where
  "may_read offered l =
     (case offered of None \<Rightarrow> [] | Some sg \<Rightarrow> [GotSignal sg]) @ (if ml_over l then [ConnectionOver] else [])"

fun notify_loop :: "signal_read list \<Rightarrow> signal list" where
  "notify_loop [] = []"
| "notify_loop (GotSignal sg # rs) = sg # notify_loop rs"
| "notify_loop (ConnectionOver # rs) = []"

text \<open>An open websocket without a connection to close it by is left exactly when the token names no id.\<close>

theorem failed_claim_leaves_socket:
  "(\<exists>e. dial_messaging env claim header = (True, Inl e)) \<longleftrightarrow> open_socket env = None \<and> claim header = None"
  by (auto simp: dial_messaging_def split: option.splits)

text \<open>A connection that is closed any number of times closes its websocket once, and ends the notifier after what it had read.\<close>

lemma close_msg_once:
  assumes "dial_messaging env claim header = (True, Inr l)" "0 < n"
  shows "ml_closes ((close_msg ^^ n) l) = 1 \<and> may_read None ((close_msg ^^ n) l) = [ConnectionOver] \<and>
    notify_loop (map GotSignal sgs @ may_read None ((close_msg ^^ n) l)) = sgs"
proof -
  have l: "\<not> ml_once l" "ml_closes l = 0" using assms(1)
    by (auto simp: dial_messaging_def new_msg_link_def split: option.splits)
  have "ml_once ((close_msg ^^ Suc k) l) \<and> ml_over ((close_msg ^^ Suc k) l) \<and> ml_closes ((close_msg ^^ Suc k) l) = 1" for k
    by (induction k) (simp_all add: close_msg_def l)
  moreover obtain k where "n = Suc k" using assms(2) gr0_implies_Suc by blast
  moreover have "notify_loop (map GotSignal sgs @ [ConnectionOver]) = sgs" by (induction sgs) simp_all
  ultimately show ?thesis by (simp add: may_read_def del: funpow.simps)
qed

section \<open>The real-time activity connection\<close>

text \<open>
  \<open>Connect\<close>: the token, the dial, the first subscription, then frames and pongs until a read fails. A ping that fails
  closes the connection, so that the next read fails. It never returns without an error.
\<close>

record rta_attempt =
  rt_token :: bool
  rt_dials :: "instant option"
  rt_subscribes :: bool
  rt_events :: "rta_event list"

datatype rta_error = NoRtaToken | NoRtaSocket | NotSubscribed | RtaReadFailed

definition rta_connect ::
  "(string \<Rightarrow> int) \<Rightarrow> (string \<Rightarrow> (string \<rightharpoonup> json_value) option) \<Rightarrow> rta_attempt \<Rightarrow> rta \<Rightarrow> rta \<times> rta_action list \<times> rta_error" where
  "rta_connect json_int json_object a r =
     (if \<not> rt_token a then (r, [], NoRtaToken)
      else (case rt_dials a of
              None \<Rightarrow> (r, [], NoRtaSocket)
            | Some now \<Rightarrow>
                (let r = connected now r
                 in if \<not> rt_subscribes a then (r, [], NotSubscribed)
                    else (let (r, as) = rta_run json_int json_object (filter (\<lambda>e. \<forall>t. e \<noteq> Dialled t) (rt_events a)) r
                          in (r, as, RtaReadFailed)))))"

text \<open>\<open>runBroadcast\<close>'s goroutine: again after each error, with a pause of three seconds, until its context ends.\<close>

fun rta_forever ::
  "(string \<Rightarrow> int) \<Rightarrow> (string \<Rightarrow> (string \<rightharpoonup> json_value) option) \<Rightarrow> (rta_attempt \<times> bool) list \<Rightarrow> rta \<Rightarrow> rta \<times> rta_action list" where
  "rta_forever json_int json_object [] r = (r, [])"
| "rta_forever json_int json_object ((a, over) # as) r =
     (case rta_connect json_int json_object a r of
        (r, out, e) \<Rightarrow>
          (if over then (r, out) else (let (r, out') = rta_forever json_int json_object as r in (r, out @ out'))))"

text \<open>The frames of the connections that came up.\<close>

definition attempt_events :: "rta_attempt \<Rightarrow> rta_event list" where
  "attempt_events a =
     (if \<not> rt_token a then []
      else (case rt_dials a of
              None \<Rightarrow> []
            | Some now \<Rightarrow> Dialled now # (if rt_subscribes a then filter (\<lambda>e. \<forall>t. e \<noteq> Dialled t) (rt_events a) else [])))"

fun until_over :: "('a \<times> bool) list \<Rightarrow> 'a list" where
  "until_over [] = []"
| "until_over ((a, over) # as) = a # (if over then [] else until_over as)"

lemma rta_run_append:
  "rta_run json_int json_object (es @ fs) r =
     (let (r, as) = rta_run json_int json_object es r; (r, bs) = rta_run json_int json_object fs r in (r, as @ bs))"
  by (induction es arbitrary: r) (auto simp: Let_def split: prod.split)

lemma rta_connect_run:
  "rta_connect json_int json_object a r = (r', as, e) \<Longrightarrow> rta_run json_int json_object (attempt_events a) r = (r', as)"
  by (auto simp: rta_connect_def attempt_events_def Let_def split: if_splits option.splits prod.splits)

lemma rta_forever_run:
  "rta_forever json_int json_object as r = rta_run json_int json_object (concat (map attempt_events (until_over as))) r"
proof (induction as arbitrary: r)
  case (Cons x as)
  obtain a over where x: "x = (a, over)" by (cases x)
  obtain r' out e where c: "rta_connect json_int json_object a r = (r', out, e)" by (metis prod_cases3)
  show ?case
    using Cons.IH [of r'] c rta_connect_run [OF c] by (cases over) (simp_all add: x rta_run_append Let_def split: prod.split)
qed simp

text \<open>
  Over all attempts to connect, with their failures at any point, the client is told every connection id that a subscribed
  connection got, once and in order, and the id that a session is built with is the last of them.
\<close>

theorem reconnects_announce_each_id:
  "let ids = event_ids json_int json_object (concat (map attempt_events (until_over attempts)))
   in announced (snd (rta_forever json_int json_object attempts (new_rta x\<lparr>ra_on_connection_id := True\<rparr>))) = ids \<and>
     await_connection_id IdReady (fst (rta_forever json_int json_object attempts (new_rta x))) =
       (if ids = [] then None else Some (Inr (List.last ids)))"
  unfolding rta_forever_run Let_def
  using connection_id_is_newest [of json_int json_object "concat (map attempt_events (until_over attempts))" x] by simp

end
