(* ===== verification/Proxy_Login.thy ===== *)
theory Proxy_Login
  imports Go_Strings
begin

text \<open>
  The login of a proxied connection (\<open>proxy/proxy_conn.go\<close>, \<open>proxy/packet.go\<close>,
  \<open>proxy/self_signed_id.go\<close> and \<open>ForwardIdentity\<close> of \<open>proxy/dial.go\<close>): \<open>ReadLoop\<close>, which
  serves the joining client and the backend alike, with the packets it answers, the compression
  and encryption it turns on, and what it keeps for the relay. The packet codec, the login
  parser, keys and tokens are those of \<open>gophertunnel\<close> and \<open>go-jose\<close>: arguments, in
  \<open>proxy_lib\<close>. Keys, salts and shared secrets are byte strings.
\<close>

section \<open>Packets and connections\<close>

datatype play_status = LoginSuccess | LoginFailedClient | LoginFailedServer | PlayerSpawn | OtherStatus int

datatype game_packet =
    RequestNetworkSettingsPk "32 word"
  | NetworkSettingsPk "16 word" "16 word"
  | LoginPk "32 word" string
  | ServerToClientHandshakePk string
  | ClientToServerHandshakePk
  | DisconnectPk string
  | PlayStatusPk play_status
  | OtherPk nat

record identity_data =
  idd_xuid :: xuid
  idd_identity :: string
  idd_display_name :: string

record client_data =
  cld_self_signed_id :: string
  cld_third_party_name :: string
  cld_rest :: string

record auth_result =
  aur_authenticated :: bool
  aur_public_key :: string

text \<open>Compression with its threshold, and the key of the encryption, of an encoder or decoder.\<close>

record codec =
  co_compression :: "(string \<times> int) option"
  co_key :: "string option"

record proxy_lib =
  pl_header :: "string \<Rightarrow> (nat \<times> string) option"
  pl_packet :: "nat \<Rightarrow> string \<Rightarrow> game_packet option option"
  pl_batch :: "codec \<Rightarrow> nat \<Rightarrow> string \<Rightarrow> string list option"
  pl_write_ok :: "nat \<Rightarrow> bool"
  pl_parse_login :: "bool \<Rightarrow> string \<Rightarrow> identity_data \<times> client_data \<times> auth_result \<times> bool"
  pl_encode_offline :: "identity_data \<Rightarrow> client_data \<Rightarrow> string \<Rightarrow> string"
  pl_compression_id :: "string \<Rightarrow> 16 word"
  pl_compression_by_id :: "16 word \<Rightarrow> string option"
  pl_new_key :: "string option"
  pl_new_salt :: "string option"
  pl_server_token :: "string \<Rightarrow> string \<Rightarrow> string option"
  pl_open_token :: "string \<Rightarrow> (string \<times> string) option"
  pl_base64_raw :: "string \<Rightarrow> string option"
  pl_scalar_mult :: "string \<Rightarrow> string \<Rightarrow> string"
  pl_sha256 :: "string \<Rightarrow> string"
  pl_uuid_sha1 :: "string \<Rightarrow> string"

record proxy_conn =
  px_nethernet :: bool
  px_auth_enabled :: bool
  px_verifier :: bool
  px_client_encryption :: bool
  px_compression :: string
  px_enc :: codec
  px_dec :: codec
  px_read :: nat
  px_out :: "(codec \<times> game_packet) list"
  px_identity :: identity_data
  px_client_data :: client_data
  px_protocol :: "32 word"
  px_private_key :: "string option"
  px_salt :: "string option"
  px_login_done :: bool
  px_encryption_enabled :: bool
  px_login_pk :: "game_packet option"
  px_deferred :: "string list"
  px_settings_handled :: bool
  px_raw_login :: "string option"

definition no_identity :: identity_data where
  "no_identity = \<lparr>idd_xuid = '''', idd_identity = '''', idd_display_name = ''''\<rparr>"

definition no_client_data :: client_data where
  "no_client_data = \<lparr>cld_self_signed_id = '''', cld_third_party_name = '''', cld_rest = ''''\<rparr>"

definition plain_codec :: codec where
  "plain_codec = \<lparr>co_compression = None, co_key = None\<rparr>"

text \<open>\<open>default_compression\<close> is the algorithm \<open>main\<close> chose (\<open>proxy.DefaultCompression\<close>).\<close>

definition new_proxy_conn :: "string \<Rightarrow> bool \<Rightarrow> proxy_conn" where
  "new_proxy_conn default_compression is_nethernet =
     \<lparr>px_nethernet = is_nethernet, px_auth_enabled = False, px_verifier = False,
      px_client_encryption = False, px_compression = default_compression, px_enc = plain_codec,
      px_dec = plain_codec, px_read = 0, px_out = [], px_identity = no_identity,
      px_client_data = no_client_data, px_protocol = 0, px_private_key = None, px_salt = None,
      px_login_done = False, px_encryption_enabled = False, px_login_pk = None, px_deferred = [],
      px_settings_handled = False, px_raw_login = None\<rparr>"

text \<open>\<open>obtained\<close>: whether the verifier of the OpenID keys could be made.\<close>

definition set_auth_enabled :: "bool \<Rightarrow> bool \<Rightarrow> proxy_conn \<Rightarrow> proxy_conn" where
  "set_auth_enabled obtained enabled c =
     (if enabled then c\<lparr>px_auth_enabled := True, px_verifier := obtained\<rparr>
      else c\<lparr>px_auth_enabled := False\<rparr>)"

definition set_client_encryption :: "bool \<Rightarrow> proxy_conn \<Rightarrow> proxy_conn" where
  "set_client_encryption enabled c = c\<lparr>px_client_encryption := enabled\<rparr>"

definition max_decompressed :: int where "max_decompressed = 1024 * 1024 * 1024"

section \<open>Writing\<close>

text \<open>What is handed to the encoder, and how it is set then; the flag says whether that succeeded.\<close>

definition write_packet :: "proxy_lib \<Rightarrow> game_packet \<Rightarrow> proxy_conn \<Rightarrow> bool \<times> proxy_conn" where
  "write_packet lib pk c =
     (pl_write_ok lib (length (px_out c)), c\<lparr>px_out := px_out c @ [(px_enc c, pk)]\<rparr>)"

text \<open>\<open>WriteLegacyPacket\<close>: as \<open>WritePacket\<close>, with a marshaller of the caller's.\<close>

definition write_legacy_packet :: "proxy_lib \<Rightarrow> ('p \<Rightarrow> game_packet) \<Rightarrow> 'p \<Rightarrow> proxy_conn \<Rightarrow> bool \<times> proxy_conn" where
  "write_legacy_packet lib marshal pk c =
     (pl_write_ok lib (length (px_out c)), c\<lparr>px_out := px_out c @ [(px_enc c, marshal pk)]\<rparr>)"

definition enable_compression :: "string \<Rightarrow> int \<Rightarrow> proxy_conn \<Rightarrow> proxy_conn" where
  "enable_compression alg threshold c =
     c\<lparr>px_enc := (px_enc c)\<lparr>co_compression := Some (alg, threshold)\<rparr>,
       px_dec := (px_dec c)\<lparr>co_compression := Some (alg, max_decompressed)\<rparr>\<rparr>"

definition encrypt_with :: "string \<Rightarrow> proxy_conn \<Rightarrow> proxy_conn" where
  "encrypt_with key c =
     c\<lparr>px_enc := (px_enc c)\<lparr>co_key := Some key\<rparr>, px_dec := (px_dec c)\<lparr>co_key := Some key\<rparr>\<rparr>"

text \<open>
  The key of both ends. A point whose coordinate has more than 48 bytes makes
  \<open>bytes.Repeat\<close> panic: \<open>None\<close>.
\<close>

definition shared_key :: "proxy_lib \<Rightarrow> string \<Rightarrow> string \<Rightarrow> string \<Rightarrow> string option" where
  "shared_key lib public private salt =
     (let x = pl_scalar_mult lib public private
      in if 48 < length x then None
         else Some (pl_sha256 lib (salt @ replicate (48 - length x) (CHR 0x00) @ x)))"

section \<open>Handlers\<close>

datatype login_error =
    NoPacket | BadHeader | BadPacket | UnexpectedPacket | SendFailed | UnknownCompression
  | BadLogin | NotAuthenticated | NoKey | NoSalt | NoToken | Disconnected string
  | OutdatedClient | OutdatedServer | BadPlayStatus int | BadToken | BadSalt

text \<open>What a packet means for the loop: read on, return nil, return an error, panic.\<close>

datatype verdict = Continue | Finished | Failed login_error | Crashed

definition check_client_packet :: "game_packet \<Rightarrow> proxy_conn \<Rightarrow> bool" where
  "check_client_packet pk c =
     (case pk of
        ServerToClientHandshakePk jwt \<Rightarrow> False
      | NetworkSettingsPk alg threshold \<Rightarrow> False
      | PlayStatusPk st \<Rightarrow> False
      | ClientToServerHandshakePk \<Rightarrow> px_encryption_enabled c
      | _ \<Rightarrow> True)"

definition handle_request_network_settings ::
  "proxy_lib \<Rightarrow> int \<Rightarrow> proxy_conn \<Rightarrow> verdict \<times> proxy_conn" where
  "handle_request_network_settings lib threshold c =
     (let c = c\<lparr>px_settings_handled := True\<rparr>;
          (ok, c) = write_packet lib (NetworkSettingsPk (pl_compression_id lib (px_compression c)) (word_of_int threshold)) c
      in if \<not> ok then (Failed SendFailed, c)
         else (Continue, enable_compression (px_compression c) threshold c))"

definition handle_network_settings ::
  "proxy_lib \<Rightarrow> 16 word \<Rightarrow> 16 word \<Rightarrow> proxy_conn \<Rightarrow> verdict \<times> proxy_conn" where
  "handle_network_settings lib alg threshold c =
     (case pl_compression_by_id lib alg of
        None \<Rightarrow> (Failed UnknownCompression, c)
      | Some a \<Rightarrow>
          (let c = enable_compression a (uint threshold) c
           in case px_login_pk c of
                None \<Rightarrow> (Continue, c)
              | Some pk \<Rightarrow> (Continue, snd (write_packet lib pk c))))"

definition enable_encryption :: "proxy_lib \<Rightarrow> string \<Rightarrow> proxy_conn \<Rightarrow> verdict \<times> proxy_conn" where
  "enable_encryption lib client_public_key c =
     (case (if px_private_key c = None then pl_new_key lib else px_private_key c) of
        None \<Rightarrow> (Failed NoKey, c)
      | Some key \<Rightarrow>
          (let c = c\<lparr>px_private_key := Some key\<rparr>
           in case (if px_salt c = None then pl_new_salt lib else px_salt c) of
                None \<Rightarrow> (Failed NoSalt, c)
              | Some salt \<Rightarrow>
                  (let c = c\<lparr>px_salt := Some salt\<rparr>
                   in case pl_server_token lib key salt of
                        None \<Rightarrow> (Failed NoToken, c)
                      | Some jwt \<Rightarrow>
                          (let (ok, c) = write_packet lib (ServerToClientHandshakePk jwt) c
                           in if \<not> ok then (Failed SendFailed, c)
                              else (case shared_key lib client_public_key key salt of
                                      None \<Rightarrow> (Crashed, c)
                                    | Some k \<Rightarrow> (Continue, (encrypt_with k c)\<lparr>px_encryption_enabled := True\<rparr>))))))"

definition handle_client_to_server_handshake :: "proxy_conn \<Rightarrow> verdict \<times> proxy_conn" where
  "handle_client_to_server_handshake c = (Continue, c)"

definition handle_login :: "proxy_lib \<Rightarrow> 32 word \<Rightarrow> string \<Rightarrow> proxy_conn \<Rightarrow> verdict \<times> proxy_conn" where
  "handle_login lib client_protocol request c =
     (let c = c\<lparr>px_protocol := client_protocol\<rparr>;
          (identity, client_data, auth, ok) = pl_parse_login lib (px_verifier c) request;
          c = c\<lparr>px_identity := identity, px_client_data := client_data\<rparr>
      in if \<not> ok then (Failed BadLogin, c)
         else if \<not> aur_authenticated auth \<and> px_auth_enabled c
         then (Failed NotAuthenticated, snd (write_packet lib (DisconnectPk ''You must be logged in with XBOX Live to join.'') c))
         else if \<not> px_nethernet c \<or> px_client_encryption c
         then (case enable_encryption lib (aur_public_key auth) c of
                 (Continue, c) \<Rightarrow> handle_client_to_server_handshake c
               | (v, c) \<Rightarrow> (v, c))
         else handle_client_to_server_handshake c)"

definition handle_server_to_client_handshake ::
  "proxy_lib \<Rightarrow> string \<Rightarrow> proxy_conn \<Rightarrow> verdict \<times> proxy_conn" where
  "handle_server_to_client_handshake lib jwt c =
     (let c = c\<lparr>px_encryption_enabled := True\<rparr>
      in case pl_open_token lib jwt of
           None \<Rightarrow> (Failed BadToken, c)
         | Some (public, salt) \<Rightarrow>
             (case pl_base64_raw lib (trim_right_set ''='' salt) of
                None \<Rightarrow> (Failed BadSalt, c)
              | Some salt \<Rightarrow>
                  (case px_private_key c of
                     None \<Rightarrow> (Crashed, c)
                   | Some private \<Rightarrow>
                       (case shared_key lib public private salt of
                          None \<Rightarrow> (Crashed, c)
                        | Some k \<Rightarrow> (Continue, snd (write_packet lib ClientToServerHandshakePk (encrypt_with k c)))))))"

section \<open>The read loop\<close>

definition defer_remaining :: "string list \<Rightarrow> proxy_conn \<Rightarrow> proxy_conn" where
  "defer_remaining rest c = c\<lparr>px_deferred := px_deferred c @ rest\<rparr>"

definition finish :: "string list \<Rightarrow> proxy_conn \<Rightarrow> verdict \<times> proxy_conn" where
  "finish rest c = (Finished, defer_remaining rest (c\<lparr>px_login_done := True\<rparr>))"

definition parse_data :: "proxy_lib \<Rightarrow> string \<Rightarrow> login_error + nat \<times> string" where
  "parse_data lib raw =
     (case pl_header lib raw of None \<Rightarrow> Inl BadHeader | Some packet_data \<Rightarrow> Inr packet_data)"

text \<open>\<open>ParseData\<close>, the pool and \<open>decodePacket\<close>: \<open>None\<close> for a packet that is not in the pool.\<close>

definition decode_packet :: "proxy_lib \<Rightarrow> string \<Rightarrow> login_error + game_packet option" where
  "decode_packet lib raw =
     (case parse_data lib raw of
        Inl e \<Rightarrow> Inl e
      | Inr (pid, payload) \<Rightarrow>
          (case pl_packet lib pid payload of
             None \<Rightarrow> Inr None
           | Some None \<Rightarrow> Inl BadPacket
           | Some (Some pk) \<Rightarrow> Inr (Some pk)))"

text \<open>
  One packet: \<open>raw\<close> with the rest of its batch behind it. \<open>threshold\<close> is
  \<open>proxy.DefaultCompressionThreshold\<close>.
\<close>

definition handle_packet ::
  "proxy_lib \<Rightarrow> int \<Rightarrow> string list \<Rightarrow> string \<Rightarrow> game_packet \<Rightarrow> proxy_conn \<Rightarrow> verdict \<times> proxy_conn" where
  "handle_packet lib threshold rest raw pk c =
     (if px_nethernet c \<and> \<not> check_client_packet pk c then (Failed UnexpectedPacket, c)
      else (case pk of
              RequestNetworkSettingsPk p \<Rightarrow> handle_request_network_settings lib threshold c
            | NetworkSettingsPk alg t \<Rightarrow> handle_network_settings lib alg t c
            | LoginPk p request \<Rightarrow>
                (case handle_login lib p request c of
                   (Continue, c) \<Rightarrow>
                     (if px_nethernet c
                      then (let c = c\<lparr>px_raw_login := Some raw\<rparr>
                            in if px_encryption_enabled c then (Continue, c) else finish rest c)
                      else (Continue, c))
                 | (v, c) \<Rightarrow> (v, c))
            | ServerToClientHandshakePk jwt \<Rightarrow>
                (case handle_server_to_client_handshake lib jwt c of
                   (Continue, c) \<Rightarrow> finish rest c
                 | (v, c) \<Rightarrow> (v, c))
            | ClientToServerHandshakePk \<Rightarrow>
                (case handle_client_to_server_handshake c of
                   (Continue, c) \<Rightarrow> finish rest c
                 | (v, c) \<Rightarrow> (v, c))
            | DisconnectPk msg \<Rightarrow> (Failed (Disconnected msg), c)
            | PlayStatusPk st \<Rightarrow>
                (case st of
                   LoginSuccess \<Rightarrow> finish rest (c\<lparr>px_deferred := px_deferred c @ [raw]\<rparr>)
                 | PlayerSpawn \<Rightarrow> finish rest (c\<lparr>px_deferred := px_deferred c @ [raw]\<rparr>)
                 | LoginFailedClient \<Rightarrow> (Failed OutdatedClient, c)
                 | LoginFailedServer \<Rightarrow> (Failed OutdatedServer, c)
                 | OtherStatus n \<Rightarrow> (Failed (BadPlayStatus n), c))
            | OtherPk n \<Rightarrow> (Continue, c\<lparr>px_deferred := px_deferred c @ [raw]\<rparr>)))"

fun read_batch :: "proxy_lib \<Rightarrow> int \<Rightarrow> string list \<Rightarrow> proxy_conn \<Rightarrow> verdict \<times> proxy_conn" where
  "read_batch lib threshold [] c = (Continue, c)"
| "read_batch lib threshold (raw # rest) c =
     (case decode_packet lib raw of
        Inl e \<Rightarrow> (Failed e, c)
      | Inr None \<Rightarrow> read_batch lib threshold rest c
      | Inr (Some pk) \<Rightarrow>
          (case handle_packet lib threshold rest raw pk c of
             (Continue, c) \<Rightarrow> read_batch lib threshold rest c
           | (v, c) \<Rightarrow> (v, c)))"

text \<open>
  \<open>ReadPackets\<close>: the deferred packets once the login is done, otherwise the next frame of the
  connection. No frame left means that the call still waits.
\<close>

definition read_packets ::
  "proxy_lib \<Rightarrow> string list \<Rightarrow> proxy_conn \<Rightarrow> (string list option \<times> proxy_conn \<times> string list) option" where
  "read_packets lib frames c =
     (if px_deferred c \<noteq> [] \<and> px_login_done c
      then Some (Some (px_deferred c), c\<lparr>px_deferred := []\<rparr>, frames)
      else (case frames of
              [] \<Rightarrow> None
            | f # fs \<Rightarrow> Some (pl_batch lib (px_dec c) (px_read c) f, c\<lparr>px_read := Suc (px_read c)\<rparr>, fs)))"

text \<open>
  \<open>ReadLoop\<close>, with fuel; \<open>Continue\<close> is the loop waiting for a frame. A loop that is started when
  the login is done may read its own deferred packets for ever; the relay never does that.
\<close>

fun read_loop ::
  "proxy_lib \<Rightarrow> int \<Rightarrow> nat \<Rightarrow> string list \<Rightarrow> proxy_conn \<Rightarrow> (verdict \<times> proxy_conn \<times> string list) option" where
  "read_loop lib threshold 0 frames c = None"
| "read_loop lib threshold (Suc n) frames c =
     (case read_packets lib frames c of
        None \<Rightarrow> Some (Continue, c, frames)
      | Some (None, c, fs) \<Rightarrow> Some (Failed NoPacket, c, fs)
      | Some (Some pks, c, fs) \<Rightarrow>
          (case read_batch lib threshold pks c of
             (Continue, c) \<Rightarrow> read_loop lib threshold n fs c
           | (v, c) \<Rightarrow> Some (v, c, fs)))"

section \<open>The backend leg\<close>

definition self_signed_id_from_xuid :: "proxy_lib \<Rightarrow> xuid \<Rightarrow> string" where
  "self_signed_id_from_xuid lib x = pl_uuid_sha1 lib x"

definition forwarded_client_data :: "proxy_lib \<Rightarrow> identity_data \<Rightarrow> bool \<Rightarrow> client_data \<Rightarrow> client_data" where
  "forwarded_client_data lib identity fix_native cd =
     (let cd = (if fix_native then cd\<lparr>cld_self_signed_id := self_signed_id_from_xuid lib (idd_xuid identity)\<rparr> else cd)
      in cd\<lparr>cld_third_party_name := idd_display_name identity\<rparr>)"

definition prepare_login ::
  "proxy_lib \<Rightarrow> 32 word \<Rightarrow> identity_data \<Rightarrow> client_data \<Rightarrow> bool \<Rightarrow> string \<Rightarrow> proxy_conn \<Rightarrow> proxy_conn" where
  "prepare_login lib p identity cd fix_native key c =
     (let cd = forwarded_client_data lib identity fix_native cd
      in c\<lparr>px_private_key := Some key, px_identity := identity, px_client_data := cd, px_protocol := p,
           px_login_pk := Some (LoginPk p (pl_encode_offline lib identity cd key))\<rparr>)"

definition forward_identity ::
  "proxy_lib \<Rightarrow> int \<Rightarrow> nat \<Rightarrow> 32 word \<Rightarrow> identity_data \<Rightarrow> client_data \<Rightarrow> bool \<Rightarrow> string option \<Rightarrow> string list \<Rightarrow> proxy_conn \<Rightarrow>
   (verdict \<times> proxy_conn \<times> string list) option" where
  "forward_identity lib threshold n p identity cd fix_native transport_key frames c =
     (case (if transport_key = None then pl_new_key lib else transport_key) of
        None \<Rightarrow> Some (Failed NoKey, c, frames)
      | Some key \<Rightarrow>
          (let (ok, c) = write_packet lib (RequestNetworkSettingsPk p) (prepare_login lib p identity cd fix_native key c)
           in if \<not> ok then Some (Failed SendFailed, c, frames)
              else read_loop lib threshold n frames c))"

text \<open>The client's end as \<open>HandleConn\<close> sets it up.\<close>

definition client_conn :: "string \<Rightarrow> bool \<Rightarrow> bool \<Rightarrow> proxy_conn" where
  "client_conn default_compression obtained encrypt =
     set_client_encryption encrypt (set_auth_enabled obtained True (new_proxy_conn default_compression True))"

end
