(* ===== verification/Legacy_Login.thy ===== *)
theory Legacy_Login
  imports Proxy_Login
begin

text \<open>
  \<open>Login\<close> of \<open>proxy/dial.go\<close> with its helpers: a login to a server as the account itself, with the chain
  of the Minecraft authentication service. The tokens, the service, the JSON and JWT libraries and the login encoder
  are arguments. \<open>Login\<close> runs \<open>ReadLoop\<close> beside a goroutine that watches a deadline of thirty seconds.
\<close>

section \<open>The chain\<close>

definition minecraft_auth_url :: string where
  "minecraft_auth_url = ''https://multiplayer.minecraft.net/authentication''"

text \<open>The body that is posted; \<open>b64\<close> encodes the marshalled public key.\<close>

definition chain_request :: "(string \<Rightarrow> string) \<Rightarrow> string \<Rightarrow> string" where
  "chain_request b64 der = ''{\"identityPublicKey\":\"'' @ b64 der @ ''\"}''"

text \<open>
  \<open>requestMinecraftChain\<close> and \<open>authChain\<close>: \<open>post\<close> gives the status of the answer to a body, what could be read of it and whether
  that was all.
\<close>

definition request_chain ::
  "(string \<Rightarrow> string) \<Rightarrow> (string \<Rightarrow> string \<Rightarrow> (int \<times> string \<times> bool) option) \<Rightarrow> string option \<Rightarrow> string option" where
  "request_chain b64 post der =
     (case der of
        None \<Rightarrow> None
      | Some d \<Rightarrow>
          (case post minecraft_auth_url (chain_request b64 d) of
             None \<Rightarrow> None
           | Some (status, body, complete) \<Rightarrow> if status = 200 \<and> complete then Some body else None))"

text \<open>
  \<open>readChainIdentityData\<close>: the identity in the second token of the chain, whose signature is not checked. A chain
  of fewer than two tokens panics.
\<close>

datatype 'a chain_read = ChainPanics | ChainBroken | ChainGives 'a

definition read_chain ::
  "(string \<Rightarrow> string list option) \<Rightarrow> (string \<Rightarrow> 't option) \<Rightarrow> ('t \<Rightarrow> identity_data option) \<Rightarrow> string \<Rightarrow>
   identity_data chain_read" where
  "read_chain json_chain parse_signed extra_data body =
     (case json_chain body of
        None \<Rightarrow> ChainBroken
      | Some chain \<Rightarrow>
          (if length chain < 2 then ChainPanics
           else (case parse_signed (chain ! 1) of
                   None \<Rightarrow> ChainBroken
                 | Some t \<Rightarrow>
                     (case extra_data t of
                        None \<Rightarrow> ChainBroken
                      | Some i \<Rightarrow> if idd_identity i = '''' then ChainBroken else ChainGives i))))"

section \<open>Before the read loop\<close>

record login_answers =
  la_xsts :: bool
  la_chain :: "string option"
  la_identity :: "string \<Rightarrow> identity_data chain_read"
  la_token :: "string option"
  la_verifier :: bool
  la_encode :: "string \<Rightarrow> client_data \<Rightarrow> string \<Rightarrow> string \<Rightarrow> string"
  la_parse :: "string \<Rightarrow> identity_data"

datatype login_stop = LoginPanics | LoginFails

text \<open>
  \<open>key\<close> is the generated key. The identity of the connection is the one that the login parser finds in the
  request just encoded; an error of the parser is ignored. The protocol of the connection is not set.
\<close>

definition prepare_account_login ::
  "proxy_lib \<Rightarrow> login_answers \<Rightarrow> string \<Rightarrow> client_data \<Rightarrow> 32 word \<Rightarrow> proxy_conn \<Rightarrow> proxy_conn \<times> login_stop option" where
  "prepare_account_login lib la key cd p c =
     (let (ok, c) = write_packet lib (RequestNetworkSettingsPk p) c
      in if \<not> ok \<or> \<not> la_xsts la then (c, Some LoginFails)
         else (case la_chain la of
                 None \<Rightarrow> (c, Some LoginFails)
               | Some chain \<Rightarrow>
                   (case la_identity la chain of
                      ChainPanics \<Rightarrow> (c, Some LoginPanics)
                    | ChainBroken \<Rightarrow> (c, Some LoginFails)
                    | ChainGives i \<Rightarrow>
                        (let c = c\<lparr>px_client_data := cd, px_private_key := Some key\<rparr>
                         in case la_token la of
                              None \<Rightarrow> (c, Some LoginFails)
                            | Some t \<Rightarrow>
                                (if \<not> la_verifier la then (c, Some LoginFails)
                                 else (let request = la_encode la chain cd key t
                                       in (c\<lparr>px_identity := la_parse la request,
                                             px_login_pk := Some (LoginPk p request)\<rparr>, None)))))))"

section \<open>The read loop and its watcher\<close>

text \<open>
  The caller runs the loop and then hands a value to the channel \<open>done\<close>, which has no buffer; the watcher
  takes that value or the end of the deadline, whichever its \<open>select\<close> sees.
\<close>

datatype caller_pc = InLoop | HandsOver | Back

datatype watcher_pc = Watching | TimedOutAndGone | DoneAndGone

record account_login =
  lr_caller :: caller_pc
  lr_watcher :: watcher_pc
  lr_deadline :: bool
  lr_conn_closed :: bool

datatype login_event = DeadlinePasses | WatcherTimesOut | LoopReturns | Rendezvous

definition login_begins :: account_login where
  "login_begins = \<lparr>lr_caller = InLoop, lr_watcher = Watching, lr_deadline = False, lr_conn_closed = False\<rparr>"

fun account_login_step :: "account_login \<Rightarrow> login_event \<Rightarrow> account_login" where
  "account_login_step r DeadlinePasses = r\<lparr>lr_deadline := True\<rparr>"
| "account_login_step r WatcherTimesOut =
     (if lr_watcher r = Watching \<and> lr_deadline r then r\<lparr>lr_watcher := TimedOutAndGone, lr_conn_closed := True\<rparr> else r)"
| "account_login_step r LoopReturns = (if lr_caller r = InLoop then r\<lparr>lr_caller := HandsOver\<rparr> else r)"
| "account_login_step r Rendezvous =
     (if lr_caller r = HandsOver \<and> lr_watcher r = Watching then r\<lparr>lr_caller := Back, lr_watcher := DoneAndGone\<rparr> else r)"

definition run_login :: "login_event list \<Rightarrow> account_login" where
  "run_login es = foldl account_login_step login_begins es"

section \<open>Properties\<close>

definition account_login_inv :: "account_login \<Rightarrow> bool" where
  "account_login_inv r \<longleftrightarrow>
     (lr_conn_closed r \<longleftrightarrow> lr_watcher r = TimedOutAndGone) \<and> (lr_caller r = Back \<longleftrightarrow> lr_watcher r = DoneAndGone) \<and>
     (lr_conn_closed r \<longrightarrow> lr_deadline r)"

interpretation logins: invariant_machine account_login_step account_login_inv
proof
  fix r e
  assume "account_login_inv r"
  then show "account_login_inv (account_login_step r e)" by (cases e) (auto simp: account_login_inv_def)
qed

text \<open>
  A login whose deadline closed the connection never returns: in no order of events has the connection been closed by the
  watcher and the caller come back, since nobody is left to take what it hands over.
\<close>

theorem timed_out_login_never_returns:
  "\<not> (lr_conn_closed (run_login es) \<and> lr_caller (run_login (es @ fs)) = Back)"
proof -
  have start: "account_login_inv login_begins" by (simp add: account_login_inv_def login_begins_def)
  have closed: "lr_conn_closed (run_login (es @ fs))" if "lr_conn_closed (run_login es)"
  proof (induction fs rule: rev_induct)
    case Nil
    then show ?case using that by simp
  next
    case (snoc e fs)
    have step: "run_login (es @ fs @ [e]) = account_login_step (run_login (es @ fs)) e" by (simp add: run_login_def)
    show ?case using snoc unfolding step by (cases e) auto
  qed
  have "account_login_inv (run_login (es @ fs))" unfolding run_login_def by (rule logins.run_keeps [OF start])
  then show ?thesis using closed by (auto simp: account_login_inv_def)
qed

text \<open>A login that ends before its deadline returns once the two have met, with the connection open.\<close>

theorem timely_login_returns:
  "run_login [LoopReturns, Rendezvous] =
     \<lparr>lr_caller = Back, lr_watcher = DoneAndGone, lr_deadline = False, lr_conn_closed = False\<rparr>"
  by (simp add: run_login_def login_begins_def)

text \<open>
  What is sent to the service names the generated key, and a chain that is accepted is a complete answer with
  status 200 to exactly that request.
\<close>

theorem chain_answers_request:
  "request_chain b64 post der = Some body \<longleftrightarrow>
     (\<exists>d. der = Some d \<and> post minecraft_auth_url (chain_request b64 d) = Some (200, body, True))"
  by (auto simp: request_chain_def split: option.splits prod.splits if_splits)

text \<open>A short chain from the service is a panic, not an error.\<close>

theorem short_chain_panics:
  "read_chain json_chain parse_signed extra_data body = ChainPanics \<longleftrightarrow>
     (\<exists>chain. json_chain body = Some chain \<and> length chain < 2)"
  by (auto simp: read_chain_def split: option.splits if_splits)

text \<open>A connection that is ready for the read loop sends the login it was prepared with and holds the generated key.\<close>

theorem prepared_login_is_sent:
  "prepare_account_login lib la key cd p c = (c', None) \<Longrightarrow>
   (\<exists>chain t. la_chain la = Some chain \<and> la_token la = Some t \<and>
      px_login_pk c' = Some (LoginPk p (la_encode la chain cd key t)) \<and>
      px_identity c' = la_parse la (la_encode la chain cd key t)) \<and>
   px_private_key c' = Some key \<and> px_client_data c' = cd \<and> px_protocol c' = px_protocol c \<and>
   px_out c' = px_out c @ [(px_enc c, RequestNetworkSettingsPk p)]"
  by (auto simp: prepare_account_login_def write_packet_def Let_def split: if_splits option.splits chain_read.splits)

end
