(* ===== verification/Host_Join.thy ===== *)
theory Host_Join
  imports Messaging_Conn
begin

text \<open>
  A player joins over messaging signaling in the mode \<open>nethernet-norelay\<close>: \<open>Conn\<close> of
  \<open>messaging/conn.go\<close> and \<open>signalBroker\<close> of \<open>bridge/norelay.go\<close> together, as \<open>signalBroker.Run\<close>
  connects them (\<open>b.sig.Notify(b)\<close>). What \<open>handleCallback\<close> releases reaches \<open>NotifySignal\<close> in order.
  The two key their states differently: \<open>Conn\<close> by the connection id alone, the broker by the sender
  and the connection id.
\<close>

section \<open>The two together\<close>

record host =
  ho_stores :: stores
  ho_broker :: broker
  ho_taken :: "(connection_key \<times> string \<times> string list) list"

text \<open>
  A signal arrives, the ticker sweeps the stores, the timer of an offer fires, a forward ends.
  \<open>ho_taken\<close> keeps what the forwards took, in order.
\<close>

datatype host_event = Arrives instant signal | Sweeps instant | Fires connection_key | Forwarded

definition notify_all :: "instant \<Rightarrow> signal list \<Rightarrow> broker \<Rightarrow> broker" where
  "notify_all now out b = fold (\<lambda>s b. fst (notify_signal now s b)) out b"

fun host_step :: "host_event \<Rightarrow> host \<Rightarrow> host" where
  "host_step (Arrives now s) h =
     (let (m, out) = receive_signal now s (ho_stores h)
      in h\<lparr>ho_stores := m, ho_broker := notify_all now out (ho_broker h)\<rparr>)"
| "host_step (Sweeps now) h = h\<lparr>ho_stores := store_tick now (ho_stores h)\<rparr>"
| "host_step (Fires key) h =
     (case forward_take key (ho_broker h) of
        (b, None) \<Rightarrow> h\<lparr>ho_broker := b\<rparr>
      | (b, Some taken) \<Rightarrow> h\<lparr>ho_broker := b, ho_taken := ho_taken h @ [(key, taken)]\<rparr>)"
| "host_step Forwarded h =
     (if b_forwarding (ho_broker h) = 0 then h else h\<lparr>ho_broker := forward_finish (ho_broker h)\<rparr>)"

definition host_run :: "host_event list \<Rightarrow> host \<Rightarrow> host" where
  "host_run es h = fold host_step es h"

lemma host_run_simps [simp]:
  "host_run [] h = h"
  "host_run (e # es) h = host_run es (host_step e h)"
  "host_run (es @ es') h = host_run es' (host_run es h)"
  by (simp_all add: host_run_def)

section \<open>Candidates on their way\<close>

text \<open>A candidate of a connection that the broker would keep.\<close>

definition keepable :: "connection_key \<Rightarrow> signal \<Rightarrow> bool" where
  "keepable key s \<longleftrightarrow> sig_type s = SigCandidate \<and> signal_key s = key \<and>
     length (sig_data s) \<le> max_candidate_bytes \<and> \<not> is_relay_candidate (sig_data s)"

definition arrivals :: "(instant \<times> signal) list \<Rightarrow> host_event list" where
  "arrivals cs = map (\<lambda>(t, s). Arrives t s) cs"

lemma keepable_id: "keepable key s \<Longrightarrow> sig_type s = SigCandidate \<and> sig_connection_id s = ck_connection_id key"
  by (auto simp: keepable_def signal_key_def)

definition undescribed :: "64 word \<Rightarrow> signal list \<Rightarrow> stores \<Rightarrow> bool" where
  "undescribed cid xs m \<longleftrightarrow> store_waiting cid m = xs \<and> \<not> store_described cid m"

lemma receive_held:
  assumes "sig_type s = SigCandidate" "sig_connection_id s = cid" "undescribed cid xs m"
  shows "snd (receive_signal now s m) = [] \<and> undescribed cid (xs @ [s]) (fst (receive_signal now s m))"
  using assms
  by (cases "m cid") (auto simp: undescribed_def receive_signal_def try_send_def stored_def
      store_waiting_def store_described_def Let_def)

lemma receive_flushes:
  assumes "sig_type s = SigOffer" "sig_connection_id s = cid" "undescribed cid xs m"
  shows "snd (receive_signal now s m) = s # xs \<and> store_described cid (fst (receive_signal now s m)) \<and>
    store_waiting cid (fst (receive_signal now s m)) = []"
  using assms
  by (cases "m cid") (auto simp: undescribed_def receive_signal_def try_send_def stored_def
      store_waiting_def store_described_def Let_def)

lemma receive_described:
  assumes "sig_type s = SigOffer" "sig_connection_id s = cid" "store_described cid m" "store_waiting cid m = []"
  shows "snd (receive_signal now s m) = [s]"
  using assms
  by (cases "m cid") (auto simp: receive_signal_def try_send_def stored_def
      store_waiting_def store_described_def Let_def)

lemma arrivals_held:
  assumes "list_all (keepable key \<circ> snd) cs" "undescribed (ck_connection_id key) xs (ho_stores h)"
  shows "undescribed (ck_connection_id key) (xs @ map snd cs) (ho_stores (host_run (arrivals cs) h)) \<and>
    ho_broker (host_run (arrivals cs) h) = ho_broker h \<and> ho_taken (host_run (arrivals cs) h) = ho_taken h"
  using assms
proof (induction cs arbitrary: xs h)
  case Nil then show ?case by (simp add: arrivals_def)
next
  case (Cons c cs)
  obtain t s where c: "c = (t, s)" by (cases c)
  have k: "keepable key s" using Cons.prems(1) c by simp
  obtain m out where r: "receive_signal t s (ho_stores h) = (m, out)" by (cases "receive_signal t s (ho_stores h)")
  have held: "out = [] \<and> undescribed (ck_connection_id key) (xs @ [s]) m"
    using receive_held [of s "ck_connection_id key" xs "ho_stores h" t] keepable_id [OF k] Cons.prems(2) r by simp
  show ?case
    using Cons.IH [of "xs @ [s]" "h\<lparr>ho_stores := m\<rparr>"] Cons.prems(1) held
    by (simp add: c arrivals_def r notify_all_def)
qed

section \<open>The broker's side\<close>

lemma notify_offer:
  assumes "sig_type s = SigOffer" "b_pending b (signal_key s) = None"
    "length (sig_data s) \<le> max_offer_bytes" "b_in_flight b < max_in_flight"
  shows "\<exists>off. b_pending (fst (notify_signal now s b)) (signal_key s) = Some off \<and> of_offer off = sig_data s \<and>
    of_candidates off = [] \<and> \<not> of_done off"
  using assms by (auto simp: notify_signal_def Let_def arm_def)

lemma notify_kept:
  assumes "keepable key s" "b_pending b key = Some off" "\<not> of_done off" "length (of_candidates off) < max_candidates"
  shows "\<exists>off'. b_pending (fst (notify_signal now s b)) key = Some off' \<and> of_offer off' = of_offer off \<and>
    of_candidates off' = of_candidates off @ [sig_data s] \<and> \<not> of_done off'"
  using assms by (auto simp: keepable_def notify_signal_def Let_def arm_def)

lemma notify_all_kept:
  assumes "list_all (keepable key) ss" "b_pending b key = Some off" "\<not> of_done off"
    "length (of_candidates off) + length ss \<le> max_candidates"
  shows "\<exists>off'. b_pending (notify_all now ss b) key = Some off' \<and> of_offer off' = of_offer off \<and>
    of_candidates off' = of_candidates off @ map sig_data ss \<and> \<not> of_done off'"
  using assms
proof (induction ss arbitrary: b off)
  case Nil then show ?case by (simp add: notify_all_def)
next
  case (Cons s ss)
  have "keepable key s" "length (of_candidates off) < max_candidates" using Cons.prems(1,4) by simp_all
  then obtain off' where o: "b_pending (fst (notify_signal now s b)) key = Some off'" "of_offer off' = of_offer off"
    "of_candidates off' = of_candidates off @ [sig_data s]" "\<not> of_done off'"
    using notify_kept [of key s b off now] Cons.prems(2,3) by auto
  show ?case using Cons.IH [OF _ o(1) o(4)] Cons.prems(1,4) o by (simp add: notify_all_def)
qed

lemma notify_other_key:
  assumes "signal_key s \<noteq> key"
  shows "b_pending (fst (notify_signal now s b)) key = b_pending b key"
  using assms
  by (cases "sig_type s") (auto simp: notify_signal_def refused_locked_def Let_def split: option.splits)

lemma notify_unknown_candidate:
  assumes "keepable key s" "b_pending b key = None"
  shows "fst (notify_signal now s b) = b"
  using assms by (simp add: keepable_def notify_signal_def Let_def)

lemma notify_all_unknown:
  assumes "list_all (keepable key) ss" "b_pending b key = None"
  shows "notify_all now ss b = b"
  using assms
proof (induction ss)
  case (Cons s ss)
  then have "fst (notify_signal now s b) = b" using notify_unknown_candidate [of key s b now] by simp
  with Cons show ?case by (simp add: notify_all_def)
qed (simp add: notify_all_def)

lemma notify_offer_in_flight:
  "sig_type s = SigOffer \<Longrightarrow> b_in_flight (fst (notify_signal now s b)) \<le> b_in_flight b + 1"
  by (auto simp: notify_signal_def refused_locked_def Let_def)

lemma take_pending:
  assumes "b_pending b key = Some off" "\<not> of_done off"
  shows "\<exists>b'. forward_take key b = (b', Some (of_offer off, of_candidates off))"
  using assms by (simp add: forward_take_def)

section \<open>Properties\<close>


text \<open>
  An offer that somebody else sends under the same connection id releases the candidates that are
  held for the real offer; the broker, which knows no offer of their sender yet, drops them, and
  the offer that comes later is forwarded with none of them.
\<close>

theorem foreign_offer_loses_candidates:
  assumes "sig_type off = SigOffer" "length (sig_data off) \<le> max_offer_bytes"
    and "sig_type foreign = SigOffer" "sig_connection_id foreign = sig_connection_id off"
    and "sig_network_id foreign \<noteq> sig_network_id off"
    and "ho_stores h (sig_connection_id off) = None"
    and "b_pending (ho_broker h) (signal_key off) = None" "b_in_flight (ho_broker h) + 1 < max_in_flight"
    and "list_all (keepable (signal_key off) \<circ> snd) cs"
  shows "ho_taken (host_run (arrivals cs @ [Arrives t foreign, Arrives now off, Fires (signal_key off)]) h) =
    ho_taken h @ [(signal_key off, sig_data off, [])]"
proof -
  let ?k = "signal_key off" and ?h = "host_run (arrivals cs) h"
  let ?b = "fst (notify_signal t foreign (ho_broker h))"
  have id: "ck_connection_id ?k = sig_connection_id off" by (simp add: signal_key_def)
  have "undescribed (ck_connection_id ?k) [] (ho_stores h)"
    using assms(6) id by (simp add: undescribed_def store_waiting_def store_described_def)
  then have h: "undescribed (sig_connection_id off) (map snd cs) (ho_stores ?h)"
    "ho_broker ?h = ho_broker h" "ho_taken ?h = ho_taken h"
    using arrivals_held [OF assms(9), of "[]" h] id by simp_all
  obtain m out where f: "receive_signal t foreign (ho_stores ?h) = (m, out)"
    by (cases "receive_signal t foreign (ho_stores ?h)")
  have fo: "out = foreign # map snd cs" "store_described (sig_connection_id off) m"
    "store_waiting (sig_connection_id off) m = []"
    using receive_flushes [OF assms(3,4) h(1), of t] f by simp_all
  have b: "b_pending ?b ?k = None"
    using notify_other_key [of foreign ?k t "ho_broker h"] assms(5,7) by (simp add: signal_key_def)
  have "list_all (keepable ?k) (map snd cs)" using assms(9) by (simp add: list.pred_map)
  then have n: "notify_all t out (ho_broker h) = ?b"
    using notify_all_unknown [OF _ b, of "map snd cs" t] fo(1) by (simp add: notify_all_def)
  have r: "snd (receive_signal now off m) = [off]"
    using receive_described [OF assms(1) refl fo(2,3)] .
  have "b_in_flight ?b < max_in_flight"
    using notify_offer_in_flight [OF assms(3), of t "ho_broker h"] assms(8) by linarith
  then obtain o1 where o1: "b_pending (fst (notify_signal now off ?b)) ?k = Some o1"
    "of_offer o1 = sig_data off" "of_candidates o1 = []" "\<not> of_done o1"
    using notify_offer [OF assms(1) b assms(2)] by blast
  obtain b' where "forward_take ?k (notify_all now [off] ?b) = (b', Some (sig_data off, []))"
    using take_pending [OF o1(1,4)] o1 by (auto simp: notify_all_def)
  with r h n f show ?thesis by (cases "receive_signal now off m") simp
qed

section \<open>Witnesses\<close>

definition demo_off :: signal where
  "demo_off = \<lparr>sig_type = SigOffer, sig_connection_id = 7, sig_data = ''v=0'', sig_network_id = ''ann''\<rparr>"

definition demo_early :: "(instant \<times> signal) list" where
  "demo_early =
     [(0, \<lparr>sig_type = SigCandidate, sig_connection_id = 7, sig_data = ''candidate:1'', sig_network_id = ''ann''\<rparr>),
      (1, \<lparr>sig_type = SigCandidate, sig_connection_id = 7, sig_data = ''candidate:2'', sig_network_id = ''ann''\<rparr>)]"

definition demo_host :: host where
  "demo_host = \<lparr>ho_stores = Map.empty, ho_broker = new_broker, ho_taken = []\<rparr>"

lemma demo_early_keepable: "list_all (keepable (signal_key demo_off) \<circ> snd) demo_early"
  by code_simp


theorem foreign_offer_loses_candidates_witness:
  "ho_taken (host_run (arrivals demo_early @
       [Arrives 2 (demo_off\<lparr>sig_network_id := ''eve''\<rparr>), Arrives 3 demo_off, Fires (signal_key demo_off)]) demo_host) =
     [(signal_key demo_off, ''v=0'', [])]"
  using foreign_offer_loses_candidates
      [of demo_off "demo_off\<lparr>sig_network_id := ''eve''\<rparr>" demo_host demo_early 2 3, OF _ _ _ _ _ _ _ _ demo_early_keepable]
  by (simp add: demo_off_def demo_host_def demo_early_def new_broker_def max_offer_bytes_def max_in_flight_def)

end
