(* ===== verification/Backend.thy ===== *)
theory Backend
  imports Registry
begin

text \<open>
  The relay and its backend leg (\<open>bridge/relay.go\<close>), the server-list page and the backend's
  player count (\<open>bridge/directip.go\<close>) and the start of the signaling transports
  (\<open>bridge/listener.go\<close>). Dialling, logging in, URL and JSON parsing are arguments: the answers
  of the network and of \<open>net/url\<close> and \<open>encoding/json\<close>.
\<close>

section \<open>Transports\<close>

record backend_config =
  be_transport :: string
  be_geyser_address :: string
  be_nethernet_address :: string

definition backend_transport_name :: "backend_config \<Rightarrow> string" where
  "backend_transport_name cfg =
     (let t = to_lower (trim_space (be_transport cfg)) in if t \<noteq> '''' then t else ''raknet'')"

definition backend_speaks_nethernet :: "backend_config \<Rightarrow> bool" where
  "backend_speaks_nethernet cfg \<longleftrightarrow> backend_transport_name cfg \<in> {''nethernet'', ''nethernet-norelay''}"

definition backend_bypasses_relay :: "backend_config \<Rightarrow> bool" where
  "backend_bypasses_relay cfg \<longleftrightarrow> backend_transport_name cfg = ''nethernet-norelay''"

record url =
  url_scheme :: string
  url_port :: string
  url_path :: string
  url_text :: string

datatype address_error = EmptyAddress | BadUrl | BadScheme string | NoPort | HasPath

definition normalize_nethernet_address :: "(string \<Rightarrow> url option) \<Rightarrow> string \<Rightarrow> address_error + string" where
  "normalize_nethernet_address url_parse address =
     (let address = trim_space address
      in if address = '''' then Inl EmptyAddress
         else (let address = (if \<not> contains address ''://'' then ''http://'' @ address else address);
                   address = trim_suffix address ''/''
               in case url_parse address of
                    None \<Rightarrow> Inl BadUrl
                  | Some u \<Rightarrow>
                      (if url_scheme u \<noteq> ''http'' \<and> url_scheme u \<noteq> ''https'' then Inl (BadScheme (url_scheme u))
                       else if url_port u = '''' then Inl NoPort
                       else if url_path u \<noteq> '''' then Inl HasPath
                       else Inr (url_text u))))"

datatype dial_error = RaknetFailed | IdentityFailed | NethernetFailed | DoesNotDial | UnknownTransport string

text \<open>
  \<open>mint\<close> is \<open>cfg.NetherNetIdentity\<close> with its answer (\<open>None\<close>: not configured, \<open>Some None\<close>: it
  failed). The result is the connection and the key of the identity.
\<close>

definition dial_backend ::
  "(string \<Rightarrow> 'c option) \<Rightarrow> (string \<Rightarrow> 'k option \<Rightarrow> 'c option) \<Rightarrow> 'k option option \<Rightarrow> backend_config \<Rightarrow>
   dial_error + 'c \<times> 'k option" where
  "dial_backend raknet_dial nethernet_dial mint cfg =
     (let name = backend_transport_name cfg
      in if name = ''raknet'' then
           (case raknet_dial (be_geyser_address cfg) of
              None \<Rightarrow> Inl RaknetFailed
            | Some c \<Rightarrow> Inr (c, None))
         else if name = ''nethernet'' then
           (case mint of
              Some None \<Rightarrow> Inl IdentityFailed
            | _ \<Rightarrow>
                (let identity = (case mint of Some (Some k) \<Rightarrow> Some k | _ \<Rightarrow> None)
                 in case nethernet_dial (be_nethernet_address cfg) identity of
                      None \<Rightarrow> Inl NethernetFailed
                    | Some c \<Rightarrow> Inr (c, identity)))
         else if name = ''nethernet-norelay'' then Inl DoesNotDial
         else Inl (UnknownTransport name))"

section \<open>One relayed connection\<close>

text \<open>
  What the world answers to one \<open>HandleConn\<close>: the login of the client (its XUID and name), the
  allow-list, the dialled backend and whether its connection reports a latency, the login to
  the backend, and whether \<open>OnJoin\<close> is set.
\<close>

record 'c relay_env =
  re_login :: "(xuid \<times> string) option"
  re_allow :: "(xuid \<Rightarrow> bool) option"
  re_conn :: 'c
  re_dial :: "dial_error + 'c"
  re_reports :: bool
  re_forward :: bool
  re_on_join :: bool

datatype 'c relay_action =
    Disconnect string
  | RegisterPing xuid 'c
  | RegisterBackend xuid 'c
  | OnJoin xuid string
  | RelayPackets
  | CloseBackend
  | UnregisterPing xuid
  | CloseClient

definition relay_session :: "'c relay_env \<Rightarrow> xuid \<Rightarrow> string \<Rightarrow> 'c relay_action list" where
  "relay_session env x name =
     (case re_dial env of
        Inl e \<Rightarrow> [Disconnect ''could not reach the server'']
      | Inr backend \<Rightarrow>
          (if re_reports env then [RegisterBackend x backend] else []) @
          (if \<not> re_forward env then [Disconnect ''failed to join world'']
           else (if re_on_join env then [OnJoin x name] else []) @ [RelayPackets]) @
          [CloseBackend])"

definition handle_conn :: "'c relay_env \<Rightarrow> 'c relay_action list" where
  "handle_conn env =
     (case re_login env of
        None \<Rightarrow> [Disconnect ''login'', CloseClient]
      | Some (x, name) \<Rightarrow>
          (if x = '''' then [CloseClient]
           else if (case re_allow env of None \<Rightarrow> False | Some allow \<Rightarrow> \<not> allow x)
           then [Disconnect ''not allowed'', CloseClient]
           else [RegisterPing x (re_conn env)] @ relay_session env x name @ [UnregisterPing x, CloseClient]))"

text \<open>
  \<open>pump\<close>: batches read until a read or a write fails; what was written, in order, and the side
  that failed. Reads that are used up mean that the pump still waits.
\<close>

datatype pump_end = ReadFailed | WriteFailed | Pumping

fun pump :: "'p list option list \<Rightarrow> ('p list \<Rightarrow> bool) \<Rightarrow> 'p list list \<times> pump_end" where
  "pump [] write_ok = ([], Pumping)"
| "pump (None # rs) write_ok = ([], ReadFailed)"
| "pump (Some pks # rs) write_ok =
     (if write_ok pks then apfst (Cons pks) (pump rs write_ok) else ([], WriteFailed))"

section \<open>The server-list page\<close>

record list_entry =
  le_name :: string
  le_protocol :: "32 word"
  le_version :: string
  le_level :: string
  le_players :: int
  le_max_players :: int
  le_game_type :: int

record direct_ip_config =
  di_world_name :: string
  di_max_players :: int
  di_protocol :: "32 word"
  di_version :: string
  di_relay :: backend_config

record list_provider =
  lp_config :: direct_ip_config
  lp_cached :: "string option"
  lp_cached_at :: instant

definition server_list_cache_ttl :: duration where "server_list_cache_ttl = 3 * second"

definition backend_entry ::
  "(string \<Rightarrow> url option) \<Rightarrow> (string \<Rightarrow> list_entry option) \<Rightarrow> backend_config \<Rightarrow> list_entry option" where
  "backend_entry url_parse fetch cfg =
     (if \<not> backend_speaks_nethernet cfg then None
      else (case normalize_nethernet_address url_parse (be_nethernet_address cfg) of
              Inl e \<Rightarrow> None
            | Inr address \<Rightarrow> fetch address))"

definition list_page :: "direct_ip_config \<Rightarrow> list_entry option \<Rightarrow> list_entry" where
  "list_page cfg live =
     (let entry = \<lparr>le_name = di_world_name cfg, le_protocol = di_protocol cfg, le_version = di_version cfg,
                   le_level = di_world_name cfg, le_players = 0, le_max_players = di_max_players cfg,
                   le_game_type = 0\<rparr>
      in case live of
           None \<Rightarrow> entry
         | Some l \<Rightarrow>
             entry\<lparr>le_players := le_players l, le_game_type := le_game_type l,
                   le_protocol := (if le_protocol l \<noteq> 0 then le_protocol l else le_protocol entry),
                   le_version := (if le_version l \<noteq> '''' then le_version l else le_version entry)\<rparr>)"

text \<open>
  \<open>body\<close>: the page, from the cache while it is younger than three seconds. The flag says
  whether the backend was asked; \<open>now\<close> is the clock before, \<open>now'\<close> after the question.
\<close>

definition list_body ::
  "(list_entry \<Rightarrow> string) \<Rightarrow> instant \<Rightarrow> instant \<Rightarrow> list_entry option \<Rightarrow> list_provider \<Rightarrow>
   list_provider \<times> string \<times> bool" where
  "list_body marshal now now' live p =
     (case lp_cached p of
        Some b \<Rightarrow>
          (if time_sub now (lp_cached_at p) < server_list_cache_ttl then (p, b, False)
           else (let b = marshal (list_page (lp_config p) live)
                 in (p\<lparr>lp_cached := Some b, lp_cached_at := now'\<rparr>, b, True)))
      | None \<Rightarrow>
          (let b = marshal (list_page (lp_config p) live)
           in (p\<lparr>lp_cached := Some b, lp_cached_at := now'\<rparr>, b, True)))"

definition parse_pong_players :: "string \<Rightarrow> int option" where
  "parse_pong_players pong =
     (let fs = split_byte CHR '';'' pong
      in if length fs < 6 then None else parse_int64 (fs ! 4))"

definition backend_players ::
  "(string \<Rightarrow> url option) \<Rightarrow> (string \<Rightarrow> list_entry option) \<Rightarrow> (string \<Rightarrow> string option) \<Rightarrow> backend_config \<Rightarrow>
   int option" where
  "backend_players url_parse fetch raknet_ping cfg =
     (if backend_speaks_nethernet cfg
      then (case normalize_nethernet_address url_parse (be_nethernet_address cfg) of
              Inl e \<Rightarrow> None
            | Inr address \<Rightarrow> map_option le_players (fetch address))
      else (case raknet_ping (be_geyser_address cfg) of
              None \<Rightarrow> None
            | Some pong \<Rightarrow> parse_pong_players pong))"

section \<open>Starting the signaling transports\<close>

record transports =
  tr_ws_listener :: bool
  tr_msg_listener :: bool
  tr_brokers :: "string list"

definition no_transports :: transports where
  "no_transports = \<lparr>tr_ws_listener = False, tr_msg_listener = False, tr_brokers = []\<rparr>"

text \<open>
  The answers to one \<open>Listen\<close>: the minted id, whether each token was obtained and each dial
  succeeded, whether \<open>nethernet\<close> listens, and the network id of the messaging connection.
\<close>

record listen_env =
  ln_minted :: "64 word"
  ln_ws_token :: bool
  ln_ws_dial :: bool
  ln_ws_listen :: bool
  ln_msg_token :: bool
  ln_msg_dial :: bool
  ln_msg_listen :: bool
  ln_msg_id :: string

definition attach ::
  "(string \<Rightarrow> url option) \<Rightarrow> backend_config \<Rightarrow> string \<Rightarrow> bool \<Rightarrow> (transports \<Rightarrow> transports) \<Rightarrow> transports \<Rightarrow> transports option" where
  "attach url_parse cfg name listens set_listener t =
     (if backend_bypasses_relay cfg
      then (case normalize_nethernet_address url_parse (be_nethernet_address cfg) of
              Inl e \<Rightarrow> None
            | Inr address \<Rightarrow> Some (t\<lparr>tr_brokers := tr_brokers t @ [name]\<rparr>))
      else if listens then Some (set_listener t) else None)"

definition start_websocket ::
  "(string \<Rightarrow> url option) \<Rightarrow> listen_env \<Rightarrow> backend_config \<Rightarrow> transports \<Rightarrow> transports option" where
  "start_websocket url_parse env cfg t =
     (if ln_ws_token env \<and> ln_ws_dial env
      then attach url_parse cfg ''websocket'' (ln_ws_listen env) (\<lambda>t. t\<lparr>tr_ws_listener := True\<rparr>) t else None)"

definition start_messaging ::
  "(string \<Rightarrow> url option) \<Rightarrow> listen_env \<Rightarrow> backend_config \<Rightarrow> transports \<Rightarrow> transports option" where
  "start_messaging url_parse env cfg t =
     (if ln_msg_token env \<and> ln_msg_dial env
      then attach url_parse cfg ''messaging'' (ln_msg_listen env) (\<lambda>t. t\<lparr>tr_msg_listener := True\<rparr>) t else None)"

text \<open>
  The result: the transports, the id to keep, the messaging id, and the numeric id that the
  messaging connection advertises when it is up.
\<close>

definition listen ::
  "(string \<Rightarrow> url option) \<Rightarrow> listen_env \<Rightarrow> backend_config \<Rightarrow> 64 word \<Rightarrow>
   (transports \<times> 64 word \<times> string \<times> 64 word option) option" where
  "listen url_parse env cfg nether_id =
     (let t = no_transports;
          nether_id = (if nether_id = 0 then ln_minted env else nether_id);
          numeric_id = nether_id;
          (t, nether_id) =
            (case start_websocket url_parse env cfg t of None \<Rightarrow> (t, 0) | Some t' \<Rightarrow> (t', nether_id));
          (t, pmsg, advertised) =
            (case start_messaging url_parse env cfg t of
               None \<Rightarrow> (t, '''', None) | Some t' \<Rightarrow> (t', ln_msg_id env, Some numeric_id))
      in if \<not> tr_ws_listener t \<and> \<not> tr_msg_listener t \<and> tr_brokers t = [] then None
         else Some (t, nether_id, pmsg, advertised))"

section \<open>Lemmas\<close>

lemma cached_recent: "time_sub now t < server_list_cache_ttl \<longleftrightarrow> now - t < 3 * second"
  by (auto simp: time_sub_def clamp64_def server_list_cache_ttl_def second_def max_int64_def min_int64_def)

text \<open>The instants at which a sequence of page requests asks the backend; each takes no time.\<close>

fun body_queries :: "(list_entry \<Rightarrow> string) \<Rightarrow> list_provider \<Rightarrow> (instant \<times> list_entry option) list \<Rightarrow> instant list" where
  "body_queries marshal p [] = []"
| "body_queries marshal p ((now, live) # cs) =
     (let (p, page, asked) = list_body marshal now now live p
      in (if asked then [now] else []) @ body_queries marshal p cs)"

lemma list_body_asked:
  assumes "list_body marshal now now live p = (p', page, asked)"
  shows "asked \<Longrightarrow> lp_cached p' \<noteq> None \<and> lp_cached_at p' = now \<and>
      (lp_cached p \<noteq> None \<longrightarrow> lp_cached_at p + 3 * second \<le> now)"
    and "\<not> asked \<Longrightarrow> p' = p"
  using assms cached_recent [of now "lp_cached_at p"]
  by (auto simp: list_body_def Let_def split: option.splits if_splits)

lemma body_queries_late:
  "lp_cached p \<noteq> None \<Longrightarrow> t \<in> set (body_queries marshal p cs) \<Longrightarrow> lp_cached_at p + 3 * second \<le> t"
proof (induction cs arbitrary: p)
  case Nil
  then show ?case by simp
next
  case (Cons c cs)
  obtain now live where [simp]: "c = (now, live)" by (cases c)
  obtain p' page asked where b: "list_body marshal now now live p = (p', page, asked)"
    by (cases "list_body marshal now now live p")
  show ?case
  proof (cases asked)
    case True
    with list_body_asked(1) [OF b] Cons.prems(1)
    have "lp_cached p' \<noteq> None" "lp_cached_at p' = now" "lp_cached_at p + 3 * second \<le> now" by simp_all
    with Cons b True show ?thesis by (fastforce simp: second_def)
  next
    case False
    with Cons b list_body_asked(2) [OF b] show ?thesis by simp
  qed
qed

definition ws_up :: "transports \<Rightarrow> bool" where
  "ws_up t \<longleftrightarrow> tr_ws_listener t \<or> ''websocket'' \<in> set (tr_brokers t)"

lemma start_websocket_up: "start_websocket url_parse env cfg t = Some t' \<Longrightarrow> ws_up t' \<and> ln_ws_dial env"
  by (auto simp: start_websocket_def attach_def ws_up_def split: if_splits sum.splits)

lemma start_messaging_ws: "start_messaging url_parse env cfg t = Some t' \<Longrightarrow> ws_up t' = ws_up t"
  by (auto simp: start_messaging_def attach_def ws_up_def split: if_splits sum.splits)

lemma no_transports_down: "\<not> ws_up no_transports"
  by (simp add: ws_up_def no_transports_def)

lemma listen_without_websocket:
  assumes "start_websocket url_parse env cfg no_transports = None"
    and "listen url_parse env cfg nether_id = Some (t, kept, pmsg, advertised)"
  shows "kept = 0 \<and> start_messaging url_parse env cfg no_transports = Some t \<and>
    advertised = Some (if nether_id = 0 then ln_minted env else nether_id)"
  using assms
  by (cases "start_messaging url_parse env cfg no_transports")
    (auto simp: listen_def Let_def no_transports_def split: if_splits)

lemma listen_with_websocket:
  assumes "start_websocket url_parse env cfg no_transports = Some t1"
    and "listen url_parse env cfg nether_id = Some (t, kept, pmsg, advertised)"
  shows "kept = (if nether_id = 0 then ln_minted env else nether_id) \<and>
    t = (case start_messaging url_parse env cfg t1 of None \<Rightarrow> t1 | Some t' \<Rightarrow> t')"
  using assms
  by (cases "start_messaging url_parse env cfg t1") (auto simp: listen_def Let_def split: if_splits)

section \<open>Properties\<close>

text \<open>
  A connection is relayed, counted as connected or reported as a join only for a client that
  logged in with a player id that the allow-list, when there is one, accepts; and whatever
  fails, what was registered is unregistered and the client connection is closed last.
\<close>

theorem relay_only_authenticated:
  defines "allowed env x \<equiv> (case re_allow env of None \<Rightarrow> True | Some allow \<Rightarrow> allow x)"
  shows "(\<forall>a \<in> set (handle_conn env). \<forall>x name c.
      a = RelayPackets \<or> a = OnJoin x name \<or> a = RegisterPing x c \<longrightarrow>
      (\<exists>y n. re_login env = Some (y, n) \<and> y \<noteq> '''' \<and> allowed env y \<and>
        (a = OnJoin x name \<longrightarrow> x = y \<and> name = n) \<and> (a = RegisterPing x c \<longrightarrow> x = y))) \<and>
    last (handle_conn env) = CloseClient \<and>
    (\<forall>x. count_list (handle_conn env) (RegisterPing x (re_conn env)) = count_list (handle_conn env) (UnregisterPing x)) \<and>
    (RelayPackets \<in> set (handle_conn env) \<longrightarrow> CloseBackend \<in> set (handle_conn env))"
proof (cases "re_login env")
  case None
  then show ?thesis by (simp add: handle_conn_def)
next
  case (Some l)
  obtain y n where l: "l = (y, n)" by (cases l)
  have count: "count_list (relay_session env y n) (RegisterPing x c) = 0"
    "count_list (relay_session env y n) (UnregisterPing x) = 0" for x c
    by (auto simp: relay_session_def split: sum.split)
  have mem: "RegisterPing x c \<notin> set (relay_session env y n)"
    "OnJoin x name \<in> set (relay_session env y n) \<Longrightarrow> x = y \<and> name = n"
    "RelayPackets \<in> set (relay_session env y n) \<Longrightarrow> CloseBackend \<in> set (relay_session env y n)" for x c name
    by (auto simp: relay_session_def split: sum.splits if_splits)
  show ?thesis
    using Some l mem count
    by (auto simp: handle_conn_def allowed_def split: option.split)
qed

definition example_relay_env :: "nat relay_env" where
  "example_relay_env =
     \<lparr>re_login = Some (''5'', ''Al''), re_allow = Some (\<lambda>x. x = ''5''), re_conn = 1, re_dial = Inr 2,
      re_reports = True, re_forward = True, re_on_join = True\<rparr>"

theorem relay_only_authenticated_witness:
  "\<exists>y n. re_login example_relay_env = Some (y, n) \<and> y \<noteq> '''' \<and> RelayPackets \<in> set (handle_conn example_relay_env) \<and>
    CloseBackend \<in> set (handle_conn example_relay_env)"
proof -
  have "RelayPackets \<in> set (handle_conn example_relay_env)"
    by (simp add: handle_conn_def relay_session_def example_relay_env_def)
  with relay_only_authenticated [of example_relay_env] show ?thesis by blast
qed

text \<open>
  A pump writes the batches it read, in order, up to the first one that cannot be written or
  the first failed read, and nothing else.
\<close>

theorem pump_copies_in_order:
  "fst (pump rs write_ok) = takeWhile write_ok (map the (takeWhile (\<lambda>r. r \<noteq> None) rs)) \<and>
   (snd (pump rs write_ok) = Pumping \<longleftrightarrow> None \<notin> set rs \<and> (\<forall>pks \<in> set rs. write_ok (the pks)))"
  by (induction rs write_ok rule: pump.induct) auto

theorem pump_copies_in_order_witness:
  "snd (pump [Some [1], Some [2::nat]] (\<lambda>p. True)) = Pumping"
  using pump_copies_in_order [of "[Some [1], Some [2::nat]]" "\<lambda>p. True"] by simp

text \<open>
  However often the page is asked for, the backend is asked at most once in three seconds:
  any two questions are at least that far apart.
\<close>

theorem list_queries_spaced:
  "sorted_wrt (\<lambda>s t. s + 3 * second \<le> t) (body_queries marshal p cs)"
proof (induction cs arbitrary: p)
  case Nil
  then show ?case by simp
next
  case (Cons c cs)
  obtain now live where [simp]: "c = (now, live)" by (cases c)
  obtain p' page asked where b: "list_body marshal now now live p = (p', page, asked)"
    by (cases "list_body marshal now now live p")
  have "now + 3 * second \<le> t" if "asked" "t \<in> set (body_queries marshal p' cs)" for t
    using body_queries_late [of p' t marshal cs] list_body_asked(1) [OF b that(1)] that(2) by simp
  with Cons b show ?case by auto
qed

text \<open>
  The id that \<open>Listen\<close> hands back is kept as long as websocket signaling comes up, and is
  lost, set to zero, when it does not, although the messaging connection then advertises the id
  that was in use; so the next call mints another.
\<close>

theorem listen_id:
  assumes "listen url_parse env cfg nether_id = Some (t, kept, pmsg, advertised)"
  defines "used \<equiv> (if nether_id = 0 then ln_minted env else nether_id)"
  shows "kept = (if tr_ws_listener t \<or> ''websocket'' \<in> set (tr_brokers t) then used else 0) \<and>
    (\<not> ln_ws_dial env \<longrightarrow> kept = 0 \<and> advertised = Some used)"
proof (cases "start_websocket url_parse env cfg no_transports")
  case None
  note w = listen_without_websocket [OF None assms(1)]
  then have "\<not> ws_up t" using start_messaging_ws [of url_parse env cfg no_transports t] no_transports_down by simp
  then have "\<not> (tr_ws_listener t \<or> ''websocket'' \<in> set (tr_brokers t))" by (simp add: ws_up_def)
  with w show ?thesis unfolding used_def by simp
next
  case (Some t1)
  note w = listen_with_websocket [OF Some assms(1)] start_websocket_up [OF Some]
  then have "ws_up t" using start_messaging_ws [of url_parse env cfg t1 t] by (auto split: option.splits)
  then have "tr_ws_listener t \<or> ''websocket'' \<in> set (tr_brokers t)" by (simp add: ws_up_def)
  with w show ?thesis unfolding used_def by simp
qed

theorem listen_id_witness:
  "\<exists>t pmsg. listen (\<lambda>a. None)
     \<lparr>ln_minted = 1, ln_ws_token = True, ln_ws_dial = False, ln_ws_listen = True, ln_msg_token = True,
      ln_msg_dial = True, ln_msg_listen = True, ln_msg_id = ''u''\<rparr>
     \<lparr>be_transport = ''raknet'', be_geyser_address = '''', be_nethernet_address = ''''\<rparr> 42 = Some (t, 0, pmsg, Some 42)"
proof -
  let ?env = "\<lparr>ln_minted = 1, ln_ws_token = True, ln_ws_dial = False, ln_ws_listen = True, ln_msg_token = True,
      ln_msg_dial = True, ln_msg_listen = True, ln_msg_id = ''u''\<rparr>"
  let ?cfg = "\<lparr>be_transport = ''raknet'', be_geyser_address = '''', be_nethernet_address = ''''\<rparr>"
  have "\<not> backend_bypasses_relay ?cfg" by code_simp
  then obtain t kept pmsg adv where l: "listen (\<lambda>a. None) ?env ?cfg 42 = Some (t, kept, pmsg, adv)"
    by (simp add: listen_def start_websocket_def start_messaging_def attach_def no_transports_def)
  from conjunct2 [OF listen_id [OF l]] have "kept = 0" "adv = Some 42" by simp_all
  with l show ?thesis by blast
qed

end
