(* ===== verification/Http_Signaling.thy ===== *)
theory Http_Signaling
  imports Backend Broker
begin

text \<open>
  NetherNet signaling over HTTP: the server side (\<open>bridge/nnserver.go\<close>), which turns a POST into
  an offer and waits for the answer, and the client side (\<open>bridge/nnendpoint.go\<close>), which posts
  an offer to the backend. A pending negotiation is a channel of capacity one: \<open>None\<close> while it
  is empty.
\<close>

section \<open>The server\<close>

record http_server =
  hs_pending :: "connection_key \<rightharpoonup> signal option"
  hs_notifier :: bool

definition new_http_server :: http_server where
  "new_http_server = \<lparr>hs_pending = Map.empty, hs_notifier = False\<rparr>"

text \<open>\<open>Notify\<close> panics (\<open>None\<close>) when a listener is registered already; \<open>stop_notify\<close> is its stop.\<close>

definition server_notify :: "http_server \<Rightarrow> http_server option" where
  "server_notify s = (if hs_notifier s then None else Some (s\<lparr>hs_notifier := True\<rparr>))"

definition stop_notify :: "http_server \<Rightarrow> http_server" where
  "stop_notify s = s\<lparr>hs_notifier := False\<rparr>"

definition begin_negotiation :: "64 word \<Rightarrow> string \<Rightarrow> http_server \<Rightarrow> (http_server \<times> connection_key) option" where
  "begin_negotiation connection_id network_id s =
     (if \<not> hs_notifier s then None
      else (let key = \<lparr>ck_network_id = network_id, ck_connection_id = connection_id\<rparr>
            in Some (s\<lparr>hs_pending := (hs_pending s)(key \<mapsto> None)\<rparr>, key)))"

definition end_negotiation :: "connection_key \<Rightarrow> http_server \<Rightarrow> http_server" where
  "end_negotiation key s = s\<lparr>hs_pending := (hs_pending s)(key := None)\<rparr>"

datatype signal_error = TrickleUnsupported | UnexpectedConnection connection_key | StillBlocked

text \<open>A send on a full channel blocks until the context of the sender ends.\<close>

definition server_signal :: "signal \<Rightarrow> http_server \<Rightarrow> http_server \<times> signal_error option" where
  "server_signal sg s =
     (if sig_type sg = SigCandidate then (s, Some TrickleUnsupported)
      else (case hs_pending s (signal_key sg) of
              None \<Rightarrow> (s, Some (UnexpectedConnection (signal_key sg)))
            | Some (Some waiting) \<Rightarrow> (s, Some StillBlocked)
            | Some None \<Rightarrow> (s\<lparr>hs_pending := (hs_pending s)(signal_key sg \<mapsto> Some sg)\<rparr>, None)))"

datatype negotiation = NoListener | OfferRejected | TimedOut | CallerGone | Answered signal

text \<open>
  The rest of \<open>negotiate\<close>: the notifier's verdict, then the channel or the end of the context,
  \<open>expired\<close> telling a deadline from a cancellation; the second component is whether the listener
  is told about the timeout.
\<close>

definition await_answer :: "bool \<Rightarrow> bool \<Rightarrow> connection_key \<Rightarrow> http_server \<Rightarrow> negotiation \<times> bool" where
  "await_answer accepted expired key s =
     (if \<not> accepted then (OfferRejected, False)
      else (case hs_pending s key of
              Some (Some sg) \<Rightarrow> (Answered sg, False)
            | _ \<Rightarrow> (if expired then TimedOut else CallerGone, True)))"

datatype offer_body = BodyTooLarge | BodyUnreadable | Body string

record http_reply =
  hr_status :: nat
  hr_text :: string

definition max_sdp_body :: nat where "max_sdp_body = 1048576"

definition offer_body_error :: "string \<Rightarrow> offer_body \<Rightarrow> http_reply option" where
  "offer_body_error network_id body =
     (if network_id = '''' then Some \<lparr>hr_status = 400, hr_text = ''Expected /v1/join/{networkID}''\<rparr>
      else if parse_uint64 network_id = None
      then Some \<lparr>hr_status = 400, hr_text = ''Network ID must be uint64''\<rparr>
      else (case body of
              BodyTooLarge \<Rightarrow> Some \<lparr>hr_status = 413, hr_text = ''SDP offer is too large''\<rparr>
            | BodyUnreadable \<Rightarrow> Some \<lparr>hr_status = 400, hr_text = ''Missing SDP offer in request body''\<rparr>
            | Body offer \<Rightarrow>
                (if offer = '''' then Some \<lparr>hr_status = 400, hr_text = ''Missing SDP offer in request body''\<rparr>
                 else None)))"

definition negotiation_reply :: "negotiation \<Rightarrow> http_reply" where
  "negotiation_reply n =
     (case n of
        NoListener \<Rightarrow> \<lparr>hr_status = 503, hr_text = ''Service unavailable''\<rparr>
      | OfferRejected \<Rightarrow> \<lparr>hr_status = 503, hr_text = ''Service unavailable''\<rparr>
      | TimedOut \<Rightarrow> \<lparr>hr_status = 502, hr_text = ''Timed out waiting for answer''\<rparr>
      | CallerGone \<Rightarrow> \<lparr>hr_status = 500, hr_text = ''An error has occurred while handling this request''\<rparr>
      | Answered sg \<Rightarrow>
          (case sig_type sg of
             SigAnswer \<Rightarrow> \<lparr>hr_status = 200, hr_text = sig_data sg\<rparr>
           | SigError \<Rightarrow> \<lparr>hr_status = 400, hr_text = ''Negotiation failed with error code: '' @ sig_data sg\<rparr>
           | _ \<Rightarrow> \<lparr>hr_status = 500, hr_text = ''An error has occurred while handling this request''\<rparr>))"

text \<open>
  One POST: \<open>during\<close> are the signals the listener sends while the handler waits, each with its
  own connection key.
\<close>

definition handle_offer ::
  "64 word \<Rightarrow> string \<Rightarrow> offer_body \<Rightarrow> bool \<Rightarrow> bool \<Rightarrow> signal list \<Rightarrow> http_server \<Rightarrow> http_server \<times> http_reply" where
  "handle_offer connection_id network_id body accepted expired during s =
     (case offer_body_error network_id body of
        Some r \<Rightarrow> (s, r)
      | None \<Rightarrow>
          (case begin_negotiation connection_id network_id s of
             None \<Rightarrow> (s, negotiation_reply NoListener)
           | Some (s, key) \<Rightarrow>
               (let s = foldl (\<lambda>s sg. fst (server_signal sg s)) s during
                in (end_negotiation key s, negotiation_reply (fst (await_answer accepted expired key s))))))"

section \<open>The client\<close>

datatype http_response = NoResponse | Response nat string bool

datatype post_error = BadEndpoint | NotSent | BadStatus nat | BodyBroken | AnswerTooLong | NoAnswer | Refused nat

text \<open>
  \<open>postSDPOffer\<close>: the response is its status, its body and whether the body could be read. The
  body that is an unsigned 32-bit number is an error code.
\<close>

definition post_sdp_offer :: "(string \<Rightarrow> url option) \<Rightarrow> string \<Rightarrow> http_response \<Rightarrow> post_error + string" where
  "post_sdp_offer url_parse base response =
     (case url_parse base of
        None \<Rightarrow> Inl BadEndpoint
      | Some u \<Rightarrow>
          (if (url_scheme u \<noteq> ''https'' \<and> url_scheme u \<noteq> ''http'') \<or> url_path u \<noteq> '''' \<or> url_port u = ''''
           then Inl BadEndpoint
           else (case response of
                   NoResponse \<Rightarrow> Inl NotSent
                 | Response status body readable \<Rightarrow>
                     (if status \<noteq> 200 then Inl (BadStatus status)
                      else if \<not> readable then Inl BodyBroken
                      else if length body > max_sdp_body then Inl AnswerTooLong
                      else if body = '''' then Inl NoAnswer
                      else (case parse_uint64 body of
                              Some code \<Rightarrow> if code < 4294967296 then Inl (Refused code) else Inr body
                            | None \<Rightarrow> Inr body)))))"

record http_client =
  hc_notifiers :: "nat \<rightharpoonup> string"
  hc_count :: nat
  hc_closed :: bool

definition client_notify :: "string \<Rightarrow> http_client \<Rightarrow> http_client \<times> nat" where
  "client_notify n c =
     (c\<lparr>hc_notifiers := (hc_notifiers c)(hc_count c \<mapsto> n), hc_count := Suc (hc_count c)\<rparr>, hc_count c)"

definition client_stop :: "nat \<Rightarrow> http_client \<Rightarrow> http_client" where
  "client_stop i c = c\<lparr>hc_notifiers := (hc_notifiers c)(i := None)\<rparr>"

datatype client_error = PostFailed post_error | ClientTrickle | UnknownSignal

text \<open>\<open>Signal\<close>: the error, or the signal that every registered notifier is given.\<close>

definition client_signal ::
  "(string \<Rightarrow> url option) \<Rightarrow> http_response \<Rightarrow> signal \<Rightarrow> http_client \<Rightarrow> client_error + signal option" where
  "client_signal url_parse response sg c =
     (case sig_type sg of
        SigOffer \<Rightarrow>
          (case post_sdp_offer url_parse (sig_network_id sg) response of
             Inl e \<Rightarrow> Inl (PostFailed e)
           | Inr answer \<Rightarrow>
               Inr (if hc_closed c then None else Some (sg\<lparr>sig_type := SigAnswer, sig_data := answer\<rparr>)))
      | SigError \<Rightarrow> Inr None
      | SigCandidate \<Rightarrow> Inl ClientTrickle
      | _ \<Rightarrow> Inl UnknownSignal)"

definition probe_supported :: "(string \<Rightarrow> url option) \<Rightarrow> string \<Rightarrow> http_response \<Rightarrow> bool" where
  "probe_supported url_parse base response \<longleftrightarrow>
     url_parse base \<noteq> None \<and>
     (case response of NoResponse \<Rightarrow> False | Response status body readable \<Rightarrow> status \<ge> 200 \<and> status < 300)"

section \<open>Lemmas\<close>

lemma server_signal_other:
  "signal_key sg \<noteq> key \<Longrightarrow> hs_pending (fst (server_signal sg s)) key = hs_pending s key"
  by (auto simp: server_signal_def split: option.split)

definition first_for :: "connection_key \<Rightarrow> signal list \<Rightarrow> signal option" where
  "first_for key sgs = find (\<lambda>sg. signal_key sg = key \<and> sig_type sg \<noteq> SigCandidate) sgs"

lemma server_signals_full:
  "hs_pending s key = Some (Some w) \<Longrightarrow> hs_pending (foldl (\<lambda>s sg. fst (server_signal sg s)) s sgs) key = Some (Some w)"
proof (induction sgs arbitrary: s)
  case (Cons sg sgs)
  have "hs_pending (fst (server_signal sg s)) key = Some (Some w)"
    using Cons.prems by (auto simp: server_signal_def split: option.split)
  with Cons.IH show ?case by simp
qed simp

lemma server_signals_first:
  "hs_pending s key = Some None \<Longrightarrow>
   hs_pending (foldl (\<lambda>s sg. fst (server_signal sg s)) s sgs) key = Some (first_for key sgs)"
proof (induction sgs arbitrary: s)
  case Nil
  then show ?case by (simp add: first_for_def)
next
  case (Cons sg sgs)
  show ?case
  proof (cases "signal_key sg = key \<and> sig_type sg \<noteq> SigCandidate")
    case True
    then have "hs_pending (fst (server_signal sg s)) key = Some (Some sg)"
      using Cons.prems by (auto simp: server_signal_def)
    from server_signals_full [OF this] True show ?thesis by (simp add: first_for_def)
  next
    case False
    then have "hs_pending (fst (server_signal sg s)) key = Some None"
      using Cons.prems by (auto simp: server_signal_def split: option.split)
    with Cons.IH False show ?thesis by (auto simp: first_for_def)
  qed
qed

lemma server_signals_none:
  "hs_pending s key = None \<Longrightarrow> hs_pending (foldl (\<lambda>s sg. fst (server_signal sg s)) s sgs) key = None"
proof (induction sgs arbitrary: s)
  case (Cons sg sgs)
  have "hs_pending (fst (server_signal sg s)) key = None"
    using Cons.prems by (auto simp: server_signal_def split: option.split)
  with Cons.IH show ?case by simp
qed simp

lemma server_signal_notifier [simp]:
  "hs_notifier (foldl (\<lambda>s sg. fst (server_signal sg s)) s sgs) = hs_notifier s"
  by (induction sgs arbitrary: s) (auto simp: server_signal_def split: option.split)

lemma post_sdp_offer_Inr:
  assumes "post_sdp_offer url_parse base response = Inr body"
  shows "response = Response 200 body True \<and> body \<noteq> '''' \<and> length body \<le> max_sdp_body \<and>
    (parse_uint64 body = None \<or> the (parse_uint64 body) \<ge> 4294967296)"
proof -
  obtain u where u: "url_parse base = Some u"
    using assms by (cases "url_parse base") (simp_all add: post_sdp_offer_def)
  obtain status b readable where r: "response = Response status b readable"
    using assms u by (cases response) (simp_all add: post_sdp_offer_def split: if_splits)
  show ?thesis
    using assms u r by (cases "parse_uint64 b") (simp_all add: post_sdp_offer_def split: if_splits)
qed

lemma handled_reply:
  assumes "offer_body_error network_id body = None" "hs_notifier s"
    and "handle_offer connection_id network_id body True expired during s = (s', reply)"
  defines "key \<equiv> \<lparr>ck_network_id = network_id, ck_connection_id = connection_id\<rparr>"
  shows "reply = (case first_for key during of
      Some sg \<Rightarrow> negotiation_reply (Answered sg)
    | None \<Rightarrow> negotiation_reply (if expired then TimedOut else CallerGone)) \<and>
    hs_pending s' key = None \<and> hs_notifier s'"
proof -
  let ?s = "s\<lparr>hs_pending := (hs_pending s)(key \<mapsto> None)\<rparr>"
  have "hs_pending ?s key = Some None" by simp
  note first = server_signals_first [OF this, of during]
  have "s' = end_negotiation key (foldl (\<lambda>s sg. fst (server_signal sg s)) ?s during)"
    "reply = negotiation_reply (fst (await_answer True expired key (foldl (\<lambda>s sg. fst (server_signal sg s)) ?s during)))"
    using assms(1-3) by (simp_all add: handle_offer_def begin_negotiation_def Let_def key_def)
  then show ?thesis
    using first assms(2) by (simp add: await_answer_def end_negotiation_def split: option.split)
qed

section \<open>Properties\<close>

text \<open>
  A player who posts a well-formed offer that the listener accepts gets the first answer or
  error the listener sends for exactly this connection, whatever it sends for others; without
  one he gets a 502 or 500; and afterwards the connection is no longer pending.
\<close>

theorem offer_gets_own_answer:
  assumes "offer_body_error network_id body = None" "hs_notifier s"
    and "handle_offer connection_id network_id body True expired during s = (s', reply)"
  defines "key \<equiv> \<lparr>ck_network_id = network_id, ck_connection_id = connection_id\<rparr>"
  shows "reply = (case first_for key during of
      Some sg \<Rightarrow> negotiation_reply (Answered sg)
    | None \<Rightarrow> negotiation_reply (if expired then TimedOut else CallerGone)) \<and>
    hs_pending s' key = None \<and> hs_notifier s'"
  unfolding key_def by (rule handled_reply [OF assms(1-3)])

theorem offer_gets_own_answer_witness:
  "hr_status (snd (handle_offer 7 ''9'' (Body ''v=0'') True True
      [make_signal SigAnswer \<lparr>ck_network_id = ''9'', ck_connection_id = 8\<rparr> ''other'',
       make_signal SigAnswer \<lparr>ck_network_id = ''9'', ck_connection_id = 7\<rparr> ''own'']
      \<lparr>hs_pending = Map.empty, hs_notifier = True\<rparr>)) = 200"
proof -
  let ?d = "[make_signal SigAnswer \<lparr>ck_network_id = ''9'', ck_connection_id = 8\<rparr> ''other'',
       make_signal SigAnswer \<lparr>ck_network_id = ''9'', ck_connection_id = 7\<rparr> ''own'']"
  let ?s = "\<lparr>hs_pending = Map.empty, hs_notifier = True\<rparr>"
  obtain s' reply where h: "handle_offer 7 ''9'' (Body ''v=0'') True True ?d ?s = (s', reply)"
    by (cases "handle_offer 7 ''9'' (Body ''v=0'') True True ?d ?s")
  have "parse_uint64 ''9'' = Some 9" by (simp add: parse_uint64_def digits_val_def is_digit_def digit_val_def)
  then have "offer_body_error ''9'' (Body ''v=0'') = None" "hs_notifier ?s" by (simp_all add: offer_body_error_def)
  from offer_gets_own_answer [OF this h] h show ?thesis
    by (simp add: first_for_def make_signal_def signal_key_def negotiation_reply_def)
qed

text \<open>
  What \<open>postSDPOffer\<close> returns as an answer is a body of a 200 response, not empty, at most a
  megabyte, and no error code of the backend; the client passes it on unchanged, to the
  connection that made the offer.
\<close>

theorem posted_answer_is_an_answer:
  assumes "client_signal url_parse response sg c = Inr (Some reply)"
  shows "\<exists>body. response = Response 200 body True \<and> body \<noteq> '''' \<and> length body \<le> max_sdp_body \<and>
    (parse_uint64 body = None \<or> the (parse_uint64 body) \<ge> 4294967296) \<and>
    sig_type sg = SigOffer \<and> reply = make_signal SigAnswer (signal_key sg) body"
proof -
  obtain body where "sig_type sg = SigOffer" "post_sdp_offer url_parse (sig_network_id sg) response = Inr body"
    "reply = sg\<lparr>sig_type := SigAnswer, sig_data := body\<rparr>"
    using assms by (cases "sig_type sg") (auto simp: client_signal_def split: sum.splits if_splits)
  then show ?thesis using post_sdp_offer_Inr [of url_parse "sig_network_id sg" response body]
    by (intro exI [of _ body]) (simp add: make_signal_def signal_key_def)
qed

theorem posted_answer_is_an_answer_witness:
  "\<exists>reply. client_signal (\<lambda>a. Some \<lparr>url_scheme = ''http'', url_port = ''19134'', url_path = '''', url_text = a\<rparr>)
     (Response 200 ''v=0'' True) example_offer \<lparr>hc_notifiers = Map.empty, hc_count = 0, hc_closed = False\<rparr> =
     Inr (Some reply) \<and> reply = make_signal SigAnswer (signal_key example_offer) ''v=0''"
proof -
  have "parse_uint64 ''v=0'' = None" by code_simp
  then obtain reply where r: "client_signal (\<lambda>a. Some \<lparr>url_scheme = ''http'', url_port = ''19134'', url_path = '''', url_text = a\<rparr>)
     (Response 200 ''v=0'' True) example_offer \<lparr>hc_notifiers = Map.empty, hc_count = 0, hc_closed = False\<rparr> =
     Inr (Some reply)"
    by (simp add: client_signal_def post_sdp_offer_def example_offer_def make_signal_def max_sdp_body_def)
  from posted_answer_is_an_answer [OF r] r show ?thesis by auto
qed

end
