(* ===== verification/Http_Exchange.thy ===== *)
theory Http_Exchange
  imports Http_Signaling
begin

text \<open>
  The two ends of HTTP signaling against each other: what \<open>httpSignaling\<close> of
  \<open>bridge/nnendpoint.go\<close> posts, the routes of \<open>httpSignalingServer\<close> of \<open>bridge/nnserver.go\<close>, and what comes
  back to the notifiers of the dialing side. The HTTP library carries requests and responses
  unchanged; the channel and the locks are those of \<open>Http_Signaling\<close>.
\<close>

section \<open>The dialing side\<close>

text \<open>\<open>n\<close> is the random number that names a dialing side, \<open>mrand.Uint64()\<close>.\<close>

record dialing =
  dl_network_id :: string
  dl_client :: http_client

definition new_http_signaling :: "64 word \<Rightarrow> dialing" where
  "new_http_signaling n =
     \<lparr>dl_network_id = show_nat (unat n),
      dl_client = \<lparr>hc_notifiers = Map.empty, hc_count = 0, hc_closed = False\<rparr>\<rparr>"

definition join_path :: "string \<Rightarrow> string" where
  "join_path network_id = ''/v1/join/'' @ network_id"

record post =
  po_method :: string
  po_path :: string
  po_headers :: "(string \<times> string) list"
  po_body :: string

definition offer_post :: "dialing \<Rightarrow> string \<Rightarrow> post" where
  "offer_post d offer =
     \<lparr>po_method = ''POST'', po_path = join_path (dl_network_id d),
      po_headers = [(''Content-Type'', ''application/sdp''), (''User-Agent'', ''libhttpclient/1.0.0.0'')],
      po_body = offer\<rparr>"

text \<open>\<open>notifySignal\<close>: every registered notifier gets the signal, unless the transport is closed.\<close>

definition notified :: "signal \<Rightarrow> http_client \<Rightarrow> (string \<times> signal) set" where
  "notified sg c = (if hc_closed c then {} else (\<lambda>n. (n, sg)) ` ran (hc_notifiers c))"

section \<open>The listening side\<close>

datatype route = ServerList | Offer string | NoRoute

definition signaling_route :: "string \<Rightarrow> string \<Rightarrow> route" where
  "signaling_route verb path =
     (if verb = ''GET'' \<and> path = ''/v1/join'' then ServerList
      else if verb = ''POST'' then
        (case cut_prefix path ''/v1/join/'' of
           Some i \<Rightarrow> if i \<noteq> '''' \<and> CHR 0x2F \<notin> set i then Offer i else NoRoute
         | None \<Rightarrow> NoRoute)
      else NoRoute)"

text \<open>\<open>MaxBytesReader\<close> with \<open>maxSDPBodySize\<close>.\<close>

definition read_offer :: "string \<Rightarrow> offer_body" where
  "read_offer body = (if length body > max_sdp_body then BodyTooLarge else Body body)"

text \<open>
  One request: \<open>list\<close> is what \<open>motd\<close> gives, \<open>connection_id\<close> the random id of the negotiation; a
  request of no route is answered by the library.
\<close>

definition serve_signaling ::
  "http_reply \<Rightarrow> string \<Rightarrow> 64 word \<Rightarrow> bool \<Rightarrow> bool \<Rightarrow> signal list \<Rightarrow> post \<Rightarrow> http_server \<Rightarrow> http_server \<times> http_reply" where
  "serve_signaling unrouted motd connection_id accepted expired during p s =
     (case signaling_route (po_method p) (po_path p) of
        ServerList \<Rightarrow> (s, \<lparr>hr_status = 200, hr_text = motd\<rparr>)
      | Offer i \<Rightarrow> handle_offer connection_id i (read_offer (po_body p)) accepted expired during s
      | NoRoute \<Rightarrow> (s, unrouted))"

definition response_of :: "http_reply \<Rightarrow> http_response" where
  "response_of r = Response (hr_status r) (hr_text r) True"

section \<open>Other requests to a signaling server\<close>

text \<open>\<open>joinPathID\<close> of \<open>norelay.go\<close>: the path segment of a forwarded offer, a random number of 63 bits.\<close>

definition join_path_id :: "64 word \<Rightarrow> string" where
  "join_path_id n = show_nat (unat (take_bit 63 n))"

text \<open>\<open>fetchServerListEntry\<close> of \<open>directip.go\<close>: the request for the server list, and what becomes of its answer.\<close>

definition list_get :: post where
  "list_get =
     \<lparr>po_method = ''GET'', po_path = ''/v1/join'', po_headers = [(''User-Agent'', ''libhttpclient/1.0.0.0'')], po_body = ''''\<rparr>"

datatype list_error = ListNotSent | ListStatus nat | ListGarbled

definition fetch_server_list_entry :: "(string \<Rightarrow> 'e option) \<Rightarrow> http_response \<Rightarrow> list_error + 'e" where
  "fetch_server_list_entry decode response =
     (case response of
        NoResponse \<Rightarrow> Inl ListNotSent
      | Response status body readable \<Rightarrow>
          (if status \<noteq> 200 then Inl (ListStatus status)
           else if \<not> readable then Inl ListGarbled
           else (case decode body of None \<Rightarrow> Inl ListGarbled | Some e \<Rightarrow> Inr e)))"

section \<open>The exchange\<close>

text \<open>
  \<open>Signal\<close> of the dialing side with the listening side as its backend: the error of the dial, or
  who is notified of what.
\<close>

definition exchange_offer ::
  "(string \<Rightarrow> url option) \<Rightarrow> 64 word \<Rightarrow> bool \<Rightarrow> bool \<Rightarrow> signal list \<Rightarrow> http_server \<Rightarrow> signal \<Rightarrow> dialing \<Rightarrow>
   client_error + (string \<times> signal) set" where
  "exchange_offer url_parse connection_id accepted expired during s sg d =
     (let (s', reply) = serve_signaling \<lparr>hr_status = 404, hr_text = ''404 page not found''\<rparr> ''''
          connection_id accepted expired during (offer_post d (sig_data sg)) s
      in case client_signal url_parse (response_of reply) sg (dl_client d) of
           Inl e \<Rightarrow> Inl e
         | Inr None \<Rightarrow> Inr {}
         | Inr (Some answer) \<Rightarrow> Inr (notified answer (dl_client d)))"

text \<open>A base URL that \<open>postSDPOffer\<close> accepts.\<close>

definition good_base :: "(string \<Rightarrow> url option) \<Rightarrow> string \<Rightarrow> bool" where
  "good_base url_parse base \<longleftrightarrow>
     (case url_parse base of
        None \<Rightarrow> False
      | Some u \<Rightarrow> (url_scheme u = ''https'' \<or> url_scheme u = ''http'') \<and> url_path u = '''' \<and> url_port u \<noteq> '''')"

section \<open>Lemmas\<close>

lemma network_id_numeric:
  "dl_network_id (new_http_signaling n) \<noteq> ''''" "CHR 0x2F \<notin> set (dl_network_id (new_http_signaling n))"
  "parse_uint64 (dl_network_id (new_http_signaling n)) = Some (unat n)"
proof -
  have "unat n < 18446744073709551616" using unsigned_less [of n, where 'a = nat] by simp
  then show "parse_uint64 (dl_network_id (new_http_signaling n)) = Some (unat n)"
    by (simp add: new_http_signaling_def)
  show "CHR 0x2F \<notin> set (dl_network_id (new_http_signaling n))"
    using show_nat_digits [of "unat n"] by (auto simp: new_http_signaling_def is_digit_def list_all_iff)
qed (simp add: new_http_signaling_def)

lemma offer_route: "signaling_route ''POST'' (join_path (dl_network_id (new_http_signaling n))) =
    Offer (dl_network_id (new_http_signaling n))"
  using network_id_numeric [of n] unfolding signaling_route_def join_path_def
  by (simp only: cut_prefix_append) simp

lemma offer_is_read:
  assumes "offer \<noteq> ''''" "length offer \<le> max_sdp_body"
  shows "offer_body_error (dl_network_id (new_http_signaling n)) (read_offer offer) = None"
  using network_id_numeric [of n] assms by (simp add: offer_body_error_def read_offer_def)

lemma client_gets:
  "good_base url_parse (sig_network_id sg) \<Longrightarrow> sig_type sg = SigOffer \<Longrightarrow>
   client_signal url_parse (response_of r) sg c =
     (if hr_status r \<noteq> 200 then Inl (PostFailed (BadStatus (hr_status r)))
      else if length (hr_text r) > max_sdp_body then Inl (PostFailed AnswerTooLong)
      else if hr_text r = '''' then Inl (PostFailed NoAnswer)
      else (case parse_uint64 (hr_text r) of
              Some code \<Rightarrow> if code < 4294967296 then Inl (PostFailed (Refused code))
                else Inr (if hc_closed c then None else Some (sg\<lparr>sig_type := SigAnswer, sig_data := hr_text r\<rparr>))
            | None \<Rightarrow> Inr (if hc_closed c then None else Some (sg\<lparr>sig_type := SigAnswer, sig_data := hr_text r\<rparr>))))"
  by (auto simp: client_signal_def post_sdp_offer_def good_base_def response_of_def split: option.splits)

lemma exchange_reply:
  assumes "sig_data sg \<noteq> ''''" "length (sig_data sg) \<le> max_sdp_body" "hs_notifier s" "sig_type sg = SigOffer"
    and "dl_network_id d = dl_network_id (new_http_signaling n)"
  shows "\<exists>s'. serve_signaling unrouted motd connection_id True expired during (offer_post d (sig_data sg)) s =
    (s', case first_for \<lparr>ck_network_id = dl_network_id d, ck_connection_id = connection_id\<rparr> during of
       Some a \<Rightarrow> negotiation_reply (Answered a)
     | None \<Rightarrow> negotiation_reply (if expired then TimedOut else CallerGone))"
proof -
  obtain s' reply where h: "handle_offer connection_id (dl_network_id d) (read_offer (sig_data sg)) True expired during s = (s', reply)"
    by (cases "handle_offer connection_id (dl_network_id d) (read_offer (sig_data sg)) True expired during s")
  have e: "offer_body_error (dl_network_id d) (read_offer (sig_data sg)) = None"
    using offer_is_read [OF assms(1,2), of n] assms(5) by simp
  from handled_reply [OF e assms(3) h] h show ?thesis
    using offer_route [of n] assms(5) by (simp add: serve_signaling_def offer_post_def)
qed

section \<open>Properties\<close>

text \<open>
  C35: An offer comes back as the answer that the listener sent for it, to every notifier of the dialing
  side and under the connection of the offer, as long as the answer is no bare number.
\<close>

theorem http_answer_round_trip:
  assumes "good_base url_parse (sig_network_id sg)" "sig_type sg = SigOffer" "hs_notifier s"
    and "sig_data sg \<noteq> ''''" "length (sig_data sg) \<le> max_sdp_body"
    and "dl_network_id d = dl_network_id (new_http_signaling n)" "\<not> hc_closed (dl_client d)"
    and "first_for \<lparr>ck_network_id = dl_network_id d, ck_connection_id = connection_id\<rparr> during =
      Some (make_signal SigAnswer \<lparr>ck_network_id = dl_network_id d, ck_connection_id = connection_id\<rparr> answer)"
    and "answer \<noteq> ''''" "length answer \<le> max_sdp_body" "parse_uint64 answer = None"
  shows "exchange_offer url_parse connection_id True expired during s sg d =
    Inr ((\<lambda>n. (n, sg\<lparr>sig_type := SigAnswer, sig_data := answer\<rparr>)) ` ran (hc_notifiers (dl_client d)))"
proof -
  obtain s' where s': "serve_signaling \<lparr>hr_status = 404, hr_text = ''404 page not found''\<rparr> '''' connection_id True expired during
      (offer_post d (sig_data sg)) s = (s', \<lparr>hr_status = 200, hr_text = answer\<rparr>)"
    using exchange_reply [OF assms(4,5,3,2,6), of _ _ connection_id expired during] assms(8)
    by (auto simp: negotiation_reply_def make_signal_def)
  have "client_signal url_parse (response_of \<lparr>hr_status = 200, hr_text = answer\<rparr>) sg (dl_client d) =
      Inr (Some (sg\<lparr>sig_type := SigAnswer, sig_data := answer\<rparr>))"
    using assms(7,9,10,11) by (simp add: client_gets [OF assms(1,2)])
  with s' assms(7) show ?thesis by (simp add: exchange_offer_def notified_def)
qed

text \<open>
  An error of the listener never reaches the dialing side as the error code that it is: the
  listening side writes it into the text of a 400, while the dialing side reads codes out of a 200.
\<close>

theorem error_code_is_lost:
  assumes "good_base url_parse (sig_network_id sg)" "sig_type sg = SigOffer" "hs_notifier s"
    and "sig_data sg \<noteq> ''''" "length (sig_data sg) \<le> max_sdp_body"
    and "dl_network_id d = dl_network_id (new_http_signaling n)"
    and "first_for \<lparr>ck_network_id = dl_network_id d, ck_connection_id = connection_id\<rparr> during =
      Some (make_signal SigError \<lparr>ck_network_id = dl_network_id d, ck_connection_id = connection_id\<rparr> code)"
  shows "exchange_offer url_parse connection_id True expired during s sg d = Inl (PostFailed (BadStatus 400))"
proof -
  obtain s' where s': "serve_signaling \<lparr>hr_status = 404, hr_text = ''404 page not found''\<rparr> '''' connection_id True expired during
      (offer_post d (sig_data sg)) s =
      (s', \<lparr>hr_status = 400, hr_text = ''Negotiation failed with error code: '' @ code\<rparr>)"
    using exchange_reply [OF assms(4,5,3,2,6), of _ _ connection_id expired during] assms(7)
    by (auto simp: negotiation_reply_def make_signal_def)
  then show ?thesis by (simp add: exchange_offer_def client_gets [OF assms(1,2)])
qed

section \<open>Witnesses\<close>

definition demo_url :: "string \<Rightarrow> url option" where
  "demo_url a = Some \<lparr>url_scheme = ''http'', url_port = ''19134'', url_path = '''', url_text = a\<rparr>"

definition demo_dialing :: dialing where
  "demo_dialing = (new_http_signaling 9)\<lparr>dl_client := fst (client_notify ''dialer'' (dl_client (new_http_signaling 9)))\<rparr>"

definition demo_reply :: "signal_type \<Rightarrow> string \<Rightarrow> signal list" where
  "demo_reply t text =
     [make_signal SigAnswer \<lparr>ck_network_id = ''9'', ck_connection_id = 8\<rparr> ''other'',
      make_signal t \<lparr>ck_network_id = ''9'', ck_connection_id = 7\<rparr> text]"

lemma show_nine: "show_nat 9 = ''9''"
  by code_simp

lemma demo_dialing_simps:
  "dl_network_id demo_dialing = ''9''" "dl_network_id demo_dialing = dl_network_id (new_http_signaling 9)"
  "hc_closed (dl_client demo_dialing) = False" "ran (hc_notifiers (dl_client demo_dialing)) = {''dialer''}"
proof -
  show "dl_network_id demo_dialing = ''9''"
    using show_nine by (simp add: demo_dialing_def new_http_signaling_def)
qed (simp_all add: demo_dialing_def new_http_signaling_def client_notify_def)

lemma demo_first:
  "t \<noteq> SigCandidate \<Longrightarrow> first_for \<lparr>ck_network_id = ''9'', ck_connection_id = 7\<rparr> (demo_reply t text) =
     Some (make_signal t \<lparr>ck_network_id = ''9'', ck_connection_id = 7\<rparr> text)"
  by (simp add: first_for_def demo_reply_def make_signal_def signal_key_def)

lemma demo_exchange:
  "good_base demo_url (sig_network_id example_offer)" "sig_type example_offer = SigOffer"
  "hs_notifier \<lparr>hs_pending = Map.empty, hs_notifier = True\<rparr>"
  "sig_data example_offer \<noteq> ''''" "length (sig_data example_offer) \<le> max_sdp_body"
  by (simp_all add: good_base_def demo_url_def example_offer_def make_signal_def max_sdp_body_def)

theorem http_answer_round_trip_witness:
  "exchange_offer demo_url 7 True False (demo_reply SigAnswer ''v=0'') \<lparr>hs_pending = Map.empty, hs_notifier = True\<rparr>
     example_offer demo_dialing = Inr {(''dialer'', example_offer\<lparr>sig_type := SigAnswer, sig_data := ''v=0''\<rparr>)}"
proof -
  have "parse_uint64 ''v=0'' = None" by code_simp
  then show ?thesis
    using http_answer_round_trip [OF demo_exchange(1-5) demo_dialing_simps(2), where answer = "''v=0''" and connection_id = 7
        and expired = False and during = "demo_reply SigAnswer ''v=0''"]
    by (simp add: demo_dialing_simps(1,3,4) demo_first max_sdp_body_def)
qed

theorem error_code_is_lost_witness:
  "exchange_offer demo_url 7 True False (demo_reply SigError ''25'') \<lparr>hs_pending = Map.empty, hs_notifier = True\<rparr>
     example_offer demo_dialing = Inl (PostFailed (BadStatus 400))"
  by (rule error_code_is_lost [OF demo_exchange demo_dialing_simps(2)])
    (simp add: demo_dialing_simps(1) demo_first)

text \<open>The path segment of a forwarded offer is one that a signaling server takes, and fits 63 bits.\<close>

theorem join_path_id_is_served:
  "\<exists>m < 2 ^ 63. parse_uint64 (join_path_id n) = Some m \<and>
     signaling_route ''POST'' (join_path (join_path_id n)) = Offer (join_path_id n)"
proof -
  let ?m = "unat (take_bit 63 n)"
  have m: "?m < 2 ^ 63" by (simp only: unsigned_take_bit_eq take_bit_nat_less_exp)
  then have "parse_uint64 (join_path_id n) = Some ?m" unfolding join_path_id_def by (intro parse_uint64_show_nat) simp
  moreover have "CHR 0x2F \<notin> set (join_path_id n)" "join_path_id n \<noteq> ''''"
    using show_nat_digits [of ?m] by (auto simp: join_path_id_def is_digit_def list_all_iff)
  then have "signaling_route ''POST'' (join_path (join_path_id n)) = Offer (join_path_id n)"
    unfolding signaling_route_def join_path_def by (simp only: cut_prefix_append) simp
  ultimately show ?thesis using m by blast
qed

text \<open>The list that a door serves is the list that is fetched from it.\<close>

theorem served_list_is_fetched:
  "fetch_server_list_entry decode
     (response_of (snd (serve_signaling unrouted motd connection_id accepted expired during list_get s))) =
   (case decode motd of None \<Rightarrow> Inl ListGarbled | Some e \<Rightarrow> Inr e)"
  by (simp add: serve_signaling_def signaling_route_def list_get_def response_of_def fetch_server_list_entry_def)

end
