(* ===== verification/Xbl_Client.thy ===== *)
theory Xbl_Client
  imports Xbl_Session
begin

text \<open>
  The account's requests to Xbox Live about other people's sessions: looking up open worlds
  (\<open>xbl/activity.go\<close>), joining one, waiting for its nonce and leaving it (\<open>xbl/join.go\<close>), invites
  (\<open>xbl/invite.go\<close>) and profiles (\<open>xbl/profile.go\<close>), on the documents of \<open>xbl/models.go\<close>. Each
  answer of the service is an \<open>exchange\<close>, as in \<open>Xbl_Session\<close>; a Go map is a function with the zero
  value for a missing key.
\<close>

section \<open>Documents\<close>

record session_ref =
  sr_scid :: string
  sr_template :: string
  sr_name :: string

record connection_info =
  cn_type :: int
  cn_host_ip :: string
  cn_host_port :: int
  cn_nether_id :: "64 word"
  cn_pmsg_id :: string

record session_custom =
  sc_broadcast_setting :: int
  sc_cross_play_disabled :: bool
  sc_joinability :: string
  sc_lan_game :: bool
  sc_max_member_count :: int
  sc_member_count :: int
  sc_online_cross_platform :: bool
  sc_connections :: "connection_info list"
  sc_title_id :: int
  sc_transport_layer :: int
  sc_level_id :: string
  sc_host_name :: string
  sc_owner_id :: xuid
  sc_raknet_guid :: string
  sc_world_name :: string
  sc_world_type :: string
  sc_protocol :: int
  sc_version :: string
  sc_editor_world :: bool
  sc_hardcore :: bool
  sc_nonces :: "xuid \<Rightarrow> string"

definition no_custom :: session_custom where
  "no_custom =
     \<lparr>sc_broadcast_setting = 0, sc_cross_play_disabled = False, sc_joinability = '''', sc_lan_game = False,
      sc_max_member_count = 0, sc_member_count = 0, sc_online_cross_platform = False, sc_connections = [],
      sc_title_id = 0, sc_transport_layer = 0, sc_level_id = '''', sc_host_name = '''', sc_owner_id = '''',
      sc_raknet_guid = '''', sc_world_name = '''', sc_world_type = '''', sc_protocol = 0, sc_version = '''',
      sc_editor_world = False, sc_hardcore = False, sc_nonces = (\<lambda>x. '''')\<rparr>"

record session_member =
  sm_xuid :: xuid
  sm_initialize :: bool
  sm_active :: bool
  sm_connection :: string
  sm_subscription :: string
  sm_change_types :: "string list"

section \<open>Open worlds\<close>

record activity_handle =
  ah_id :: string
  ah_owner_xuid :: xuid
  ah_ref :: session_ref
  ah_custom :: session_custom

record active_session =
  av_handle_id :: string
  av_owner_xuid :: xuid
  av_ref :: session_ref
  av_custom :: session_custom

definition active_session_of :: "activity_handle \<Rightarrow> active_session" where
  "active_session_of r =
     \<lparr>av_handle_id = ah_id r, av_owner_xuid = ah_owner_xuid r, av_ref = ah_ref r, av_custom = ah_custom r\<rparr>"

definition activities_for_xuids ::
  "(xuid list \<Rightarrow> activity_handle list exchange) \<Rightarrow> xuid list \<Rightarrow> xbl_error + active_session list" where
  "activities_for_xuids query xuids =
     (if xuids = [] then Inr []
      else (case expect {200} (query xuids) of Inl e \<Rightarrow> Inl e | Inr rs \<Rightarrow> Inr (map active_session_of rs)))"

section \<open>Joining a session\<close>

definition session_directory :: string where
  "session_directory = ''https://sessiondirectory.xboxlive.com''"

definition ascii_upper :: "char \<Rightarrow> char" where
  "ascii_upper c = (if 97 \<le> (of_char c :: nat) \<and> (of_char c :: nat) \<le> 122
                    then char_of ((of_char c :: nat) - 32) else c)"

text \<open>The member the join writes under \<open>me\<close>; leaving writes none.\<close>

definition join_member :: "xuid \<Rightarrow> string \<Rightarrow> string \<Rightarrow> session_member option" where
  "join_member x connection_id uuid =
     Some \<lparr>sm_xuid = x, sm_initialize = True, sm_active = True, sm_connection = connection_id,
           sm_subscription = map ascii_upper uuid, sm_change_types = [''everything'']\<rparr>"

definition leave_member :: "session_member option" where
  "leave_member = None"

datatype join_error = JoinFailed xbl_error | NoContentLocation

text \<open>The answer carries the Content-Location header; the result is where the session lives.\<close>

definition join_session :: "string exchange \<Rightarrow> join_error + string" where
  "join_session e =
     (case expect {200} e of
        Inl err \<Rightarrow> Inl (JoinFailed err)
      | Inr loc \<Rightarrow>
          (if loc = '''' then Inl NoContentLocation
           else if has_prefix loc ''/'' then Inr (session_directory @ loc) else Inr loc))"

definition read_custom :: "session_custom exchange \<Rightarrow> xbl_error + session_custom" where
  "read_custom e = expect {200} e"

text \<open>
  \<open>WaitNonce\<close>: each poll is what the session answered and whether the time was up when the loop
  then waited for its ticker. Polls that are used up mean that the wait goes on.
\<close>

datatype nonce_error = NoNonce "xbl_error option"

fun wait_nonce ::
  "xuid \<Rightarrow> (session_custom exchange \<times> bool) list \<Rightarrow> (nonce_error + string \<times> session_custom) option" where
  "wait_nonce x [] = None"
| "wait_nonce x ((answer, time_up) # polls) =
     (case read_custom answer of
        Inr custom \<Rightarrow>
          (if sc_nonces custom x \<noteq> '''' then Some (Inr (sc_nonces custom x, custom))
           else if time_up then Some (Inl (NoNonce None)) else wait_nonce x polls)
      | Inl e \<Rightarrow> (if time_up then Some (Inl (NoNonce (Some e))) else wait_nonce x polls))"

definition leave_session :: "unit exchange \<Rightarrow> xbl_error option" where
  "leave_session e = (case expect {200, 204} e of Inl err \<Rightarrow> Some err | Inr u \<Rightarrow> None)"

section \<open>Invites and profiles\<close>

record invite_request =
  iv_version :: int
  iv_type :: string
  iv_ref :: session_ref
  iv_title_id :: string
  iv_invited_xuid :: xuid

definition invite_title_id :: int where "invite_title_id = 896928775"

text \<open>\<open>scid\<close> and \<open>template\<close> are the constants of the package.\<close>

definition build_invite :: "string \<Rightarrow> string \<Rightarrow> xbl_session \<Rightarrow> xuid \<Rightarrow> invite_request" where
  "build_invite scid template s invited =
     \<lparr>iv_version = 1, iv_type = ''invite'',
      iv_ref = \<lparr>sr_scid = scid, sr_template = template, sr_name = xs_session_id s\<rparr>,
      iv_title_id = show_int invite_title_id, iv_invited_xuid = invited\<rparr>"

definition send_invite :: "unit exchange \<Rightarrow> xbl_error option" where
  "send_invite e = (case expect {200, 201} e of Inl err \<Rightarrow> Some err | Inr u \<Rightarrow> None)"

record profile_user =
  pu_id :: xuid
  pu_settings :: "(string \<times> string) list"

datatype profile_error = ProfileFailed xbl_error | NoProfile | NoGamertag

definition fetch_profile :: "profile_user list exchange \<Rightarrow> profile_error + profile_user" where
  "fetch_profile e =
     (case expect {200} e of
        Inl err \<Rightarrow> Inl (ProfileFailed err)
      | Inr users \<Rightarrow> (case users of [] \<Rightarrow> Inl NoProfile | u # us \<Rightarrow> Inr u))"

definition xuid_for_gamertag ::
  "(string \<Rightarrow> profile_user list exchange) \<Rightarrow> string \<Rightarrow> profile_error + xuid" where
  "xuid_for_gamertag get gamertag =
     (case fetch_profile (get (''gt('' @ gamertag @ '')/profile/settings?settings=Gamertag'')) of
        Inl e \<Rightarrow> Inl e
      | Inr u \<Rightarrow> Inr (pu_id u))"

definition gamertag_for_xuid ::
  "(string \<Rightarrow> profile_user list exchange) \<Rightarrow> xuid \<Rightarrow> profile_error + string" where
  "gamertag_for_xuid get x =
     (case fetch_profile (get (''xuid('' @ x @ '')/profile/settings?settings=Gamertag'')) of
        Inl e \<Rightarrow> Inl e
      | Inr u \<Rightarrow>
          (case find (\<lambda>s. fst s = ''Gamertag'') (pu_settings u) of
             None \<Rightarrow> Inl NoGamertag
           | Some s \<Rightarrow> Inr (snd s)))"

section \<open>Lemmas\<close>

text \<open>The nonce is the first one that a read of the session shows for the player.\<close>

lemma wait_nonce_first:
  "wait_nonce x polls = Some (Inr (n, custom)) \<Longrightarrow>
   \<exists>before answer time_up after. polls = before @ (answer, time_up) # after \<and> read_custom answer = Inr custom \<and>
     n = sc_nonces custom x \<and> n \<noteq> '''' \<and>
     (\<forall>(a, up) \<in> set before. \<not> up \<and> (\<forall>c. read_custom a = Inr c \<longrightarrow> sc_nonces c x = ''''))"
proof (induction x polls rule: wait_nonce.induct)
  case (1 x)
  then show ?case by simp
next
  case (2 x answer time_up polls)
  show ?case
  proof (cases "\<exists>c. read_custom answer = Inr c \<and> sc_nonces c x \<noteq> ''''")
    case True
    with 2(3) show ?thesis by (intro exI [of _ "[]"] exI [of _ answer] exI [of _ time_up] exI [of _ polls]) auto
  next
    case False
    with 2(3) have t: "\<not> time_up" "wait_nonce x polls = Some (Inr (n, custom))"
      by (auto split: sum.splits if_splits)
    obtain before a up after where ih: "polls = before @ (a, up) # after" "read_custom a = Inr custom"
      "n = sc_nonces custom x" "n \<noteq> ''''"
      "\<forall>(a, up) \<in> set before. \<not> up \<and> (\<forall>c. read_custom a = Inr c \<longrightarrow> sc_nonces c x = '''')"
    proof (cases "read_custom answer")
      case (Inl e)
      from 2(1) [OF Inl t(1) t(2)] that show thesis by blast
    next
      case (Inr c)
      with False have "\<not> sc_nonces c x \<noteq> ''''" by auto
      from 2(2) [OF Inr this t(1) t(2)] that show thesis by blast
    qed
    with t(1) False show ?thesis
      by (intro exI [of _ "(answer, time_up) # before"] exI [of _ a] exI [of _ up] exI [of _ after]) auto
  qed
qed

end
