(* ===== verification/Xbl_Requests.thy ===== *)
theory Xbl_Requests
  imports Xbl_Client
begin

text \<open>
  The requests of \<open>src/xbl\<close> to the session directory as they go out: method, URL, headers and body,
  of \<open>session.go\<close>, \<open>activity.go\<close>, \<open>join.go\<close> and \<open>invite.go\<close>; a member's whole stay in somebody
  else's session; and the two sides of a nonce, which a host publishes and a joiner waits for. The
  service's answers are functions of the request. JSON stays out: a body is the Go value that is
  marshalled.
\<close>

section \<open>Requests\<close>

definition service_config_id :: string where
  "service_config_id = ''4fc10100-5f7a-4470-899b-280835760c07''"

definition template_name :: string where "template_name = ''MinecraftLobby''"

definition create_handle_url :: string where
  "create_handle_url = ''https://sessiondirectory.xboxlive.com/handles''"

definition activity_handles_url :: string where
  "activity_handles_url =
     ''https://sessiondirectory.xboxlive.com/handles/query?include=relatedInfo,customProperties''"

definition xbl_contract_version :: string where "xbl_contract_version = ''107''"

definition session_url :: "string \<Rightarrow> string" where
  "session_url session_id =
     ''https://sessiondirectory.xboxlive.com/serviceconfigs/'' @ service_config_id @ ''/sessionTemplates/'' @
     template_name @ ''/sessions/'' @ session_id"

definition join_by_handle_url :: "string \<Rightarrow> string" where
  "join_by_handle_url handle = ''https://sessiondirectory.xboxlive.com/handles/'' @ handle @ ''/session''"

text \<open>The custom object of a session document, as a reader of the document decodes it.\<close>

definition custom_of :: "session_request \<Rightarrow> session_custom" where
  "custom_of q =
     \<lparr>sc_broadcast_setting = rq_broadcast_setting q, sc_cross_play_disabled = rq_cross_play_disabled q,
      sc_joinability = rq_joinability q, sc_lan_game = rq_lan_game q, sc_max_member_count = rq_max_member_count q,
      sc_member_count = rq_member_count q, sc_online_cross_platform = rq_online_cross_platform q,
      sc_connections = [\<lparr>cn_type = rq_connection_type q, cn_host_ip = rq_host_ip q, cn_host_port = rq_host_port q,
                          cn_nether_id = rq_nether_id q, cn_pmsg_id = rq_pmsg_id q\<rparr>],
      sc_title_id = rq_title_id q, sc_transport_layer = rq_transport_layer q, sc_level_id = rq_level_id q,
      sc_host_name = rq_host_name q, sc_owner_id = rq_owner_id q, sc_raknet_guid = rq_raknet_guid q,
      sc_world_name = rq_world_name q, sc_world_type = rq_world_type q, sc_protocol = rq_protocol q,
      sc_version = rq_version q, sc_editor_world = rq_editor_world q, sc_hardcore = rq_hardcore q,
      sc_nonces = (\<lambda>x. case map_of (rq_nonces q) x of None \<Rightarrow> '''' | Some n \<Rightarrow> n)\<rparr>"

definition published_custom :: "xbl_session \<Rightarrow> session_custom" where
  "published_custom s = custom_of (build_request s)"

datatype request_body =
    NoBody
  | SessionDocument session_request
  | CreateHandle int string session_ref
  | ActivitySearch string string "xuid list"
  | JoinMember "session_member option"
  | Invite invite_request
  | RawBody string

record http_request =
  hr_method :: string
  hr_url :: string
  hr_headers :: "(string \<times> string) list"
  hr_body :: request_body

definition json_headers :: "string \<Rightarrow> (string \<times> string) list" where
  "json_headers auth =
     [(''Content-Type'', ''application/json''), (''Authorization'', auth),
      (''x-xbl-contract-version'', xbl_contract_version)]"

definition put_request :: "xbl_session \<Rightarrow> string \<Rightarrow> http_request" where
  "put_request s auth =
     \<lparr>hr_method = ''PUT'', hr_url = session_url (xs_session_id s), hr_headers = json_headers auth,
      hr_body = SessionDocument (build_request s)\<rparr>"

definition handle_request :: "xbl_session \<Rightarrow> string \<Rightarrow> http_request" where
  "handle_request s auth =
     \<lparr>hr_method = ''POST'', hr_url = create_handle_url, hr_headers = json_headers auth,
      hr_body = CreateHandle 1 ''activity''
        \<lparr>sr_scid = service_config_id, sr_template = template_name, sr_name = xs_session_id s\<rparr>\<rparr>"

definition invite_post :: "xbl_session \<Rightarrow> xuid \<Rightarrow> string \<Rightarrow> http_request" where
  "invite_post s invited auth =
     \<lparr>hr_method = ''POST'', hr_url = create_handle_url, hr_headers = json_headers auth,
      hr_body = Invite (build_invite service_config_id template_name s invited)\<rparr>"

definition activity_request :: "xuid list \<Rightarrow> string \<Rightarrow> http_request" where
  "activity_request xuids auth =
     \<lparr>hr_method = ''POST'', hr_url = activity_handles_url, hr_headers = json_headers auth,
      hr_body = ActivitySearch ''activity'' service_config_id xuids\<rparr>"

definition join_request :: "xuid \<Rightarrow> string \<Rightarrow> string \<Rightarrow> string \<Rightarrow> string \<Rightarrow> http_request" where
  "join_request x connection_id uuid handle auth =
     \<lparr>hr_method = ''PUT'', hr_url = join_by_handle_url handle,
      hr_headers = [(''Content-Type'', ''application/json''), (''If-Match'', ''*''), (''Authorization'', auth),
                    (''x-xbl-contract-version'', xbl_contract_version)],
      hr_body = JoinMember (join_member x connection_id uuid)\<rparr>"

definition read_request :: "string \<Rightarrow> string \<Rightarrow> http_request" where
  "read_request url auth =
     \<lparr>hr_method = ''GET'', hr_url = url,
      hr_headers = [(''Authorization'', auth), (''x-xbl-contract-version'', xbl_contract_version)],
      hr_body = NoBody\<rparr>"

definition leave_request :: "string \<Rightarrow> string \<Rightarrow> http_request" where
  "leave_request url auth =
     \<lparr>hr_method = ''PUT'', hr_url = url, hr_headers = json_headers auth, hr_body = JoinMember leave_member\<rparr>"

section \<open>Calls\<close>

text \<open>
  \<open>activityAuthHeader\<close> and \<open>Session.authHeader\<close>: the header of a fresh token for
  \<open>http://xboxlive.com\<close>, \<open>None\<close> when there is none. A call without a token sends nothing; else the
  service answers the request. What was sent comes with the answer.
\<close>

definition http_call ::
  "string option \<Rightarrow> (string \<Rightarrow> http_request) \<Rightarrow> (http_request \<Rightarrow> 'a exchange) \<Rightarrow> 'a exchange \<times> http_request list" where
  "http_call token build service =
     (case token of None \<Rightarrow> (NoToken, []) | Some auth \<Rightarrow> (service (build auth), [build auth]))"

definition send_invite_call ::
  "xbl_session \<Rightarrow> xuid \<Rightarrow> string option \<Rightarrow> (http_request \<Rightarrow> unit exchange) \<Rightarrow> xbl_error option \<times> http_request list" where
  "send_invite_call s invited token service =
     (let (e, out) = http_call token (invite_post s invited) service in (send_invite e, out))"

definition activities_call ::
  "xuid list \<Rightarrow> string option \<Rightarrow> (http_request \<Rightarrow> activity_handle list exchange) \<Rightarrow>
   (xbl_error + active_session list) \<times> http_request list" where
  "activities_call xuids token service =
     (if xuids = [] then (Inr [], [])
      else (let (e, out) = http_call token (activity_request xuids) service
            in (activities_for_xuids (\<lambda>xs. e) xuids, out)))"

definition create_call ::
  "xbl_session \<Rightarrow> string option \<times> string option \<Rightarrow> (http_request \<Rightarrow> unit exchange) \<Rightarrow>
   (http_request \<Rightarrow> string exchange) \<Rightarrow> (xbl_session \<times> xbl_error option) \<times> http_request list" where
  "create_call s tokens puts handles =
     (let (e, out) = http_call (fst tokens) (put_request s) puts
      in case put_session e of
           Inl err \<Rightarrow> ((s, Some err), out)
         | Inr b \<Rightarrow>
             (let (h, out') = http_call (snd tokens) (handle_request s) handles
              in (create_session e h s, out @ out')))"

text \<open>One stay: join, poll for the nonce, leave. A poll is its token, and whether the time is up after it.\<close>

fun read_polls ::
  "string \<Rightarrow> (http_request \<Rightarrow> nat \<Rightarrow> session_custom exchange) \<Rightarrow> nat \<Rightarrow> (string option \<times> bool) list \<Rightarrow>
   (session_custom exchange \<times> bool) list" where
  "read_polls url service n [] = []"
| "read_polls url service n ((token, time_up) # polls) =
     (fst (http_call token (read_request url) (\<lambda>r. service r n)), time_up) # read_polls url service (Suc n) polls"

text \<open>The polls that \<open>WaitNonce\<close> really makes: it stops at the first nonce and when the time is up.\<close>

fun polls_made ::
  "xuid \<Rightarrow> string \<Rightarrow> (http_request \<Rightarrow> nat \<Rightarrow> session_custom exchange) \<Rightarrow> nat \<Rightarrow> (string option \<times> bool) list \<Rightarrow>
   http_request list" where
  "polls_made x url service n [] = []"
| "polls_made x url service n ((token, time_up) # polls) =
     (let (e, out) = http_call token (read_request url) (\<lambda>r. service r n)
      in out @ (if time_up \<or> (\<exists>custom. read_custom e = Inr custom \<and> sc_nonces custom x \<noteq> '''') then []
                else polls_made x url service (Suc n) polls))"

record stay =
  sy_xuid :: xuid
  sy_connection :: string
  sy_uuid :: string
  sy_handle :: string
  sy_join_token :: "string option"
  sy_polls :: "(string option \<times> bool) list"
  sy_leave_token :: "string option"

record directory =
  dr_join :: "http_request \<Rightarrow> string exchange"
  dr_read :: "http_request \<Rightarrow> nat \<Rightarrow> session_custom exchange"
  dr_leave :: "http_request \<Rightarrow> unit exchange"

definition stay_in_session ::
  "directory \<Rightarrow> stay \<Rightarrow> (join_error + (nonce_error + string \<times> session_custom) option \<times> xbl_error option) \<times> http_request list" where
  "stay_in_session d y =
     (let (e, joined) = http_call (sy_join_token y) (join_request (sy_xuid y) (sy_connection y) (sy_uuid y) (sy_handle y)) (dr_join d)
      in case join_session e of
           Inl err \<Rightarrow> (Inl err, joined)
         | Inr url \<Rightarrow>
             (let (l, left) = http_call (sy_leave_token y) (leave_request url) (dr_leave d)
              in (Inr (wait_nonce (sy_xuid y) (read_polls url (dr_read d) 0 (sy_polls y)), leave_session l),
                  joined @ polls_made (sy_xuid y) url (dr_read d) 0 (sy_polls y) @ left)))"

section \<open>Lemmas\<close>

lemma http_call_simps [simp]:
  "http_call None build service = (NoToken, [])"
  "http_call (Some auth) build service = (service (build auth), [build auth])"
  by (simp_all add: http_call_def)

lemma http_call_sent: "r \<in> set (snd (http_call token build service)) \<Longrightarrow> \<exists>auth. token = Some auth \<and> r = build auth"
  by (cases token) simp_all

lemma polls_made_sent:
  "r \<in> set (polls_made x url service n polls) \<Longrightarrow> \<exists>auth. r = read_request url auth"
  by (induction x url service n polls rule: polls_made.induct)
    (auto simp: Let_def http_call_def split: option.splits if_splits)

lemma fixed_urls:
  "has_prefix (join_by_handle_url handle) session_directory"
  by (simp add: has_prefix_def join_by_handle_url_def session_directory_def)

lemma join_session_url:
  "join_session e = Inr url \<longleftrightarrow>
     (\<exists>loc. e = Answer 200 (Some loc) \<and> loc \<noteq> '''' \<and>
        url = (if has_prefix loc ''/'' then session_directory @ loc else loc))"
  by (cases e) (auto simp: join_session_def expect_def split: option.splits sum.splits if_splits)

lemma refreshed_nonce:
  assumes "nonces_inv s" "refresh_nonces nonce (Answer 200 (Some members)) put_answer s = (s', pushed, err)"
    and "map_of (active_connections (xs_xuid s) members) x = Some c"
    and "map_of (xs_nonce_connections s) x \<noteq> Some c"
  shows "pushed \<and> map_of (xs_nonces s') x = Some (nonce x) \<and> xs_xuid s' = xs_xuid s"
proof -
  let ?a = "active_connections (xs_xuid s) members"
  obtain changed where r: "refresh_locked nonce ?a s = (s', changed)" "pushed = changed"
    using assms(2) by (auto simp: refresh_nonces_def expect_def split: prod.splits if_splits)
  note spec = refresh_locked_spec [OF assms(1) active_connections_distinct r(1)]
  have "pushed" using spec(3) r(2) assms(3,4) by (auto simp: fun_eq_iff)
  moreover have "map_of (xs_nonces s') x = Some (nonce x)" using spec(2) [of x] assms(3,4) by simp
  moreover have "xs_xuid s' = xs_xuid s"
    using r(1) by (auto simp: refresh_locked_def Let_def split: prod.splits)
  ultimately show ?thesis by simp
qed

lemma wait_nonce_skips:
  assumes "\<forall>(a, up) \<in> set before. \<not> up \<and> (\<forall>c. read_custom a = Inr c \<longrightarrow> sc_nonces c x = '''')"
  shows "wait_nonce x (before @ polls) = wait_nonce x polls"
  using assms by (induction before) (auto split: sum.split)

section \<open>Properties\<close>

text \<open>
  A stay that joined is one join, reads of the joined session and nothing else, and the leave of
  the same session as its last request.
\<close>

theorem stay_ends_with_leave:
  assumes "sy_join_token y = Some a" "sy_leave_token y = Some b"
    and "fst (stay_in_session d y) = Inr outcome"
  shows "\<exists>url reads. snd (stay_in_session d y) =
      join_request (sy_xuid y) (sy_connection y) (sy_uuid y) (sy_handle y) a # reads @ [leave_request url b] \<and>
    (\<forall>r \<in> set reads. hr_method r = ''GET'' \<and> hr_url r = url) \<and> hr_body (leave_request url b) = JoinMember None"
proof -
  obtain url where u: "join_session (dr_join d (join_request (sy_xuid y) (sy_connection y) (sy_uuid y) (sy_handle y) a)) = Inr url"
    using assms by (auto simp: stay_in_session_def Let_def split: sum.splits)
  let ?p = "polls_made (sy_xuid y) url (dr_read d) 0 (sy_polls y)"
  have "\<forall>r \<in> set ?p. hr_method r = ''GET'' \<and> hr_url r = url"
    by (auto dest!: polls_made_sent simp: read_request_def)
  with u assms(1,2) show ?thesis
    by (intro exI [of _ url] exI [of _ ?p]) (simp add: stay_in_session_def leave_request_def leave_member_def)
qed

text \<open>
  As long as the directory names a session by a path, every request of a stay, and so every token,
  goes to the session directory.
\<close>

theorem token_stays_in_directory:
  assumes "\<And>r loc. dr_join d r = Answer 200 (Some loc) \<Longrightarrow> loc \<noteq> '''' \<Longrightarrow> has_prefix loc ''/''"
    and "r \<in> set (snd (stay_in_session d y))"
  shows "has_prefix (hr_url r) session_directory"
proof -
  let ?call = "http_call (sy_join_token y) (join_request (sy_xuid y) (sy_connection y) (sy_uuid y) (sy_handle y)) (dr_join d)"
  have joined: "q \<in> set (snd ?call) \<Longrightarrow> has_prefix (hr_url q) session_directory" for q
    by (auto dest!: http_call_sent simp: join_request_def fixed_urls)
  show ?thesis
  proof (cases "join_session (fst ?call)")
    case (Inl e)
    with assms(2) joined show ?thesis by (auto simp: stay_in_session_def split: prod.splits)
  next
    case (Inr url)
    then obtain loc where loc: "fst ?call = Answer 200 (Some loc)" "loc \<noteq> ''''"
      "url = (if has_prefix loc ''/'' then session_directory @ loc else loc)"
      by (auto simp: join_session_url)
    then have "has_prefix loc ''/''" using assms(1) by (cases "sy_join_token y") auto
    with loc(3) have url: "has_prefix url session_directory" by (simp add: has_prefix_def)
    obtain e joined' where c: "?call = (e, joined')" by (cases ?call)
    obtain l left where lv: "http_call (sy_leave_token y) (leave_request url) (dr_leave d) = (l, left)"
      by (cases "http_call (sy_leave_token y) (leave_request url) (dr_leave d)")
    have "r \<in> set joined' \<or> r \<in> set (polls_made (sy_xuid y) url (dr_read d) 0 (sy_polls y)) \<or> r \<in> set left"
      using assms(2) Inr c lv by (simp add: stay_in_session_def)
    then show ?thesis
      using joined [of r] c lv url http_call_sent [of r "sy_leave_token y" "leave_request url" "dr_leave d"]
      by (auto dest!: polls_made_sent simp: read_request_def leave_request_def)
  qed
qed

text \<open>
  A location that does not start with a slash is taken as the URL of the session, whatever host it
  names: the reads of the session carry the account's token to it.
\<close>

theorem foreign_location_gets_token:
  assumes "sy_join_token y = Some a" "sy_polls y = (Some b, up) # polls"
    and "dr_join d (join_request (sy_xuid y) (sy_connection y) (sy_uuid y) (sy_handle y) a) = Answer 200 (Some loc)"
    and "loc \<noteq> ''''" "\<not> has_prefix loc ''/''"
  shows "\<exists>r \<in> set (snd (stay_in_session d y)). hr_url r = loc \<and> (''Authorization'', b) \<in> set (hr_headers r)"
proof -
  have "join_session (Answer 200 (Some loc)) = Inr loc" using assms(4,5) by (simp add: join_session_url)
  with assms(1-3) show ?thesis
    by (intro bexI [of _ "read_request loc b"])
      (auto simp: stay_in_session_def read_request_def Let_def split: prod.splits)
qed


text \<open>
  A player who joins again, before the host has looked, reads the nonce of his former connection at
  once: \<open>WaitNonce\<close> returns it, and the host's next refresh replaces it.
\<close>

theorem rejoin_gets_stale_nonce:
  assumes "nonces_inv s" "map_of (xs_nonces s) x = Some old" "old \<noteq> ''''"
    and "refresh_nonces nonce (Answer 200 (Some members)) put_answer s = (s', pushed, err)"
    and "map_of (active_connections (xs_xuid s) members) x = Some c"
    and "map_of (xs_nonce_connections s) x \<noteq> Some c"
  shows "wait_nonce x ((Answer 200 (Some (published_custom s)), up) # polls) = Some (Inr (old, published_custom s)) \<and>
    map_of (xs_nonces s') x = Some (nonce x)"
proof -
  have "sc_nonces (published_custom s) x = old" using assms(2) by (simp add: published_custom_def custom_of_def build_request_def)
  with refreshed_nonce [OF assms(1,4,5,6)] assms(3) show ?thesis
    by (simp add: read_custom_def expect_def)
qed

section \<open>Witnesses\<close>

definition demo_directory :: "string \<Rightarrow> session_custom \<Rightarrow> directory" where
  "demo_directory loc custom =
     \<lparr>dr_join = (\<lambda>r. Answer 200 (Some loc)), dr_read = (\<lambda>r n. Answer 200 (Some custom)),
      dr_leave = (\<lambda>r. Answer 204 (Some ()))\<rparr>"

definition demo_stay :: stay where
  "demo_stay = \<lparr>sy_xuid = ''5'', sy_connection = ''c'', sy_uuid = ''u'', sy_handle = ''h'',
     sy_join_token = Some ''t1'', sy_polls = [(Some ''t2'', False)], sy_leave_token = Some ''t3''\<rparr>"

definition demo_member :: member where
  "demo_member = \<lparr>mb_constants = Some ''5'', mb_connection = Some ''new''\<rparr>"

definition demo_world_info :: world_info where
  "demo_world_info = \<lparr>wi_host_name = ''h'', wi_world_name = ''w'', wi_players = 1, wi_max_players = 10,
     wi_protocol = 1, wi_version = ''1''\<rparr>"

definition demo_hosted :: "(xuid \<times> string) list \<Rightarrow> (xuid \<times> string) list \<Rightarrow> xbl_session" where
  "demo_hosted ns cs =
     (new_session (\<lambda>i. i) ''id'' ''sub'' demo_world_info ''1'' '''' ''c1'' ''pm'' 9)
       \<lparr>xs_nonces := ns, xs_nonce_connections := cs\<rparr>"

lemma demo_hosted_simps [simp]:
  "xs_xuid (demo_hosted ns cs) = ''1''" "xs_nonces (demo_hosted ns cs) = ns"
  "xs_nonce_connections (demo_hosted ns cs) = cs"
  by (simp_all add: demo_hosted_def new_session_def Let_def)

lemma demo_active: "map_of (active_connections (xs_xuid (demo_hosted ns cs)) [demo_member]) ''5'' = Some ''new''"
  by (simp add: demo_member_def)

theorem stay_ends_with_leave_witness:
  "\<exists>url reads. snd (stay_in_session (demo_directory ''/s'' no_custom) demo_stay) =
      join_request ''5'' ''c'' ''u'' ''h'' ''t1'' # reads @ [leave_request url ''t3''] \<and>
    (\<forall>r \<in> set reads. hr_method r = ''GET'' \<and> hr_url r = url) \<and> hr_body (leave_request url ''t3'') = JoinMember None"
proof -
  have "fst (stay_in_session (demo_directory ''/s'' no_custom) demo_stay) = Inr (None, None)"
    by (simp add: stay_in_session_def demo_stay_def demo_directory_def join_session_def expect_def
        read_custom_def no_custom_def leave_session_def)
  from stay_ends_with_leave [OF _ _ this] show ?thesis by (simp add: demo_stay_def)
qed

theorem token_stays_in_directory_witness:
  "has_prefix (hr_url (join_request ''5'' ''c'' ''u'' ''h'' ''t1'')) session_directory"
proof -
  have "join_request ''5'' ''c'' ''u'' ''h'' ''t1'' \<in> set (snd (stay_in_session (demo_directory ''/s'' no_custom) demo_stay))"
    by (simp add: stay_in_session_def demo_stay_def Let_def split: sum.split)
  moreover have "dr_join (demo_directory ''/s'' no_custom) r = Answer 200 (Some loc) \<Longrightarrow> has_prefix loc ''/''" for r loc
    by (auto simp: demo_directory_def has_prefix_def)
  ultimately show ?thesis using token_stays_in_directory [of "demo_directory ''/s'' no_custom"] by blast
qed

theorem foreign_location_gets_token_witness:
  "\<exists>r \<in> set (snd (stay_in_session (demo_directory ''http://eve/s'' no_custom) demo_stay)).
     hr_url r = ''http://eve/s'' \<and> (''Authorization'', ''t2'') \<in> set (hr_headers r)"
  by (rule foreign_location_gets_token [where a = "''t1''" and up = False and polls = "[]"])
    (simp_all add: demo_stay_def demo_directory_def has_prefix_def)


theorem rejoin_gets_stale_nonce_witness:
  "let s = demo_hosted [(''5'', ''old'')] [(''5'', ''c0'')];
       s' = fst (refresh_nonces (\<lambda>x. ''n'' @ x) (Answer 200 (Some [demo_member])) (NoAnswer :: unit exchange) s)
   in wait_nonce ''5'' [(Answer 200 (Some (published_custom s)), False)] = Some (Inr (''old'', published_custom s)) \<and>
     map_of (xs_nonces s') ''5'' = Some ''n5''"
proof -
  let ?s = "demo_hosted [(''5'', ''old'')] [(''5'', ''c0'')]"
  obtain s' pushed err where r: "refresh_nonces (\<lambda>x. ''n'' @ x) (Answer 200 (Some [demo_member])) (NoAnswer :: unit exchange)
      ?s = (s', pushed, err)"
    by (metis prod_cases3)
  have "nonces_inv ?s" by (simp add: nonces_inv_def)
  from rejoin_gets_stale_nonce [OF this _ _ r demo_active, of "''old''" False "[]"]
  have "wait_nonce ''5'' [(Answer 200 (Some (published_custom ?s)), False)] = Some (Inr (''old'', published_custom ?s)) \<and>
     map_of (xs_nonces s') ''5'' = Some (''n'' @ ''5'')"
    by (simp del: wait_nonce.simps)
  with r show ?thesis by (simp add: Let_def del: wait_nonce.simps)
qed

end
