(* ===== verification/Raknet_Ping.thy ===== *)
theory Raknet_Ping
  imports N2R_Prelude
begin

text \<open>
  Package \<open>internal\<close>: the unconnected ping and pong of RakNet, byte for byte. The first byte, the
  packet id, is written by \<open>MarshalBinary\<close> and already consumed when \<open>UnmarshalBinary\<close> is
  called. Reading past the end of a slice is a panic, a value of its own here.
\<close>

unbundle bit_operations_syntax

section \<open>Big-endian integers\<close>

type_synonym bytes = "8 word list"

fun be_put :: "nat \<Rightarrow> 'a::len word \<Rightarrow> bytes" where
  "be_put 0 w = []"
| "be_put (Suc k) w = be_put k (drop_bit 8 w) @ [ucast w]"

definition be_get :: "bytes \<Rightarrow> 'a::len word" where
  "be_get bs = foldl (\<lambda>acc b. push_bit 8 acc OR ucast b) 0 bs"

lemma length_be_put [simp]: "length (be_put k w) = k"
  by (induction k w rule: be_put.induct) simp_all

lemma be_get_step:
  fixes w :: "'a::len word"
  assumes "8 \<le> LENGTH('a)"
  shows "push_bit 8 (take_bit (8 * k) (drop_bit 8 w)) OR ucast (ucast w :: 8 word) = take_bit (8 * Suc k) w"
proof (rule bit_word_eqI)
  fix n assume "n < LENGTH('a)"
  then show "bit (push_bit 8 (take_bit (8 * k) (drop_bit 8 w)) OR ucast (ucast w :: 8 word)) n =
      bit (take_bit (8 * Suc k) w) n"
    by (auto simp: bit_simps)
qed

lemma be_get_put_take:
  fixes w :: "'a::len word"
  assumes "8 \<le> LENGTH('a)"
  shows "be_get (be_put k w) = take_bit (8 * k) w"
proof (induction k arbitrary: w)
  case 0
  then show ?case by (simp add: be_get_def)
next
  case (Suc k)
  have "(be_get (be_put (Suc k) w) :: 'a word) =
      push_bit 8 (be_get (be_put k (drop_bit 8 w))) OR ucast (ucast w :: 8 word)"
    by (simp add: be_get_def)
  then show ?case by (simp only: Suc.IH be_get_step [OF assms])
qed

lemma be_get_put:
  fixes w :: "'a::len word"
  assumes "8 \<le> LENGTH('a)" "LENGTH('a) \<le> 8 * k"
  shows "be_get (be_put k w) = w"
  using be_get_put_take [OF assms(1), of k w] assms(2) by (simp add: take_bit_word_eq_self)

section \<open>The messages\<close>

record unconnected_ping =
  ping_time :: "64 word"
  ping_client_guid :: "64 word"

record unconnected_pong =
  pong_time :: "64 word"
  pong_server_guid :: "64 word"
  pong_data :: bytes

datatype 'a decoded = UnexpectedEof | Panicked | Decoded 'a

definition id_unconnected_ping :: "8 word" where "id_unconnected_ping = 0x01"
definition id_unconnected_pong :: "8 word" where "id_unconnected_pong = 0x1c"

definition message_sequence :: bytes where
  "message_sequence =
     [0x00, 0xff, 0xff, 0x00, 0xfe, 0xfe, 0xfe, 0xfe, 0xfd, 0xfd, 0xfd, 0xfd, 0x12, 0x34, 0x56, 0x78]"

definition ping_marshal :: "unconnected_ping \<Rightarrow> bytes" where
  "ping_marshal pk =
     [id_unconnected_ping] @ be_put 8 (ping_time pk) @ message_sequence @ be_put 8 (ping_client_guid pk)"

definition ping_unmarshal :: "bytes \<Rightarrow> unconnected_ping decoded" where
  "ping_unmarshal data =
     (if length data < 32 then UnexpectedEof
      else Decoded \<lparr>ping_time = be_get (take 8 data), ping_client_guid = be_get (take 8 (drop 24 data))\<rparr>)"

definition pong_marshal :: "unconnected_pong \<Rightarrow> bytes" where
  "pong_marshal pk =
     [id_unconnected_pong] @ be_put 8 (pong_time pk) @ be_put 8 (pong_server_guid pk) @ message_sequence @
     be_put 2 (of_nat (length (pong_data pk)) :: 16 word) @ pong_data pk"

text \<open>
  The guard adds the length as an \<open>int\<close>, the slice expression as a \<open>uint16\<close>: there the end of
  the slice wraps, and an end before its start panics.
\<close>

definition pong_unmarshal :: "bytes \<Rightarrow> unconnected_pong decoded" where
  "pong_unmarshal data =
     (if length data < 34 then UnexpectedEof
      else (let n = (be_get (take 2 (drop 32 data)) :: 16 word);
                end = unat (34 + n)
            in if length data < 34 + unat n then UnexpectedEof
               else if end < 34 then Panicked
               else Decoded \<lparr>pong_time = be_get (take 8 data), pong_server_guid = be_get (take 8 (drop 8 data)),
                             pong_data = take (end - 34) (drop 34 data)\<rparr>))"

section \<open>Properties\<close>

lemma message_sequence_length [simp]: "length message_sequence = 16"
  by (simp add: message_sequence_def)

lemma pong_end: "unat (n :: 16 word) < 65502 \<Longrightarrow> unat (34 + n) = 34 + unat n"
  by (simp add: unat_plus_if')

text \<open>
  What a pong writes is what it reads, up to the longest payload whose end still fits the
  16-bit arithmetic of the decoder.
\<close>

theorem pong_round_trip:
  assumes "length (pong_data pk) < 65502"
  shows "pong_unmarshal (tl (pong_marshal pk)) = Decoded pk"
proof -
  let ?n = "of_nat (length (pong_data pk)) :: 16 word"
  have n: "unat ?n = length (pong_data pk)" using assms by (simp add: unat_of_nat)
  have get: "be_get (be_put 8 w) = w" "be_get (be_put 2 v) = v" for w :: "64 word" and v :: "16 word"
    by (simp_all add: be_get_put)
  have "unat (34 + ?n) = 34 + length (pong_data pk)" using pong_end [of ?n] n assms by simp
  then show ?thesis using n by (simp add: pong_unmarshal_def pong_marshal_def Let_def get)
qed

theorem pong_round_trip_witness:
  "pong_unmarshal (tl (pong_marshal \<lparr>pong_time = 5, pong_server_guid = 7, pong_data = [1, 2]\<rparr>)) =
     Decoded \<lparr>pong_time = 5, pong_server_guid = 7, pong_data = [1, 2]\<rparr>"
  by (rule pong_round_trip) simp

text \<open>
  Every pong of at least 65536 bytes whose length field is 65502 or more passes the length
  check and then panics, whatever its other bytes are: the end of the slice wraps below its
  start.
\<close>

theorem pong_length_wraps:
  assumes "65502 \<le> unat (be_get (take 2 (drop 32 data)) :: 16 word)"
    and "34 + unat (be_get (take 2 (drop 32 data)) :: 16 word) \<le> length data"
  shows "pong_unmarshal data = Panicked"
proof -
  let ?n = "be_get (take 2 (drop 32 data)) :: 16 word"
  have "unat ?n < 65536" using unsigned_less [of ?n, where ?'a = nat] by simp
  then have "unat (34 + ?n) < 34" using assms(1) by (simp add: unat_plus_if')
  then show ?thesis using assms(2) by (simp add: pong_unmarshal_def Let_def)
qed

theorem pong_length_wraps_witness:
  "pong_unmarshal (replicate 32 0 @ [0xff, 0xff] @ replicate 65535 0) = Panicked"
proof (rule pong_length_wraps)
  have n: "(be_get [0xff, 0xff] :: 16 word) = 0xffff" by (simp add: be_get_def)
  show "65502 \<le> unat (be_get (take 2 (drop 32 (replicate 32 0 @ [0xff, 0xff] @ replicate 65535 0))) :: 16 word)"
    by (simp add: n)
  show "34 + unat (be_get (take 2 (drop 32 (replicate 32 0 @ [0xff, 0xff] @ replicate 65535 0))) :: 16 word)
      \<le> length (replicate 32 (0 :: 8 word) @ [0xff, 0xff] @ replicate 65535 0)"
    by (simp add: n)
qed

text \<open>A ping reads back as it was written, and a shorter datagram is refused.\<close>

theorem ping_round_trip:
  "ping_unmarshal (tl (ping_marshal pk)) = Decoded pk \<and>
   ping_unmarshal (take 31 (tl (ping_marshal pk))) = UnexpectedEof"
proof -
  have get: "be_get (be_put 8 w) = w" for w :: "64 word"
    by (simp add: be_get_put)
  show ?thesis by (simp add: ping_unmarshal_def ping_marshal_def get)
qed

end
