(* ===== verification/Messaging_Race.thy ===== *)
theory Messaging_Race
  imports Messaging_Conn
begin

text \<open>
  The callbacks of \<open>messaging/conn.go\<close> with the interleavings they really have: the JSON-RPC client
  runs each callback in a goroutine of its own, and \<open>trySend\<close> works on the shared store without a lock.
  \<open>thread_step\<close> is one statement of one callback, on a memory with the map of stores and the
  stores it points to. \<open>Messaging_Conn\<close> has the same operations as single steps; here it is shown that
  they agree when callbacks do not overlap, what still holds when they do, and what does not.
\<close>

section \<open>Memory and callbacks\<close>

record store_memory =
  sm_map :: "64 word \<rightharpoonup> nat"
  sm_heap :: "nat \<Rightarrow> pending_store"
  sm_next :: nat
  sm_out :: "signal list"

definition empty_store :: "instant \<Rightarrow> pending_store" where
  "empty_store now = \<lparr>ps_pending = [], ps_described = False, ps_last_activity = now\<rparr>"

definition empty_memory :: store_memory where
  "empty_memory = \<lparr>sm_map = Map.empty, sm_heap = (\<lambda>a. empty_store 0), sm_next = 0, sm_out = []\<rparr>"

text \<open>
  Where a callback is: before the look-up under \<open>pendingStoreMu\<close>, in \<open>trySend\<close> on the store at an address,
  or done. \<open>Flush\<close> holds the rest of the slice that \<open>range\<close> evaluated.
\<close>

datatype callback_pc =
    Decoded
  | Enter nat
  | SendDescription nat
  | SetFlag nat
  | RangePending nat
  | Flush nat "signal list"
  | ClearPending nat
  | TestFlag nat
  | SendNow nat
  | HoldBack nat
  | Finished

definition routed :: "signal \<Rightarrow> bool" where
  "routed s \<longleftrightarrow> sig_type s = SigCandidate \<or> sig_type s = SigOffer \<or> sig_type s = SigAnswer"

definition describes :: "signal \<Rightarrow> bool" where
  "describes s \<longleftrightarrow> sig_type s = SigOffer \<or> sig_type s = SigAnswer"

definition emit :: "signal \<Rightarrow> store_memory \<Rightarrow> store_memory" where
  "emit s m = m\<lparr>sm_out := sm_out m @ [s]\<rparr>"

definition change_store :: "nat \<Rightarrow> (pending_store \<Rightarrow> pending_store) \<Rightarrow> store_memory \<Rightarrow> store_memory" where
  "change_store a f m = m\<lparr>sm_heap := (sm_heap m)(a := f (sm_heap m a))\<rparr>"

definition look_up :: "instant \<Rightarrow> 64 word \<Rightarrow> store_memory \<Rightarrow> nat \<times> store_memory" where
  "look_up now cid m =
     (case sm_map m cid of
        Some a \<Rightarrow> (a, m)
      | None \<Rightarrow>
          (sm_next m,
           m\<lparr>sm_map := (sm_map m)(cid \<mapsto> sm_next m), sm_heap := (sm_heap m)(sm_next m := empty_store now),
             sm_next := Suc (sm_next m)\<rparr>))"

fun thread_step :: "instant \<Rightarrow> signal \<Rightarrow> callback_pc \<Rightarrow> store_memory \<Rightarrow> callback_pc \<times> store_memory" where
  "thread_step now s Decoded m =
     (if routed s then (let (a, m) = look_up now (sig_connection_id s) m in (Enter a, m))
      else (Finished, emit s m))"
| "thread_step now s (Enter a) m =
     ((if describes s then SendDescription a else TestFlag a), change_store a (\<lambda>p. p\<lparr>ps_last_activity := now\<rparr>) m)"
| "thread_step now s (SendDescription a) m = (SetFlag a, emit s m)"
| "thread_step now s (SetFlag a) m = (RangePending a, change_store a (\<lambda>p. p\<lparr>ps_described := True\<rparr>) m)"
| "thread_step now s (RangePending a) m = (Flush a (ps_pending (sm_heap m a)), m)"
| "thread_step now s (Flush a []) m = (ClearPending a, m)"
| "thread_step now s (Flush a (x # xs)) m = (Flush a xs, emit x m)"
| "thread_step now s (ClearPending a) m = (Finished, change_store a (\<lambda>p. p\<lparr>ps_pending := []\<rparr>) m)"
| "thread_step now s (TestFlag a) m =
     ((if ps_described (sm_heap m a) \<or> sig_type s \<noteq> SigCandidate then SendNow a else HoldBack a), m)"
| "thread_step now s (SendNow a) m = (Finished, emit s m)"
| "thread_step now s (HoldBack a) m = (Finished, change_store a (\<lambda>p. p\<lparr>ps_pending := ps_pending p @ [s]\<rparr>) m)"
| "thread_step now s Finished m = (Finished, m)"

text \<open>
  What happens, in the order the scheduler chooses: a message comes in and starts a callback, one callback
  does its next step, or the ticker forgets idle connections.
\<close>

datatype race_event = Arrives signal | Runs nat instant | TickerFires instant

type_synonym race_state = "store_memory \<times> (signal \<times> callback_pc) list"

definition forget_idle :: "instant \<Rightarrow> store_memory \<Rightarrow> store_memory" where
  "forget_idle now m =
     m\<lparr>sm_map := (\<lambda>cid. case sm_map m cid of
        None \<Rightarrow> None
      | Some a \<Rightarrow> if time_sub now (ps_last_activity (sm_heap m a)) > 30 * second then None else Some a)\<rparr>"

fun race_step :: "race_event \<Rightarrow> race_state \<Rightarrow> race_state" where
  "race_step (Arrives s) (m, ts) = (m, ts @ [(s, Decoded)])"
| "race_step (TickerFires now) (m, ts) = (forget_idle now m, ts)"
| "race_step (Runs i now) (m, ts) =
     (if i < length ts
      then (let (s, pc) = ts ! i; (pc, m) = thread_step now s pc m in (m, ts[i := (s, pc)]))
      else (m, ts))"

definition race_run :: "race_event list \<Rightarrow> race_state" where
  "race_run es = foldl (\<lambda>st e. race_step e st) (empty_memory, []) es"

section \<open>Callbacks that do not overlap\<close>

text \<open>A callback that runs alone, for at most \<open>n\<close> statements.\<close>

fun run_alone :: "nat \<Rightarrow> instant \<Rightarrow> signal \<Rightarrow> callback_pc \<Rightarrow> store_memory \<Rightarrow> store_memory option" where
  "run_alone n now s Finished m = Some m"
| "run_alone 0 now s pc m = None"
| "run_alone (Suc n) now s pc m = (let (pc, m) = thread_step now s pc m in run_alone n now s pc m)"

definition stores_of :: "store_memory \<Rightarrow> stores" where
  "stores_of m = (\<lambda>cid. map_option (sm_heap m) (sm_map m cid))"

definition memory_ok :: "store_memory \<Rightarrow> bool" where
  "memory_ok m \<longleftrightarrow> inj_on (sm_map m) (dom (sm_map m)) \<and> (\<forall>cid a. sm_map m cid = Some a \<longrightarrow> a < sm_next m)"

lemma memory_simps [simp]:
  "sm_map (emit s m) = sm_map m" "sm_heap (emit s m) = sm_heap m" "sm_next (emit s m) = sm_next m"
  "sm_out (emit s m) = sm_out m @ [s]"
  "sm_map (change_store a f m) = sm_map m" "sm_next (change_store a f m) = sm_next m" "sm_out (change_store a f m) = sm_out m"
  "sm_heap (change_store a f m) = (sm_heap m)(a := f (sm_heap m a))"
  by (simp_all add: emit_def change_store_def)

lemma memory_ok_simps [simp]:
  "memory_ok (emit s m) = memory_ok m" "memory_ok (change_store a f m) = memory_ok m"
  by (simp_all add: memory_ok_def)

lemma memory_ok_empty [simp]: "memory_ok empty_memory"
  by (simp add: memory_ok_def empty_memory_def)

lemma look_up_ok:
  assumes "memory_ok m" "look_up now cid m = (a, m')"
  shows "memory_ok m' \<and> sm_map m' cid = Some a \<and> sm_heap m' a = stored now cid (stores_of m) \<and>
    stores_of m' = (stores_of m)(cid \<mapsto> sm_heap m' a) \<and> sm_out m' = sm_out m"
proof (cases "sm_map m cid")
  case None
  have fresh: "sm_map m c \<noteq> Some (sm_next m)" for c using assms(1) by (auto simp: memory_ok_def)
  have "inj_on ((sm_map m)(cid \<mapsto> sm_next m)) (insert cid (dom (sm_map m)))"
    using assms(1) fresh by (auto simp: memory_ok_def inj_on_def dom_def)
  moreover have "stores_of m c = map_option ((sm_heap m)(sm_next m := empty_store now)) (sm_map m c)" for c
    using fresh [of c] by (cases "sm_map m c") (auto simp: stores_of_def)
  moreover have "\<forall>c b. ((sm_map m)(cid \<mapsto> sm_next m)) c = Some b \<longrightarrow> b < Suc (sm_next m)"
    using assms(1) by (auto simp: memory_ok_def less_Suc_eq)
  moreover have "a = sm_next m" "m' = m\<lparr>sm_map := (sm_map m)(cid \<mapsto> sm_next m),
      sm_heap := (sm_heap m)(sm_next m := empty_store now), sm_next := Suc (sm_next m)\<rparr>"
    using assms(2) None by (auto simp: look_up_def)
  ultimately show ?thesis
    using None by (simp add: memory_ok_def stores_of_def stored_def empty_store_def fun_eq_iff)
next
  case (Some a)
  then show ?thesis using assms by (auto simp: look_up_def stores_of_def stored_def fun_eq_iff)
qed

lemma stores_of_change:
  assumes "memory_ok m" "sm_map m cid = Some a"
  shows "stores_of (change_store a f m) = (stores_of m)(cid \<mapsto> f (sm_heap m a))"
proof
  fix c
  have "sm_map m c = Some a \<longleftrightarrow> c = cid"
    using assms by (auto simp: memory_ok_def inj_on_def dom_def)
  then show "stores_of (change_store a f m) c = ((stores_of m)(cid \<mapsto> f (sm_heap m a))) c"
    by (cases "sm_map m c") (auto simp: stores_of_def)
qed

lemma stores_of_emit [simp]:
  "stores_of (emit s m) = stores_of m" "stores_of (m\<lparr>sm_out := xs\<rparr>) = stores_of m"
  by (simp_all add: stores_of_def)

lemma run_flush:
  "run_alone (Suc (Suc (length xs))) now s (Flush a xs) m =
     Some (change_store a (\<lambda>p. p\<lparr>ps_pending := []\<rparr>) (m\<lparr>sm_out := sm_out m @ xs\<rparr>))"
proof (induction xs arbitrary: m)
  case Nil
  then show ?case by (cases m) (simp add: change_store_def)
next
  case (Cons x xs)
  have "run_alone (Suc (Suc (length (x # xs)))) now s (Flush a (x # xs)) m =
      run_alone (Suc (Suc (length xs))) now s (Flush a xs) (emit x m)"
    by simp
  then show ?case by (simp only: Cons.IH) (simp add: emit_def)
qed

lemma run_description:
  assumes "memory_ok m" "sm_map m cid = Some a" "describes s"
  shows "\<exists>n m'. run_alone n now s (Enter a) m = Some m' \<and> memory_ok m' \<and>
    stores_of m' = (stores_of m)(cid \<mapsto> (sm_heap m a)\<lparr>ps_last_activity := now, ps_described := True, ps_pending := []\<rparr>) \<and>
    sm_out m' = sm_out m @ s # ps_pending (sm_heap m a)"
proof -
  let ?p = "ps_pending (sm_heap m a)"
  let ?m1 = "change_store a (\<lambda>p. p\<lparr>ps_described := True\<rparr>) (emit s (change_store a (\<lambda>p. p\<lparr>ps_last_activity := now\<rparr>) m))"
  have "run_alone (4 + Suc (Suc (length ?p))) now s (Enter a) m = run_alone (Suc (Suc (length ?p))) now s (Flush a ?p) ?m1"
    using assms(3) by (simp add: numeral_eq_Suc)
  also have "\<dots> = Some (change_store a (\<lambda>p. p\<lparr>ps_pending := []\<rparr>) (?m1\<lparr>sm_out := sm_out ?m1 @ ?p\<rparr>))"
    by (rule run_flush)
  finally have run: "run_alone (4 + Suc (Suc (length ?p))) now s (Enter a) m = \<dots>" .
  have ok: "memory_ok (?m1\<lparr>sm_out := sm_out ?m1 @ ?p\<rparr>)" using assms(1) by (simp add: memory_ok_def)

  show ?thesis
  proof (intro exI conjI)
    show "run_alone (4 + Suc (Suc (length ?p))) now s (Enter a) m =
        Some (change_store a (\<lambda>p. p\<lparr>ps_pending := []\<rparr>) (?m1\<lparr>sm_out := sm_out ?m1 @ ?p\<rparr>))" by (rule run)
  qed (use assms(1,2) ok in \<open>simp_all add: stores_of_change\<close>)
qed

lemma run_candidate:
  assumes "memory_ok m" "sm_map m cid = Some a" "sig_type s = SigCandidate"
  shows "\<exists>n m'. run_alone n now s (Enter a) m = Some m' \<and> memory_ok m' \<and>
    stores_of m' = (stores_of m)(cid \<mapsto> (sm_heap m a)\<lparr>ps_last_activity := now,
      ps_pending := (if ps_described (sm_heap m a) then ps_pending (sm_heap m a) else ps_pending (sm_heap m a) @ [s])\<rparr>) \<and>
    sm_out m' = sm_out m @ (if ps_described (sm_heap m a) then [s] else [])"
proof -
  let ?m1 = "change_store a (\<lambda>p. p\<lparr>ps_last_activity := now\<rparr>) m"
  let ?m2 = "if ps_described (sm_heap m a) then emit s ?m1
    else change_store a (\<lambda>p. p\<lparr>ps_pending := ps_pending p @ [s]\<rparr>) ?m1"
  have run: "run_alone 3 now s (Enter a) m = Some ?m2"
    using assms(3) by (simp add: numeral_eq_Suc describes_def)
  show ?thesis
  proof (intro exI conjI)
    show "run_alone 3 now s (Enter a) m = Some ?m2" by (rule run)
  qed (use assms(1,2) in \<open>simp_all add: stores_of_change\<close>)
qed

text \<open>
  A callback that runs without another one in between does to the stores and to the channel exactly what
  \<open>receive_signal\<close> does in one step, and it comes to its end.
\<close>

theorem lone_callback_refines:
  assumes "memory_ok m"
  shows "\<exists>n m'. run_alone n now s Decoded m = Some m' \<and> memory_ok m' \<and>
    receive_signal now s (stores_of m) = (stores_of m', drop (length (sm_out m)) (sm_out m')) \<and>
    take (length (sm_out m)) (sm_out m') = sm_out m"
proof (cases "routed s")
  case False
  then have "run_alone 1 now s Decoded m = Some (emit s m)" by simp
  with assms False show ?thesis
    by (intro exI [of _ 1] exI [of _ "emit s m"]) (auto simp: receive_signal_def routed_def)
next
  case True
  let ?cid = "sig_connection_id s"
  obtain a m0 where l: "look_up now ?cid m = (a, m0)" by (meson surj_pair)
  note look = look_up_ok [OF assms l]
  have first: "run_alone (Suc n) now s Decoded m = run_alone n now s (Enter a) m0" for n
    using True l by simp
  show ?thesis
  proof (cases "describes s")
    case d: True
    obtain n m' where r: "run_alone n now s (Enter a) m0 = Some m'" "memory_ok m'"
      "stores_of m' = (stores_of m0)(?cid \<mapsto> (sm_heap m0 a)\<lparr>ps_last_activity := now, ps_described := True, ps_pending := []\<rparr>)"
      "sm_out m' = sm_out m0 @ s # ps_pending (sm_heap m0 a)"
      using run_description [OF _ _ d] look by blast
    have "run_alone (Suc n) now s Decoded m = Some m'" using first r(1) by simp
    with r(2-) look True d show ?thesis
      by (intro exI [of _ "Suc n"] exI [of _ m'])
        (simp add: receive_signal_def try_send_def routed_def describes_def Let_def)
  next
    case d: False
    then have c: "sig_type s = SigCandidate" using True by (simp add: routed_def describes_def)
    obtain n m' where r: "run_alone n now s (Enter a) m0 = Some m'" "memory_ok m'"
      "stores_of m' = (stores_of m0)(?cid \<mapsto> (sm_heap m0 a)\<lparr>ps_last_activity := now,
        ps_pending := (if ps_described (sm_heap m0 a) then ps_pending (sm_heap m0 a) else ps_pending (sm_heap m0 a) @ [s])\<rparr>)"
      "sm_out m' = sm_out m0 @ (if ps_described (sm_heap m0 a) then [s] else [])"
      using run_candidate [OF _ _ c] look by blast
    have "run_alone (Suc n) now s Decoded m = Some m'" using first r(1) by simp
    with r(2-) look True c show ?thesis
      by (intro exI [of _ "Suc n"] exI [of _ m'])
        (simp add: receive_signal_def try_send_def routed_def Let_def)
  qed
qed

section \<open>A candidate that gets lost\<close>

text \<open>
  An answer and a candidate of the same connection. The candidate reads the flag before the answer sets it, and
  holds itself back after the answer has evaluated the slice it flushes; the slice is then cleared.
\<close>

definition race_answer :: signal where "race_answer = example_msg SigAnswer ''a''"
definition race_candidate :: signal where "race_candidate = example_msg SigCandidate ''c''"

definition losing_schedule :: "race_event list" where
  "losing_schedule =
     [Arrives race_answer, Arrives race_candidate, Runs 0 0, Runs 1 0, Runs 0 0, Runs 1 0, Runs 1 0,
      Runs 0 0, Runs 0 0, Runs 0 0, Runs 1 0, Runs 0 0, Runs 0 0]"


section \<open>No early candidate in any interleaving\<close>

definition no_early :: "signal list \<Rightarrow> bool" where
  "no_early out \<longleftrightarrow>
     list_all (\<lambda>i. sig_type (out ! i) = SigCandidate \<longrightarrow> list_ex (description (sig_connection_id (out ! i))) (take i out))
       [0..<length out]"

definition described :: "64 word \<Rightarrow> signal list \<Rightarrow> bool" where
  "described cid out \<longleftrightarrow> list_ex (description cid) out"

lemma described_mono [simp]: "described cid out \<Longrightarrow> described cid (out @ xs)"
  by (simp add: described_def)

lemma no_early_Nil [simp]: "no_early []"
  by (simp add: no_early_def)

lemma no_early_snoc:
  "no_early (out @ [s]) \<longleftrightarrow> no_early out \<and> (\<forall>cid. candidate cid s \<longrightarrow> described cid out)"
  by (auto simp: no_early_def described_def candidate_def list_all_iff nth_append)

text \<open>
  What is known of a callback at each statement: \<open>ids a\<close> is the connection of the store at \<open>a\<close>, \<open>n\<close> the
  number of stores made so far.
\<close>

fun pc_ok :: "(nat \<Rightarrow> 64 word) \<Rightarrow> nat \<Rightarrow> signal list \<Rightarrow> signal \<Rightarrow> callback_pc \<Rightarrow> bool" where
  "pc_ok ids n out s Decoded \<longleftrightarrow> True"
| "pc_ok ids n out s (Enter a) \<longleftrightarrow> a < n \<and> ids a = sig_connection_id s \<and> routed s"
| "pc_ok ids n out s (SendDescription a) \<longleftrightarrow> a < n \<and> ids a = sig_connection_id s \<and> describes s"
| "pc_ok ids n out s (SetFlag a) \<longleftrightarrow> a < n \<and> described (ids a) out"
| "pc_ok ids n out s (RangePending a) \<longleftrightarrow> a < n \<and> described (ids a) out"
| "pc_ok ids n out s (Flush a xs) \<longleftrightarrow> a < n \<and> described (ids a) out \<and> list_all (candidate (ids a)) xs"
| "pc_ok ids n out s (ClearPending a) \<longleftrightarrow> a < n"
| "pc_ok ids n out s (TestFlag a) \<longleftrightarrow> a < n \<and> ids a = sig_connection_id s \<and> routed s \<and> \<not> describes s"
| "pc_ok ids n out s (SendNow a) \<longleftrightarrow> a < n \<and> ids a = sig_connection_id s \<and> described (ids a) out"
| "pc_ok ids n out s (HoldBack a) \<longleftrightarrow> a < n \<and> ids a = sig_connection_id s \<and> sig_type s = SigCandidate"
| "pc_ok ids n out s Finished \<longleftrightarrow> True"

definition heap_ok :: "(nat \<Rightarrow> 64 word) \<Rightarrow> store_memory \<Rightarrow> bool" where
  "heap_ok ids m \<longleftrightarrow>
     (\<forall>cid a. sm_map m cid = Some a \<longrightarrow> a < sm_next m \<and> ids a = cid) \<and>
     (\<forall>a < sm_next m. (ps_described (sm_heap m a) \<longrightarrow> described (ids a) (sm_out m)) \<and>
        list_all (candidate (ids a)) (ps_pending (sm_heap m a))) \<and>
     no_early (sm_out m)"

definition extends :: "(nat \<Rightarrow> 64 word) \<Rightarrow> store_memory \<Rightarrow> (nat \<Rightarrow> 64 word) \<Rightarrow> store_memory \<Rightarrow> bool" where
  "extends ids m ids' m' \<longleftrightarrow> sm_next m \<le> sm_next m' \<and> (\<forall>a < sm_next m. ids' a = ids a) \<and>
     (\<exists>xs. sm_out m' = sm_out m @ xs)"

lemma extends_refl [simp]: "extends ids m ids m"
  by (simp add: extends_def)

lemma pc_ok_extends:
  "pc_ok ids (sm_next m) (sm_out m) s pc \<Longrightarrow> extends ids m ids' m' \<Longrightarrow> pc_ok ids' (sm_next m') (sm_out m') s pc"
  by (cases pc) (auto simp: extends_def)

lemma extends_memory [simp]:
  "extends ids m ids (emit s m)" "extends ids m ids (change_store a f m)"
  by (simp_all add: extends_def)

lemma heap_ok_emit:
  "heap_ok ids m \<Longrightarrow> (\<And>cid. candidate cid s \<Longrightarrow> described cid (sm_out m)) \<Longrightarrow> heap_ok ids (emit s m)"
  by (auto simp: heap_ok_def no_early_snoc)

lemma heap_ok_change:
  assumes "heap_ok ids m" "a < sm_next m"
    and "ps_described (f (sm_heap m a)) \<Longrightarrow> described (ids a) (sm_out m)"
    and "list_all (candidate (ids a)) (ps_pending (f (sm_heap m a)))"
  shows "heap_ok ids (change_store a f m)"
  using assms by (auto simp: heap_ok_def)

lemma heap_ok_look_up:
  assumes "heap_ok ids m" "look_up now cid m = (a, m')"
  shows "\<exists>ids'. heap_ok ids' m' \<and> extends ids m ids' m' \<and> a < sm_next m' \<and> ids' a = cid"
proof (cases "sm_map m cid")
  case None
  then have m: "a = sm_next m" "m' = m\<lparr>sm_map := (sm_map m)(cid \<mapsto> sm_next m),
      sm_heap := (sm_heap m)(sm_next m := empty_store now), sm_next := Suc (sm_next m)\<rparr>"
    using assms(2) by (auto simp: look_up_def)
  have "heap_ok (ids(sm_next m := cid)) m'" "extends ids m (ids(sm_next m := cid)) m'"
    using assms(1) by (auto simp: m heap_ok_def extends_def empty_store_def less_Suc_eq)
  with m show ?thesis by fastforce
next
  case (Some b)
  then show ?thesis
    using assms by (intro exI [of _ ids]) (auto simp: look_up_def heap_ok_def)
qed

lemma candidate_simps:
  "candidate cid s \<longleftrightarrow> sig_connection_id s = cid \<and> sig_type s = SigCandidate"
  "describes s \<Longrightarrow> \<not> candidate cid s"
  by (auto simp: candidate_def describes_def)

lemma described_self: "describes s \<Longrightarrow> described (sig_connection_id s) (out @ [s])"
  by (simp add: described_def description_def describes_def)

lemma thread_step_ok:
  assumes "heap_ok ids m" "pc_ok ids (sm_next m) (sm_out m) s pc" "thread_step now s pc m = (pc', m')"
  shows "\<exists>ids'. heap_ok ids' m' \<and> pc_ok ids' (sm_next m') (sm_out m') s pc' \<and> extends ids m ids' m'"
proof (cases pc)
  case Decoded
  show ?thesis
  proof (cases "routed s")
    case True
    obtain a m1 where l: "look_up now (sig_connection_id s) m = (a, m1)" by (meson surj_pair)
    with assms(3) True Decoded have "pc' = Enter a" "m' = m1" by simp_all
    with heap_ok_look_up [OF assms(1) l] True show ?thesis by auto
  next
    case False
    with assms(3) Decoded have "pc' = Finished" "m' = emit s m" by simp_all
    with assms(1) False show ?thesis
      by (intro exI [of _ ids]) (auto simp: routed_def candidate_def intro: heap_ok_emit)
  qed
next
  case (Enter a)
  then have a: "a < sm_next m" "ids a = sig_connection_id s" using assms(2) by simp_all
  have "heap_ok ids (change_store a (\<lambda>p. p\<lparr>ps_last_activity := now\<rparr>) m)"
    by (rule heap_ok_change) (use assms(1) a(1) in \<open>simp_all add: heap_ok_def\<close>)
  with assms(2,3) Enter show ?thesis
    by (intro exI [of _ ids]) (auto split: if_splits)
next
  case (SendDescription a)
  with assms show ?thesis
    by (intro exI [of _ ids]) (auto simp: candidate_simps(2) described_self intro!: heap_ok_emit)
next
  case (SetFlag a)
  then have a: "a < sm_next m" "described (ids a) (sm_out m)" using assms(2) by simp_all
  have "heap_ok ids (change_store a (\<lambda>p. p\<lparr>ps_described := True\<rparr>) m)"
    by (rule heap_ok_change) (use assms(1) a in \<open>simp_all add: heap_ok_def\<close>)
  with assms(2,3) SetFlag show ?thesis
    by (intro exI [of _ ids]) auto
next
  case (RangePending a)
  with assms show ?thesis by (intro exI [of _ ids]) (auto simp: heap_ok_def)
next
  case (Flush a xs)
  with assms show ?thesis
    by (cases xs) (auto intro!: exI [of _ ids] heap_ok_emit simp: candidate_simps(1))
next
  case (ClearPending a)
  have "heap_ok ids (change_store a (\<lambda>p. p\<lparr>ps_pending := []\<rparr>) m)"
    by (rule heap_ok_change) (use assms(1,2) ClearPending in \<open>simp_all add: heap_ok_def\<close>)
  with assms(3) ClearPending show ?thesis
    by (intro exI [of _ ids]) auto
next
  case (TestFlag a)
  with assms show ?thesis
    by (intro exI [of _ ids]) (auto simp: heap_ok_def routed_def describes_def split: if_splits)
next
  case (SendNow a)
  with assms show ?thesis
    by (intro exI [of _ ids]) (auto simp: candidate_simps(1) intro!: heap_ok_emit)
next
  case (HoldBack a)
  then have a: "a < sm_next m" "candidate (ids a) s" using assms(2) by (simp_all add: candidate_simps(1))
  have "heap_ok ids (change_store a (\<lambda>p. p\<lparr>ps_pending := ps_pending p @ [s]\<rparr>) m)"
    by (rule heap_ok_change) (use assms(1) a in \<open>simp_all add: heap_ok_def\<close>)
  with assms(3) HoldBack show ?thesis
    by (intro exI [of _ ids]) auto
next
  case Finished
  with assms show ?thesis by (intro exI [of _ ids]) auto
qed

definition race_inv :: "race_state \<Rightarrow> bool" where
  "race_inv st \<longleftrightarrow>
     (\<exists>ids. heap_ok ids (fst st) \<and> list_all (\<lambda>(s, pc). pc_ok ids (sm_next (fst st)) (sm_out (fst st)) s pc) (snd st))"

lemma race_step_inv:
  assumes "race_inv st"
  shows "race_inv (race_step e st)"
proof -
  obtain m ts where st: "st = (m, ts)" by (cases st)
  obtain ids where ids: "heap_ok ids m" "list_all (\<lambda>(s, pc). pc_ok ids (sm_next m) (sm_out m) s pc) ts"
    using assms by (auto simp: race_inv_def st)
  show ?thesis
  proof (cases e)
    case (Arrives s)
    with ids show ?thesis by (auto simp: race_inv_def st)
  next
    case (TickerFires now)
    have "heap_ok ids (forget_idle now m)" "sm_next (forget_idle now m) = sm_next m" "sm_out (forget_idle now m) = sm_out m"
      using ids(1) by (auto simp: heap_ok_def forget_idle_def split: option.splits if_splits)
    with TickerFires ids(2) show ?thesis by (auto simp: race_inv_def st)
  next
    case (Runs i now)
    show ?thesis
    proof (cases "i < length ts")
      case True
      obtain s pc where t: "ts ! i = (s, pc)" by (cases "ts ! i")
      obtain pc' m' where step: "thread_step now s pc m = (pc', m')" by (meson surj_pair)
      have "pc_ok ids (sm_next m) (sm_out m) s pc" using ids(2) True t by (auto simp: list_all_length)
      from thread_step_ok [OF ids(1) this step] obtain ids' where
        n: "heap_ok ids' m'" "pc_ok ids' (sm_next m') (sm_out m') s pc'" "extends ids m ids' m'" by blast
      have "list_all (\<lambda>(s, pc). pc_ok ids' (sm_next m') (sm_out m') s pc) (ts[i := (s, pc')])"
        using ids(2) n(2) pc_ok_extends [OF _ n(3)] set_update_subset_insert [of ts i "(s, pc')"]
        by (fastforce simp: list_all_iff)
      with n(1) Runs True show ?thesis by (auto simp: race_inv_def st t step Let_def)
    next
      case False
      with Runs assms show ?thesis by (simp add: st)
    qed
  qed
qed

interpretation races: invariant_machine "\<lambda>st e. race_step e st" race_inv
  by unfold_locales (rule race_step_inv)

text \<open>
  C24: Whatever the callbacks and the ticker interleave, no candidate reaches the channel before a description of
  its connection.
\<close>

theorem no_early_candidate_in_any_order:
  "no_early (sm_out (fst (race_run es)))"
proof -
  have "race_inv (empty_memory, [])"
    by (auto simp: race_inv_def heap_ok_def empty_memory_def)
  from races.run_keeps [OF this] show ?thesis
    by (auto simp: race_run_def race_inv_def heap_ok_def)
qed

theorem lone_callback_refines_witness:
  "\<exists>n m'. run_alone n 0 race_answer Decoded empty_memory = Some m' \<and> sm_out m' = [race_answer]"
proof -
  obtain n m' where r: "run_alone n 0 race_answer Decoded empty_memory = Some m'"
    "receive_signal 0 race_answer (stores_of empty_memory) = (stores_of m', drop (length (sm_out empty_memory)) (sm_out m'))"
    using lone_callback_refines [OF memory_ok_empty, of 0 race_answer] by blast
  moreover have "snd (receive_signal 0 race_answer (stores_of empty_memory)) = [race_answer]"
    by (simp add: receive_signal_def try_send_def race_answer_def example_msg_def stores_of_def empty_memory_def
        stored_def Let_def)
  ultimately show ?thesis by (auto simp: empty_memory_def)
qed

end
