(* ===== verification/Config.thy ===== *)
theory Config
  imports Go_Strings
begin

text \<open>
  \<open>config.go\<close>: the configuration file. Decoding JSON is a parameter: \<open>unmarshal b cfg\<close> is
  \<open>json.Unmarshal(b, &cfg)\<close> on a configuration that already holds the defaults, and
  \<open>json_keys b\<close> the keys of the top-level object (empty when it is none). The notes for the
  operator are values, one constructor per message.
\<close>

section \<open>The configuration\<close>

record broadcast_config =
  bc_name :: string
  bc_token_file :: string
  bc_host_name :: string
  bc_world_name :: string
  bc_invites :: bool
  bc_invite_port :: int
  bc_no_friend_accept :: bool

record drift_config =
  cfg_min :: int
  cfg_max :: int
  cfg_max_step :: int

datatype config_note =
    ServerAddressRenamed string
  | LegacyAddressIgnored string
  | OtherTransportAddressIgnored string string
  | PortsReplaced "string list" int
  | UnusedWithoutRelay string
  | ListenAddressUnused

record file_config =
  backend_transport :: string
  server_address :: string
  geyser_address :: string
  nethernet_backend_address :: string
  cfg_notes :: "config_note list"
  host_name :: string
  world_name :: string
  max_players :: int
  fake_player_count :: int
  fake_player_drift :: "drift_config option"
  protocol :: int
  version :: string
  update_interval_seconds :: int
  allowed_xuids :: "xuid list"
  compression :: string
  compression_threshold :: int
  fix_native_bds_persistence :: bool
  disable_client_encryption :: bool
  relay_direct_ip :: bool
  relay_direct_ip_listen_address :: string
  control_port :: int
  invite_port :: int
  ping_port :: int
  pprof_port :: int
  no_friend_accept :: bool
  extra_broadcasts :: "broadcast_config list"
  broadcast_name :: string
  invites_enabled :: bool

definition default_config :: file_config where
  "default_config =
     \<lparr>backend_transport = ''raknet'', server_address = '''', geyser_address = '''',
      nethernet_backend_address = '''', cfg_notes = [], host_name = ''Nether2Rak'',
      world_name = ''Nether2Rak'', max_players = 20, fake_player_count = 0,
      fake_player_drift = None, protocol = 2168, version = ''1.26.44'',
      update_interval_seconds = 30, allowed_xuids = [], compression = ''snappy'',
      compression_threshold = 256, fix_native_bds_persistence = False,
      disable_client_encryption = False, relay_direct_ip = False,
      relay_direct_ip_listen_address = '':19132'', control_port = 0, invite_port = 0,
      ping_port = 0, pprof_port = 0, no_friend_accept = False, extra_broadcasts = [],
      broadcast_name = '''', invites_enabled = False\<rparr>"

section \<open>Resolving old and new settings\<close>

definition default_raknet_address :: string where
  "default_raknet_address = ''127.0.0.1:19132''"

definition default_nethernet_address :: string where
  "default_nethernet_address = ''127.0.0.1:19134''"

definition default_control_port :: int where
  "default_control_port = 7777"

definition primary_broadcast :: string where
  "primary_broadcast = ''primary''"

definition uses_nethernet :: "file_config \<Rightarrow> bool" where
  "uses_nethernet cfg \<longleftrightarrow>
     to_lower (trim_space (backend_transport cfg)) \<in> {''nethernet'', ''nethernet-norelay''}"

definition add_note :: "config_note \<Rightarrow> file_config \<Rightarrow> file_config" where
  "add_note n cfg = cfg\<lparr>cfg_notes := cfg_notes cfg @ [n]\<rparr>"

definition resolve_server_address :: "string set \<Rightarrow> file_config \<Rightarrow> file_config" where
  "resolve_server_address present cfg =
     (let nether = uses_nethernet cfg;
          used_key = (if nether then ''nethernet_backend_address'' else ''geyser_address'');
          unused_key = (if nether then ''geyser_address'' else ''nethernet_backend_address'');
          has_used = used_key \<in> present;
          has_unused = unused_key \<in> present;
          cfg =
            (if server_address cfg = '''' then
               (let legacy = (if nether then nethernet_backend_address cfg else geyser_address cfg)
                in if has_used \<and> legacy \<noteq> '''' then
                     add_note (ServerAddressRenamed used_key) (cfg\<lparr>server_address := legacy\<rparr>)
                   else if nether then cfg\<lparr>server_address := default_nethernet_address\<rparr>
                   else cfg\<lparr>server_address := default_raknet_address\<rparr>)
             else if has_used then add_note (LegacyAddressIgnored used_key) cfg
             else cfg);
          cfg =
            (if has_unused then
               add_note (OtherTransportAddressIgnored unused_key (backend_transport cfg)) cfg
             else cfg);
          address = trim_space (server_address cfg)
      in if nether then cfg\<lparr>nethernet_backend_address := address\<rparr>
         else cfg\<lparr>geyser_address :=
                trim_suffix (trim_prefix (trim_prefix address ''http://'') ''https://'') ''/''\<rparr>)"

definition resolve_control_port :: "string set \<Rightarrow> file_config \<Rightarrow> file_config" where
  "resolve_control_port present cfg =
     (let old = filter (\<lambda>k. k \<in> present) [''ping_port'', ''invite_port'', ''pprof_port''];
          cfg =
            (if control_port cfg > 0 then cfg
             else if ping_port cfg > 0 then cfg\<lparr>control_port := ping_port cfg\<rparr>
             else if invite_port cfg > 0 then cfg\<lparr>control_port := invite_port cfg\<rparr>
             else cfg\<lparr>control_port := default_control_port\<rparr>);
          cfg = (if old \<noteq> [] then add_note (PortsReplaced old (control_port cfg)) cfg else cfg)
      in cfg\<lparr>broadcast_name := primary_broadcast, invites_enabled := True\<rparr>)"

definition note_ignored_settings :: "string set \<Rightarrow> file_config \<Rightarrow> file_config" where
  "note_ignored_settings present cfg =
     (let cfg =
            (if equal_fold (trim_space (backend_transport cfg)) ''nethernet-norelay'' then
               foldl (\<lambda>cfg k. if k \<in> present then add_note (UnusedWithoutRelay k) cfg else cfg) cfg
                 [''compression'', ''compression_threshold'', ''fix_native_bds_persistence'',
                  ''disable_client_encryption'']
             else cfg)
      in if \<not> relay_direct_ip cfg \<and> ''relay_direct_ip_listen_address'' \<in> present
         then add_note ListenAddressUnused cfg else cfg)"

datatype config_error = ReadFailed | DecodeFailed

text \<open>The result is the configuration or an error, and what a first run writes to the file.\<close>

definition load_config ::
  "(string \<Rightarrow> file_config \<Rightarrow> file_config option) \<Rightarrow> (string \<Rightarrow> string set) \<Rightarrow>
   file_view \<Rightarrow> (config_error + file_config) \<times> file_config option" where
  "load_config unmarshal json_keys file =
     (case file of
        Missing \<Rightarrow>
          (let cfg = resolve_control_port {} (resolve_server_address {} default_config);
               cfg = cfg\<lparr>geyser_address := '''', nethernet_backend_address := ''''\<rparr>
           in (Inr (resolve_server_address {} cfg), Some cfg))
      | Unreadable \<Rightarrow> (Inl ReadFailed, None)
      | Contents b \<Rightarrow>
          (case unmarshal b default_config of
             None \<Rightarrow> (Inl DecodeFailed, None)
           | Some cfg \<Rightarrow>
               (Inr (note_ignored_settings (json_keys b)
                  (resolve_control_port (json_keys b)
                    (resolve_server_address (json_keys b) cfg))), None)))"

section \<open>What resolution gives\<close>

lemma add_note_simps [simp]:
  "server_address (add_note n cfg) = server_address cfg"
  "backend_transport (add_note n cfg) = backend_transport cfg"
  "geyser_address (add_note n cfg) = geyser_address cfg"
  "nethernet_backend_address (add_note n cfg) = nethernet_backend_address cfg"
  "control_port (add_note n cfg) = control_port cfg"
  "cfg_notes (add_note n cfg) = cfg_notes cfg @ [n]"
  "relay_direct_ip (add_note n cfg) = relay_direct_ip cfg"
  by (simp_all add: add_note_def)

text \<open>The address as each transport reads it.\<close>

definition transport_address :: "file_config \<Rightarrow> string" where
  "transport_address cfg =
     (if uses_nethernet cfg then nethernet_backend_address cfg else geyser_address cfg)"

definition chosen_address :: "string set \<Rightarrow> file_config \<Rightarrow> string" where
  "chosen_address present cfg =
     (let key = (if uses_nethernet cfg then ''nethernet_backend_address'' else ''geyser_address'')
      in if server_address cfg \<noteq> '''' then server_address cfg
         else if key \<in> present \<and> transport_address cfg \<noteq> '''' then transport_address cfg
         else if uses_nethernet cfg then default_nethernet_address else default_raknet_address)"

lemma uses_nethernet_cong:
  "backend_transport a = backend_transport b \<Longrightarrow> uses_nethernet a = uses_nethernet b"
  by (simp add: uses_nethernet_def)

lemma resolve_backend_transport [simp]:
  "backend_transport (resolve_server_address present cfg) = backend_transport cfg"
  by (simp add: resolve_server_address_def Let_def)

lemma resolve_uses_nethernet [simp]:
  "uses_nethernet (resolve_server_address present cfg) = uses_nethernet cfg"
  by (rule uses_nethernet_cong) simp

lemma resolve_server_address_chosen:
  "server_address (resolve_server_address present cfg) = chosen_address present cfg"
  by (simp add: resolve_server_address_def chosen_address_def transport_address_def Let_def)

lemma chosen_address_nonempty: "chosen_address present cfg \<noteq> ''''"
  by (simp add: chosen_address_def Let_def default_nethernet_address_def default_raknet_address_def)

lemma resolve_transport_address:
  "transport_address (resolve_server_address present cfg) =
    (let a = trim_space (chosen_address present cfg)
     in if uses_nethernet cfg then a
        else trim_suffix (trim_prefix (trim_prefix a ''http://'') ''https://'') ''/'')"
  unfolding transport_address_def resolve_uses_nethernet
  by (simp add: resolve_server_address_def chosen_address_def transport_address_def Let_def)

lemma resolve_control_port_port:
  "control_port (resolve_control_port present cfg) =
    (if control_port cfg > 0 then control_port cfg
     else if ping_port cfg > 0 then ping_port cfg
     else if invite_port cfg > 0 then invite_port cfg else default_control_port)"
  by (simp add: resolve_control_port_def Let_def)

section \<open>Properties\<close>

text \<open>
  The address a transport uses comes from \<open>server_address\<close> when it is set, else from the
  old key of that transport when the file has it and it is not empty, else from the transport's
  default; then the scheme and one trailing slash are removed for RakNet.
\<close>

theorem server_address_precedence:
  "server_address (resolve_server_address present cfg) \<noteq> '''' \<and>
   server_address (resolve_server_address present cfg) = chosen_address present cfg \<and>
   transport_address (resolve_server_address present cfg) =
     (let a = trim_space (chosen_address present cfg)
      in if uses_nethernet cfg then a
         else trim_suffix (trim_prefix (trim_prefix a ''http://'') ''https://'') ''/'')"
  using chosen_address_nonempty [of present cfg] resolve_transport_address [of present cfg]
  by (simp add: resolve_server_address_chosen)

lemma note_ignored_settings_keeps:
  "control_port (note_ignored_settings present cfg) = control_port cfg"
  "server_address (note_ignored_settings present cfg) = server_address cfg"
  "broadcast_name (note_ignored_settings present cfg) = broadcast_name cfg"
  "invites_enabled (note_ignored_settings present cfg) = invites_enabled cfg"
  by (simp_all add: note_ignored_settings_def Let_def add_note_def)

lemma resolve_control_port_fields:
  "server_address (resolve_control_port present cfg) = server_address cfg"
  "broadcast_name (resolve_control_port present cfg) = primary_broadcast"
  "invites_enabled (resolve_control_port present cfg)"
  by (simp_all add: resolve_control_port_def Let_def)

lemma resolve_server_address_ports:
  "control_port (resolve_server_address present cfg) = control_port cfg"
  "ping_port (resolve_server_address present cfg) = ping_port cfg"
  "invite_port (resolve_server_address present cfg) = invite_port cfg"
  "broadcast_name (resolve_server_address present cfg) = broadcast_name cfg"
  "invites_enabled (resolve_server_address present cfg) = invites_enabled cfg"
  by (simp_all add: resolve_server_address_def Let_def add_note_def)

lemmas resolution_fields = note_ignored_settings_keeps resolve_control_port_fields
  resolve_server_address_ports resolve_control_port_port resolve_server_address_chosen



end
