(* ===== verification/Broadcasts.thy ===== *)
theory Broadcasts
  imports Config
begin

text \<open>
  \<open>broadcasts.go\<close>: which extra broadcasts a configuration starts (\<open>resolveBroadcasts\<close>),
  the per-process table of accounts (\<open>claimXUID\<close>), the start of a broadcast and the loop that
  restarts its session (\<open>runBroadcast\<close>), and \<open>nextTokenFile\<close>.
\<close>

section \<open>Which broadcasts run\<close>

datatype problem =
    NameUsed nat string
  | TokenFileEmpty string
  | TokenFileUsed string string string
  | InvitePortReplaced string

definition token_cache_file :: string where
  "token_cache_file = ''token.json''"

definition name_entry :: "nat \<Rightarrow> broadcast_config \<Rightarrow> broadcast_config" where
  "name_entry i b =
     (if trim_space (bc_name b) = '''' then b\<lparr>bc_name := ''extra-'' @ show_nat (Suc i)\<rparr> else b)"

definition fill_entry :: "file_config \<Rightarrow> broadcast_config \<Rightarrow> broadcast_config" where
  "fill_entry cfg b =
     (let b = (if bc_invite_port b > 0 then b\<lparr>bc_invites := True, bc_invite_port := 0\<rparr> else b);
          b = (if bc_host_name b = '''' then b\<lparr>bc_host_name := host_name cfg\<rparr> else b)
      in if bc_world_name b = '''' then b\<lparr>bc_world_name := world_name cfg\<rparr> else b)"

fun resolve_loop ::
  "file_config \<Rightarrow> nat \<Rightarrow> (string \<rightharpoonup> string) \<Rightarrow> string set \<Rightarrow> broadcast_config list \<Rightarrow>
   broadcast_config list \<times> problem list" where
  "resolve_loop cfg i seen_file seen_name [] = ([], [])"
| "resolve_loop cfg i seen_file seen_name (entry # bs) =
     (let b = name_entry i entry
      in if bc_name b \<in> seen_name then
           apsnd (Cons (NameUsed (Suc i) (bc_name b)))
             (resolve_loop cfg (Suc i) seen_file seen_name bs)
         else if trim_space (bc_token_file b) = '''' then
           apsnd (Cons (TokenFileEmpty (bc_name b)))
             (resolve_loop cfg (Suc i) seen_file seen_name bs)
         else (case seen_file (bc_token_file b) of
             Some other \<Rightarrow>
               apsnd (Cons (TokenFileUsed (bc_name b) (bc_token_file b) other))
                 (resolve_loop cfg (Suc i) seen_file seen_name bs)
           | None \<Rightarrow>
               (let (out, ps) = resolve_loop cfg (Suc i) (seen_file(bc_token_file b \<mapsto> bc_name b))
                                  (insert (bc_name b) seen_name) bs
                in (fill_entry cfg b # out,
                    (if bc_invite_port b > 0 then [InvitePortReplaced (bc_name b)] else []) @ ps))))"

definition resolve_broadcasts :: "file_config \<Rightarrow> broadcast_config list \<times> problem list" where
  "resolve_broadcasts cfg =
     resolve_loop cfg 0 [token_cache_file \<mapsto> ''primary''] {primary_broadcast} (extra_broadcasts cfg)"

definition for_broadcast :: "broadcast_config \<Rightarrow> file_config \<Rightarrow> file_config" where
  "for_broadcast b cfg =
     cfg\<lparr>host_name := bc_host_name b, world_name := bc_world_name b,
         broadcast_name := bc_name b, invites_enabled := bc_invites b,
         no_friend_accept := bc_no_friend_accept b, extra_broadcasts := []\<rparr>"

lemma fill_entry_keeps [simp]:
  "bc_name (fill_entry cfg b) = bc_name b" "bc_token_file (fill_entry cfg b) = bc_token_file b"
  by (simp_all add: fill_entry_def Let_def)

lemma resolve_loop_fresh:
  "b \<in> set (fst (resolve_loop cfg i seen_file seen_name bs)) \<Longrightarrow>
   bc_name b \<notin> seen_name \<and> seen_file (bc_token_file b) = None \<and>
   trim_space (bc_token_file b) \<noteq> ''''"
proof (induction cfg i seen_file seen_name bs rule: resolve_loop.induct)
  case (1 cfg i seen_file seen_name)
  then show ?case by simp
next
  case (2 cfg i seen_file seen_name entry bs)
  note IH = "2.IH" [OF refl]
  show ?case
    using "2.prems" IH
    by (auto simp: Let_def case_prod_beta map_upd_None simp del: fun_upd_apply
        split: if_splits option.splits)
qed

lemma resolve_loop_distinct:
  "distinct (map bc_name (fst (resolve_loop cfg i seen_file seen_name bs))) \<and>
   distinct (map bc_token_file (fst (resolve_loop cfg i seen_file seen_name bs)))"
proof (induction cfg i seen_file seen_name bs rule: resolve_loop.induct)
  case (1 cfg i seen_file seen_name)
  then show ?case by simp
next
  case (2 cfg i seen_file seen_name entry bs)
  note IH = "2.IH" [OF refl]
  have fresh: "n \<notin> bc_name ` set (fst (resolve_loop cfg (Suc i) (f(t \<mapsto> v)) (insert n s) bs))"
    "t \<notin> bc_token_file ` set (fst (resolve_loop cfg (Suc i) (f(t \<mapsto> v)) (insert n s) bs))"
    for n t v and f :: "string \<rightharpoonup> string" and s
    by (auto dest: resolve_loop_fresh)
  show ?case
    using IH fresh by (simp add: Let_def case_prod_beta del: fun_upd_apply split: option.split)
qed

text \<open>No entry of the configuration disappears silently: it is started or it is reported.\<close>

definition is_skip :: "problem \<Rightarrow> bool" where
  "is_skip p \<longleftrightarrow> (case p of InvitePortReplaced _ \<Rightarrow> False | _ \<Rightarrow> True)"

lemma resolve_loop_accounted:
  "length (fst (resolve_loop cfg i seen_file seen_name bs)) +
   length (filter is_skip (snd (resolve_loop cfg i seen_file seen_name bs))) = length bs"
proof (induction cfg i seen_file seen_name bs rule: resolve_loop.induct)
  case (1 cfg i seen_file seen_name)
  then show ?case by simp
next
  case (2 cfg i seen_file seen_name entry bs)
  note IH = "2.IH" [OF refl]
  show ?case
    using IH by (simp add: Let_def case_prod_beta is_skip_def del: fun_upd_apply split: option.split)
qed

section \<open>One account, one broadcast\<close>

definition claim_xuid ::
  "xuid \<Rightarrow> string \<Rightarrow> (xuid \<rightharpoonup> string) \<Rightarrow> (xuid \<rightharpoonup> string) \<times> string \<times> bool" where
  "claim_xuid x name owners =
     (case owners x of
        Some holder \<Rightarrow> (owners, holder, False)
      | None \<Rightarrow> (owners(x \<mapsto> name), name, True))"

datatype start_error = NoIdentity | AccountTaken string | NoConnectionID

text \<open>
  The part of \<open>runBroadcast\<close> before its loop. \<open>token\<close> is the answer of
  \<open>RequestXBLToken\<close>, \<open>conn_ready\<close> whether the first RTA connection id arrived. The result
  says whether the friend manager runs.
\<close>

definition start_broadcast ::
  "string \<Rightarrow> file_config \<Rightarrow> xuid option \<Rightarrow> bool \<Rightarrow> (xuid \<rightharpoonup> string) \<Rightarrow>
   (xuid \<rightharpoonup> string) \<times> (start_error + bool)" where
  "start_broadcast name cfg token conn_ready owners =
     (case token of
        None \<Rightarrow> (owners, Inl NoIdentity)
      | Some x \<Rightarrow>
          (let (owners, owner, ok) = claim_xuid x name owners
           in if \<not> ok then (owners, Inl (AccountTaken owner))
              else if \<not> conn_ready then (owners, Inl NoConnectionID)
              else (owners, Inr (\<not> no_friend_accept cfg))))"

section \<open>The restart loop\<close>

datatype session_error = TokenRenewal | OtherError

text \<open>
  What one \<open>runSession\<close> call brings back: the ids to keep, its error, whether the context was
  already done when it returned, and whether it is done before the back-off pause ends.
\<close>

record session_result =
  res_session_id :: string
  res_nethernet_id :: nat
  res_error :: "session_error option"
  res_done :: bool
  res_done_in_wait :: bool

record loop_state =
  lp_backoff :: duration
  lp_failures :: nat
  lp_session_id :: string
  lp_nethernet_id :: nat

datatype loop_action = ForceRefreshToken | Pause duration | Exit

definition max_backoff :: duration where "max_backoff = 30 * second"
definition force_refresh_after :: nat where "force_refresh_after = 3"

definition loop_init :: loop_state where
  "loop_init = \<lparr>lp_backoff = second, lp_failures = 0, lp_session_id = '''', lp_nethernet_id = 0\<rparr>"

definition loop_body :: "loop_state \<Rightarrow> session_result \<Rightarrow> loop_state \<times> loop_action list" where
  "loop_body st r =
     (let st = st\<lparr>lp_session_id := res_session_id r, lp_nethernet_id := res_nethernet_id r\<rparr>
      in if res_done r then (st, [Exit])
         else if res_error r = Some TokenRenewal then
           (st\<lparr>lp_backoff := second, lp_failures := 0\<rparr>, [ForceRefreshToken])
         else
           (let st = st\<lparr>lp_failures := Suc (lp_failures st)\<rparr>;
                refresh = (if lp_failures st \<ge> force_refresh_after then [ForceRefreshToken] else [])
            in if res_done_in_wait r then (st, refresh @ [Exit])
               else (st\<lparr>lp_backoff :=
                          (if lp_backoff st < max_backoff
                           then (if 2 * lp_backoff st > max_backoff then max_backoff
                                 else 2 * lp_backoff st)
                           else lp_backoff st)\<rparr>,
                     refresh @ [Pause (lp_backoff st)])))"

text \<open>The loop runs until an iteration returns; its actions in order.\<close>

fun loop_run :: "loop_state \<Rightarrow> session_result list \<Rightarrow> loop_state \<times> loop_action list" where
  "loop_run st [] = (st, [])"
| "loop_run st (r # rs) =
     (let (st', as) = loop_body st r
      in if Exit \<in> set as then (st', as)
         else (let (st'', bs) = loop_run st' rs in (st'', as @ bs)))"

definition loop_inv :: "loop_state \<Rightarrow> bool" where
  "loop_inv st \<longleftrightarrow> second \<le> lp_backoff st \<and> lp_backoff st \<le> max_backoff"

lemma loop_body_inv: "loop_inv st \<Longrightarrow> loop_inv (fst (loop_body st r))"
  by (auto simp: loop_body_def loop_inv_def Let_def max_backoff_def second_def)

interpretation restart_loop: invariant_machine "\<lambda>st r. fst (loop_body st r)" loop_inv
  by unfold_locales (rule loop_body_inv)

lemma loop_body_pause:
  "loop_inv st \<Longrightarrow> Pause d \<in> set (snd (loop_body st r)) \<Longrightarrow> second \<le> d \<and> d \<le> max_backoff"
  by (auto simp: loop_body_def loop_inv_def Let_def split: if_splits)

lemma loop_run_pauses:
  "loop_inv st \<Longrightarrow> Pause d \<in> set (snd (loop_run st rs)) \<Longrightarrow> second \<le> d \<and> d \<le> max_backoff"
proof (induction st rs rule: loop_run.induct)
  case (1 st)
  then show ?case by simp
next
  case (2 st r rs)
  show ?case
    using "2.prems" loop_body_pause [of st d r] "2.IH" [OF refl] loop_body_inv [OF "2.prems"(1), of r]
    by (cases "loop_body st r") (auto simp: Let_def split: if_splits prod.splits)
qed

text \<open>Failures in a row that neither end the context nor are renewals.\<close>

definition plain_failure :: "session_result \<Rightarrow> bool" where
  "plain_failure r \<longleftrightarrow> \<not> res_done r \<and> \<not> res_done_in_wait r \<and> res_error r \<noteq> Some TokenRenewal"

lemma loop_body_failure:
  "plain_failure r \<Longrightarrow>
   lp_failures (fst (loop_body st r)) = Suc (lp_failures st) \<and>
   snd (loop_body st r) =
     (if Suc (lp_failures st) \<ge> 3 then [ForceRefreshToken] else []) @ [Pause (lp_backoff st)] \<and>
   lp_backoff (fst (loop_body st r)) =
     (if lp_backoff st < max_backoff then min (2 * lp_backoff st) max_backoff else lp_backoff st)"
  by (simp add: plain_failure_def loop_body_def Let_def force_refresh_after_def min_def)

lemma failures_backoff:
  assumes "list_all plain_failure rs"
  shows "lp_failures (foldl (\<lambda>st r. fst (loop_body st r)) loop_init rs) = length rs"
    and "lp_backoff (foldl (\<lambda>st r. fst (loop_body st r)) loop_init rs) =
      min (2 ^ length rs * second) max_backoff"
proof -
  have "lp_failures (foldl (\<lambda>st r. fst (loop_body st r)) loop_init rs) = length rs \<and>
    lp_backoff (foldl (\<lambda>st r. fst (loop_body st r)) loop_init rs) = min (2 ^ length rs * second) max_backoff"
    using assms
  proof (induction rs rule: rev_induct)
    case Nil
    then show ?case by (simp add: loop_init_def max_backoff_def second_def)
  next
    case (snoc r rs)
    have "plain_failure r" using snoc.prems by simp
    with loop_body_failure [OF this] snoc show ?case
      by (auto simp: min_def second_def max_backoff_def)
  qed
  then show "lp_failures (foldl (\<lambda>st r. fst (loop_body st r)) loop_init rs) = length rs"
    and "lp_backoff (foldl (\<lambda>st r. fst (loop_body st r)) loop_init rs) =
      min (2 ^ length rs * second) max_backoff"
    by simp_all
qed

section \<open>The next free token file\<close>

text \<open>
  The loop of \<open>nextTokenFile\<close> has no bound of its own; a directory is finite, so one try more
  than it has entries is enough fuel.
\<close>

definition token_name :: "nat \<Rightarrow> string" where
  "token_name n = ''token'' @ show_nat n @ ''.json''"

fun next_token_loop :: "nat \<Rightarrow> string list \<Rightarrow> nat \<Rightarrow> string option" where
  "next_token_loop 0 dir n = None"
| "next_token_loop (Suc fuel) dir n =
     (if token_name n \<notin> set dir then Some (token_name n) else next_token_loop fuel dir (Suc n))"

definition next_token_file :: "string list \<Rightarrow> string option" where
  "next_token_file dir = next_token_loop (Suc (length dir)) dir 2"

lemma show_nat_inj: "show_nat m = show_nat n \<Longrightarrow> m = n"
  by (metis digits_val_show_nat)

lemma token_name_inj: "token_name m = token_name n \<longleftrightarrow> m = n"
  by (auto simp: token_name_def dest: show_nat_inj)

lemma next_token_loop_Some:
  "next_token_loop fuel dir n = Some f \<Longrightarrow>
   \<exists>k. f = token_name (n + k) \<and> f \<notin> set dir \<and> (\<forall>j < k. token_name (n + j) \<in> set dir)"
proof (induction fuel dir n rule: next_token_loop.induct)
  case (1 dir n)
  then show ?case by simp
next
  case (2 fuel dir n)
  show ?case
  proof (cases "token_name n \<in> set dir")
    case False
    with "2.prems" show ?thesis by (auto intro: exI [of _ 0])
  next
    case True
    with 2 obtain k where k: "f = token_name (Suc n + k)" "f \<notin> set dir"
      "\<forall>j < k. token_name (Suc n + j) \<in> set dir" by auto
    have "token_name (n + j) \<in> set dir" if "j < Suc k" for j
      using k(3) True that by (cases j) auto
    with k show ?thesis by (intro exI [of _ "Suc k"]) auto
  qed
qed

lemma next_token_loop_enough:
  "card (set dir \<inter> {token_name k |k. n \<le> k}) < fuel \<Longrightarrow> \<exists>f. next_token_loop fuel dir n = Some f"
proof (induction fuel dir n rule: next_token_loop.induct)
  case (1 dir n)
  then show ?case by simp
next
  case (2 fuel dir n)
  show ?case
  proof (cases "token_name n \<in> set dir")
    case False
    then show ?thesis by simp
  next
    case True
    have "set dir \<inter> {token_name k |k. n \<le> k} =
        insert (token_name n) (set dir \<inter> {token_name k |k. Suc n \<le> k})"
      using True by (auto simp: Suc_le_eq) (metis le_neq_implies_less)
    moreover have "token_name n \<notin> set dir \<inter> {token_name k |k. Suc n \<le> k}"
      by (auto simp: token_name_inj)
    ultimately have "card (set dir \<inter> {token_name k |k. Suc n \<le> k}) < fuel"
      using "2.prems" by simp
    with 2 True show ?thesis by simp
  qed
qed

lemma next_token_file_total: "\<exists>f. next_token_file dir = Some f"
proof -
  have "card (set dir \<inter> {token_name k |k. 2 \<le> k}) \<le> card (set dir)"
    by (intro card_mono) auto
  then have "card (set dir \<inter> {token_name k |k. 2 \<le> k}) < Suc (length dir)"
    using card_length [of dir] by simp
  then show ?thesis unfolding next_token_file_def by (rule next_token_loop_enough)
qed

section \<open>Properties\<close>

text \<open>
  The extra broadcasts that run have pairwise distinct names, none of them the primary's,
  and pairwise distinct token files, none of them empty or the primary's; every other entry of
  the configuration is reported.
\<close>

theorem broadcasts_distinct:
  defines "r cfg \<equiv> resolve_broadcasts cfg"
  shows "distinct (primary_broadcast # map bc_name (fst (r cfg))) \<and>
    distinct (token_cache_file # map bc_token_file (fst (r cfg))) \<and>
    '''' \<notin> trim_space ` bc_token_file ` set (fst (r cfg)) \<and>
    length (fst (r cfg)) + length (filter is_skip (snd (r cfg))) = length (extra_broadcasts cfg)"
proof -
  have fresh: "bc_name b \<noteq> primary_broadcast \<and> bc_token_file b \<noteq> token_cache_file \<and>
      trim_space (bc_token_file b) \<noteq> ''''" if "b \<in> set (fst (r cfg))" for b
    using resolve_loop_fresh [OF that [unfolded r_def resolve_broadcasts_def]] by (auto split: if_splits)
  then show ?thesis
    using resolve_loop_distinct [of cfg 0 "[token_cache_file \<mapsto> ''primary'']" "{primary_broadcast}" "extra_broadcasts cfg"]
      resolve_loop_accounted [of cfg 0 "[token_cache_file \<mapsto> ''primary'']" "{primary_broadcast}" "extra_broadcasts cfg"]
    by (force simp: r_def resolve_broadcasts_def)
qed

text \<open>The claims of the broadcasts of one process, in the order in which they get the lock.\<close>

fun claim_run :: "(xuid \<times> string) list \<Rightarrow> (xuid \<rightharpoonup> string) \<Rightarrow> (string \<times> bool) list" where
  "claim_run [] owners = []"
| "claim_run ((x, name) # cs) owners =
     (let (owners, holder, ok) = claim_xuid x name owners in (holder, ok) # claim_run cs owners)"

lemma claim_xuid_owner:
  "fst (claim_xuid x name owners) y =
    (if y = x \<and> owners x = None then Some name else owners y)"
  by (simp add: claim_xuid_def split: option.split)



lemma claim_run_spec:
  "i < length cs \<Longrightarrow> claim_run cs owners ! i =
    (let x = fst (cs ! i)
     in case owners x of
          Some h \<Rightarrow> (h, False)
        | None \<Rightarrow> (the (map_of cs x), \<forall>j < i. fst (cs ! j) \<noteq> x))"
proof (induction cs arbitrary: owners i)
  case Nil
  then show ?case by simp
next
  case (Cons c cs)
  obtain x name where [simp]: "c = (x, name)" by (cases c)
  show ?case
  proof (cases i)
    case 0
    then show ?thesis by (simp add: claim_xuid_def Let_def split: option.split)
  next
    case (Suc k)
    let ?o = "fst (claim_xuid x name owners)"
    have "claim_run cs ?o ! k = (let x = fst (cs ! k)
     in case ?o x of Some h \<Rightarrow> (h, False)
        | None \<Rightarrow> (the (map_of cs x), \<forall>j < k. fst (cs ! j) \<noteq> x))"
      using Cons.IH [of k ?o] Cons.prems Suc by simp
    then show ?thesis
      using Suc by (auto simp: case_prod_beta Let_def claim_xuid_owner less_Suc_eq_0_disj
          split: option.split)
  qed
qed

text \<open>
  Of all the broadcasts of a process that sign in as the same account, exactly the first
  gets it; each of the others is told the name of the first.
\<close>

theorem account_claimed_once:
  assumes "i < length cs"
  shows "claim_run cs Map.empty ! i =
    (the (map_of cs (fst (cs ! i))), fst (cs ! i) \<notin> fst ` set (take i cs))"
proof -
  have "set (take i cs) = (!) cs ` {0..<i}" using assms by (simp add: nth_image)
  then have "fst ` set (take i cs) = (\<lambda>j. fst (cs ! j)) ` {0..<i}" by (simp add: image_image)
  then have "(\<forall>j < i. fst (cs ! j) \<noteq> fst (cs ! i)) = (fst (cs ! i) \<notin> fst ` set (take i cs))"
    by (simp add: image_iff Ball_def eq_commute [of "fst (cs ! i)"])
  with claim_run_spec [OF assms, of Map.empty] show ?thesis by (simp add: Let_def)
qed

theorem account_claimed_once_witness:
  "claim_run [(''5'', ''primary''), (''6'', ''b''), (''5'', ''c'')] Map.empty ! 2 = (''primary'', False)"
  using account_claimed_once [of 2 "[(''5'', ''primary''), (''6'', ''b''), (''5'', ''c'')]"] by simp

text \<open>
  After \<open>n\<close> failures in a row the next failure waits \<open>2^n\<close> seconds, thirty at most, and
  signs in anew first from the third failure on.
\<close>

theorem backoff_doubles:
  assumes "list_all plain_failure rs" "plain_failure r"
  shows "snd (loop_body (foldl (\<lambda>st r. fst (loop_body st r)) loop_init rs) r) =
    (if length rs \<ge> 2 then [ForceRefreshToken] else []) @ [Pause (min (2 ^ length rs * second) (30 * second))]"
  using loop_body_failure [OF assms(2)] failures_backoff [OF assms(1)]
  by (simp add: max_backoff_def)

definition example_failure :: session_result where
  "example_failure = \<lparr>res_session_id = ''s'', res_nethernet_id = 7, res_error = Some OtherError,
     res_done = False, res_done_in_wait = False\<rparr>"

theorem backoff_doubles_witness:
  "snd (loop_body (foldl (\<lambda>st r. fst (loop_body st r)) loop_init [example_failure, example_failure]) example_failure) =
   [ForceRefreshToken, Pause (4 * second)]"
proof -
  have "list_all plain_failure [example_failure, example_failure]" "plain_failure example_failure"
    by (simp_all add: plain_failure_def example_failure_def)
  from backoff_doubles [OF this] show ?thesis by (simp add: second_def)
qed

text \<open>
  Every pause between two sessions of a broadcast is between one second and thirty, for any
  history of the sessions.
\<close>

theorem pauses_bounded:
  assumes "Pause d \<in> set (snd (loop_run loop_init rs))"
  shows "second \<le> d \<and> d \<le> 30 * second"
  using loop_run_pauses [OF _ assms] by (simp add: loop_inv_def loop_init_def max_backoff_def second_def)

theorem pauses_bounded_witness:
  "second \<le> 2 * second \<and> 2 * second \<le> 30 * second \<and>
   Pause (2 * second) \<in> set (snd (loop_run loop_init [example_failure, example_failure]))"
proof -
  have "Pause (2 * second) \<in> set (snd (loop_run loop_init [example_failure, example_failure]))"
    by (simp add: loop_body_def loop_init_def example_failure_def Let_def max_backoff_def second_def
        force_refresh_after_def)
  with pauses_bounded [OF this] show ?thesis by simp
qed

text \<open>
  \<open>nextTokenFile\<close> always finds a file: the first of \<open>token2.json\<close>, \<open>token3.json\<close> and so
  on that is not in the directory.
\<close>

theorem next_token_file_least:
  "\<exists>k. next_token_file dir = Some (token_name (2 + k)) \<and> token_name (2 + k) \<notin> set dir \<and>
    set (map (\<lambda>j. token_name (2 + j)) [0..<k]) \<subseteq> set dir"
proof -
  obtain f where f: "next_token_file dir = Some f" using next_token_file_total by blast
  from next_token_loop_Some [OF f [unfolded next_token_file_def]] f
  show ?thesis by (auto simp: image_subset_iff)
qed

end
