(* ===== verification/Player_Drift.thy ===== *)
theory Player_Drift
  imports Config
begin

text \<open>
  \<open>drift.go\<close>: the advertised player count, either a random walk inside a configured range
  (\<open>playerCountDrift\<close>), a fixed number, or the backend's real count. The clock and the
  random source are arguments: \<open>now\<close> is the reading of the call, \<open>moves\<close> lists what
  \<open>randMove\<close> returns, one element per draw.
\<close>

section \<open>State\<close>

record player_drift =
  d_min :: int
  d_max :: int
  d_max_step :: int
  d_interval :: duration
  d_value :: int
  d_last :: instant

section \<open>Operations\<close>

definition new_player_count_drift ::
  "file_config \<Rightarrow> instant \<Rightarrow> player_drift option" where
  "new_player_count_drift cfg now =
     (case fake_player_drift cfg of
        None \<Rightarrow> None
      | Some d \<Rightarrow>
          (if cfg_max d \<le> 0 then None
           else (let lo = (if cfg_min d < 1 then 1 else cfg_min d);
                     hi = (if max_players cfg > 1 \<and> cfg_max d > max_players cfg - 1
                           then max_players cfg - 1 else cfg_max d);
                     lo = (if lo > hi then hi else lo);
                     step = (if cfg_max_step d < 1 then 1 else cfg_max_step d);
                     interval = wrap64 (update_interval_seconds cfg * second);
                     interval = (if interval \<le> 0 then 30 * second else interval);
                     start = (if fake_player_count cfg > 0 then min (max (fake_player_count cfg) lo) hi
                              else go_div (wrap64 (lo + hi)) 2)
                 in Some \<lparr>d_min = lo, d_max = hi, d_max_step = step, d_interval = interval,
                          d_value = start, d_last = now\<rparr>)))"

fun drift_moves :: "player_drift \<Rightarrow> int list \<Rightarrow> player_drift" where
  "drift_moves d [] = d"
| "drift_moves d (m # ms) =
     drift_moves (d\<lparr>d_value := min (max (wrap64 (d_value d + m)) (d_min d)) (d_max d)\<rparr>) ms"

definition drift_current :: "instant \<Rightarrow> (nat \<Rightarrow> int) \<Rightarrow> player_drift \<Rightarrow> player_drift \<times> int" where
  "drift_current now rand_move d =
     (let elapsed = time_sub now (d_last d);
          moves = go_div elapsed (d_interval d)
      in if moves \<le> 0 then (d, d_value d)
         else (let d = d\<lparr>d_last := d_last d + wrap64 (moves * d_interval d)\<rparr>;
                   d = drift_moves d (map rand_move [0..<nat (min moves 8)])
               in (d, d_value d)))"

text \<open>
  \<open>realPlayers\<close>, set to \<open>-1\<close> until the backend has answered, and the count shown on the
  Friends tab. \<open>backend\<close> is the reply of \<open>bridge.BackendPlayers\<close>, \<open>None\<close> an error.
\<close>

definition real_players_init :: int where "real_players_init = - 1"

definition advertised_players ::
  "instant \<Rightarrow> (nat \<Rightarrow> int) \<Rightarrow> file_config \<Rightarrow> int \<Rightarrow> player_drift option \<Rightarrow> player_drift option \<times> int" where
  "advertised_players now rand_move cfg real drift =
     (case drift of
        Some d \<Rightarrow> (let (d', v) = drift_current now rand_move d in (Some d', v))
      | None \<Rightarrow> (None, if fake_player_count cfg > 0 then fake_player_count cfg else max real 1))"

definition advertises_real_players :: "file_config \<Rightarrow> player_drift option \<Rightarrow> bool" where
  "advertises_real_players cfg drift \<longleftrightarrow> drift = None \<and> fake_player_count cfg \<le> 0"

datatype refresh_result = RefreshError | Changed bool

definition refresh_real_players :: "int option \<Rightarrow> int \<Rightarrow> refresh_result \<times> int" where
  "refresh_real_players backend real =
     (case backend of
        None \<Rightarrow> (RefreshError, real)
      | Some n \<Rightarrow> (Changed (real \<noteq> n), n))"

section \<open>Invariant\<close>

definition drift_inv :: "player_drift \<Rightarrow> bool" where
  "drift_inv d \<longleftrightarrow>
     1 \<le> d_min d \<and> d_min d \<le> d_max d \<and> in_int64 (d_max d) \<and>
     d_min d \<le> d_value d \<and> d_value d \<le> d_max d \<and>
     0 < d_interval d \<and> 1 \<le> d_max_step d"

lemma in_int64_between: "1 \<le> a \<Longrightarrow> a \<le> b \<Longrightarrow> in_int64 b \<Longrightarrow> in_int64 a"
  by (simp add: in_int64_def min_int64_def)

lemma drift_moves_fields:
  "d_min (drift_moves d ms) = d_min d" "d_max (drift_moves d ms) = d_max d"
  "d_max_step (drift_moves d ms) = d_max_step d" "d_interval (drift_moves d ms) = d_interval d"
  "d_last (drift_moves d ms) = d_last d"
  by (induction ms arbitrary: d) simp_all

lemma drift_moves_inv: "drift_inv d \<Longrightarrow> drift_inv (drift_moves d ms)"
  by (induction ms arbitrary: d) (auto simp: drift_inv_def)

lemma drift_current_inv: "drift_inv d \<Longrightarrow> drift_inv (fst (drift_current now rnd d))"
proof -
  assume i: "drift_inv d"
  have "drift_inv (d\<lparr>d_last := t\<rparr>)" for t
    using i by (simp add: drift_inv_def)
  then show ?thesis
    using i by (auto simp: drift_current_def Let_def intro: drift_moves_inv)
qed

lemma drift_current_value: "snd (drift_current now rnd d) = d_value (fst (drift_current now rnd d))"
  by (simp add: drift_current_def Let_def)

interpretation drift_run: invariant_machine "\<lambda>d (now, rnd). fst (drift_current now rnd d)" drift_inv
  by unfold_locales (auto simp: drift_current_inv)

text \<open>Each draw moves the value by at most its own size, so eight draws by at most eight steps.\<close>

lemma clamp_move:
  assumes "lo \<le> v" "v \<le> hi" "in_int64 (v + m)"
  shows "\<bar>min (max (wrap64 (v + m)) lo) hi - v\<bar> \<le> \<bar>m\<bar>"
  using assms by (auto simp: min_def max_def)

lemma drift_moves_distance:
  assumes "drift_inv d" "list_all (\<lambda>m. \<bar>m\<bar> \<le> d_max_step d) ms"
    and "d_max d + d_max_step d \<le> max_int64"
  shows "\<bar>d_value (drift_moves d ms) - d_value d\<bar> \<le> int (length ms) * d_max_step d"
  using assms
proof (induction ms arbitrary: d)
  case Nil
  then show ?case by simp
next
  case (Cons m ms)
  let ?d = "d\<lparr>d_value := min (max (wrap64 (d_value d + m)) (d_min d)) (d_max d)\<rparr>"
  have m: "\<bar>m\<bar> \<le> d_max_step d" using Cons.prems(2) by simp
  have "in_int64 (d_value d + m)"
    using Cons.prems(1,3) m by (auto simp: drift_inv_def in_int64_def min_int64_def max_int64_def abs_le_iff)
  then have one: "\<bar>d_value ?d - d_value d\<bar> \<le> d_max_step d"
    using clamp_move [of "d_min d" "d_value d" "d_max d" m] Cons.prems(1) m
    by (auto simp: drift_inv_def)
  have "drift_inv ?d" using drift_moves_inv [OF Cons.prems(1), of "[m]"] by simp
  then have rest: "\<bar>d_value (drift_moves d (m # ms)) - d_value ?d\<bar> \<le> int (length ms) * d_max_step d"
    using Cons.IH [of ?d] Cons.prems by simp
  have "\<bar>a - c\<bar> \<le> l * t" if "\<bar>a - b\<bar> \<le> k * t" "\<bar>b - c\<bar> \<le> t" "l = k + 1" for a b c k l t :: int
    using that by (auto simp: algebra_simps abs_le_iff)
  from this [OF rest one, of "int (length (m # ms))"] show ?case by simp
qed

text \<open>The time of the last move never passes the clock, and stays less than an interval behind.\<close>

lemma drift_current_last:
  assumes "drift_inv d" "d_last d \<le> now" "in_int64 (now - d_last d)"
  shows "d_last (fst (drift_current now rnd d)) \<le> now"
    and "now < d_last (fst (drift_current now rnd d)) + d_interval d"
proof -
  let ?e = "now - d_last d" and ?i = "d_interval d"
  have pos: "0 < ?i" using assms(1) by (simp add: drift_inv_def)
  have sub: "time_sub now (d_last d) = ?e" using assms(3) by (simp add: time_sub_def)
  have q: "go_div ?e ?i = ?e div ?i" using assms(2) pos by (simp add: go_div_pos)
  have qpos: "0 \<le> ?e div ?i" using assms(2) pos by (simp add: pos_imp_zdiv_nonneg_iff)
  have le: "?e div ?i * ?i \<le> ?e" using pos_mod_sign [OF pos, of ?e] div_mult_mod_eq [of ?e ?i] by linarith
  have "0 \<le> ?e div ?i * ?i" using qpos pos by simp
  with le assms(3) have w: "wrap64 (?e div ?i * ?i) = ?e div ?i * ?i"
    by (intro wrap64_id) (simp add: in_int64_def min_int64_def)
  have lt: "?e < ?e div ?i * ?i + ?i"
    using pos by (metis add.commute add_strict_left_mono div_mult_mod_eq pos_mod_bound)
  have eq: "d_last (fst (drift_current now rnd d)) = d_last d + ?e div ?i * ?i"
  proof (cases "?e div ?i \<le> 0")
    case True
    with qpos have "?e div ?i = 0" by simp
    then show ?thesis by (simp add: drift_current_def Let_def sub q)
  next
    case False
    then show ?thesis by (simp add: drift_current_def Let_def sub q drift_moves_fields w)
  qed
  show "d_last (fst (drift_current now rnd d)) \<le> now" using eq le by simp
  show "now < d_last (fst (drift_current now rnd d)) + ?i" using eq lt by simp
qed

text \<open>Below half the range of \<open>int64\<close> the midpoint does not overflow.\<close>

definition drift_sane :: "file_config \<Rightarrow> bool" where
  "drift_sane cfg \<longleftrightarrow>
     (case fake_player_drift cfg of None \<Rightarrow> True
      | Some c \<Rightarrow> cfg_max c \<le> 4611686018427387903 \<and> cfg_max_step c \<le> 4611686018427387903)"

lemma new_drift_inv:
  assumes "new_player_count_drift cfg now = Some d" "drift_sane cfg"
  shows "drift_inv d \<and> d_max d + d_max_step d \<le> max_int64 \<and>
    (max_players cfg > 1 \<longrightarrow> d_max d \<le> max_players cfg - 1)"
proof -
  obtain c where c: "fake_player_drift cfg = Some c" "0 < cfg_max c"
    using assms(1) by (auto simp: new_player_count_drift_def split: option.splits if_splits)
  define hi where "hi = (if max_players cfg > 1 \<and> cfg_max c > max_players cfg - 1
    then max_players cfg - 1 else cfg_max c)"
  define lo where "lo = (if (if cfg_min c < 1 then 1 else cfg_min c) > hi then hi
    else (if cfg_min c < 1 then 1 else cfg_min c))"
  have hi: "1 \<le> hi" "hi \<le> 4611686018427387903" "max_players cfg > 1 \<longrightarrow> hi \<le> max_players cfg - 1"
    using c assms(2) by (auto simp: hi_def drift_sane_def)
  have lo: "1 \<le> lo" "lo \<le> hi" using hi by (auto simp: lo_def)
  have "go_div (wrap64 (lo + hi)) 2 = (lo + hi) div 2"
    using lo hi by (simp add: go_div_pos in_int64_def min_int64_def max_int64_def)
  moreover have "lo \<le> (lo + hi) div 2" "(lo + hi) div 2 \<le> hi" using lo by linarith+
  moreover have "in_int64 hi" using hi by (simp add: in_int64_def min_int64_def max_int64_def)
  ultimately show ?thesis
    using assms c lo hi
    by (auto simp: new_player_count_drift_def Let_def drift_inv_def drift_sane_def max_int64_def
        simp flip: hi_def lo_def)
qed

section \<open>Properties\<close>

definition drift_calls :: "player_drift \<Rightarrow> (instant \<times> (nat \<Rightarrow> int)) list \<Rightarrow> player_drift" where
  "drift_calls = foldl (\<lambda>d (now, rnd). fst (drift_current now rnd d))"

lemma drift_call_bounds:
  "d_min (fst (drift_current now rnd d)) = d_min d \<and> d_max (fst (drift_current now rnd d)) = d_max d"
  by (simp add: drift_current_def Let_def drift_moves_fields)

lemma drift_calls_bounds:
  "d_min (drift_calls d cs) = d_min d \<and> d_max (drift_calls d cs) = d_max d"
proof (induction cs arbitrary: d)
  case (Cons c cs)
  obtain now rnd where [simp]: "c = (now, rnd)" by (cases c)
  show ?case using Cons.IH [of "fst (drift_current now rnd d)"] drift_call_bounds [of now rnd d]
    by (simp add: drift_calls_def)
qed (simp add: drift_calls_def)

text \<open>
  Whatever the clock does and whatever the random source returns, each count the drift
  reports is at least one, inside the configured range, and leaves one slot of the player limit
  free.
\<close>

theorem drift_stays_in_range:
  assumes "new_player_count_drift cfg t0 = Some d" "drift_sane cfg"
  shows "1 \<le> snd (drift_current now rnd (drift_calls d cs)) \<and>
    d_min d \<le> snd (drift_current now rnd (drift_calls d cs)) \<and>
    snd (drift_current now rnd (drift_calls d cs)) \<le> d_max d \<and>
    (max_players cfg > 1 \<longrightarrow> snd (drift_current now rnd (drift_calls d cs)) < max_players cfg)"
proof -
  note new = new_drift_inv [OF assms]
  have "drift_inv (drift_calls d cs)"
    unfolding drift_calls_def using new by (intro drift_run.run_keeps) simp
  then have "drift_inv (fst (drift_current now rnd (drift_calls d cs)))" by (rule drift_current_inv)
  with new show ?thesis
    using drift_call_bounds [of now rnd "drift_calls d cs"] drift_calls_bounds [of d cs]
    by (auto simp: drift_inv_def drift_current_value)
qed

definition example_drift_config :: file_config where
  "example_drift_config = default_config\<lparr>fake_player_drift := Some \<lparr>cfg_min = 5, cfg_max = 50, cfg_max_step = 2\<rparr>\<rparr>"

theorem drift_stays_in_range_witness:
  "new_player_count_drift example_drift_config 0 = Some \<lparr>d_min = 5, d_max = 19, d_max_step = 2,
     d_interval = 30 * second, d_value = 12, d_last = 0\<rparr> \<and>
   snd (drift_current (300 * second) (\<lambda>i. 2) (drift_calls \<lparr>d_min = 5, d_max = 19, d_max_step = 2,
     d_interval = 30 * second, d_value = 12, d_last = 0\<rparr> [])) < 20"
proof -
  have new: "new_player_count_drift example_drift_config 0 = Some \<lparr>d_min = 5, d_max = 19, d_max_step = 2,
     d_interval = 30 * second, d_value = 12, d_last = 0\<rparr>" and sane: "drift_sane example_drift_config"
    and "max_players example_drift_config = 20"
    by code_simp+
  then show ?thesis using drift_stays_in_range [OF new sane, of "300 * second" "\<lambda>i. 2" "[]"] by simp
qed

text \<open>
  One call moves the count by at most eight steps of the configured size, however long ago
  the last call was.
\<close>

theorem drift_call_moves_little:
  assumes "new_player_count_drift cfg t0 = Some d0" "drift_sane cfg" "d = drift_calls d0 cs"
    and "\<And>i. \<bar>rnd i\<bar> \<le> d_max_step d"
  shows "\<bar>snd (drift_current now rnd d) - d_value d\<bar> \<le> 8 * d_max_step d"
proof -
  note new = new_drift_inv [OF assms(1,2)]
  have fields: "d_max_step (drift_calls d0 cs) = d_max_step d0" for cs
  proof (induction cs arbitrary: d0)
    case (Cons c cs)
    then show ?case
      by (cases c) (simp add: drift_calls_def drift_current_def Let_def drift_moves_fields)
  qed (simp add: drift_calls_def)
  have inv_d: "drift_inv d"
    unfolding assms(3) drift_calls_def using new by (intro drift_run.run_keeps) simp
  let ?n = "go_div (time_sub now (d_last d)) (d_interval d)"
  let ?d = "d\<lparr>d_last := d_last d + wrap64 (?n * d_interval d)\<rparr>"
  have "drift_inv ?d" using inv_d by (simp add: drift_inv_def)
  then have "\<bar>d_value (drift_moves ?d (map rnd [0..<nat (min ?n 8)])) - d_value ?d\<bar>
      \<le> int (length (map rnd [0..<nat (min ?n 8)])) * d_max_step ?d"
    using assms(4) new fields drift_calls_bounds [of d0 cs] assms(3)
    by (intro drift_moves_distance) (auto simp: list_all_iff)
  moreover have "int (nat (min ?n 8)) * d_max_step d \<le> 8 * d_max_step d"
    using inv_d by (intro mult_right_mono) (auto simp: drift_inv_def)
  moreover have "0 \<le> d_max_step d" using inv_d by (simp add: drift_inv_def)
  ultimately show ?thesis by (auto simp: drift_current_def Let_def)
qed

theorem drift_call_moves_little_witness:
  "\<bar>snd (drift_current (9000 * second) (\<lambda>i. 2) \<lparr>d_min = 5, d_max = 19, d_max_step = 2,
     d_interval = 30 * second, d_value = 12, d_last = 0\<rparr>) - 12\<bar> \<le> 16"
proof -
  have new: "new_player_count_drift example_drift_config 0 = Some \<lparr>d_min = 5, d_max = 19, d_max_step = 2,
     d_interval = 30 * second, d_value = 12, d_last = 0\<rparr>" and sane: "drift_sane example_drift_config"
    by code_simp+
  show ?thesis
    using drift_call_moves_little [OF new sane, of _ "[]" "\<lambda>i. 2" "9000 * second"]
    by (simp add: drift_calls_def)
qed

text \<open>
  The time of the last move advances by whole intervals: it never passes the clock and is
  less than one interval behind it after a call.
\<close>

theorem drift_keeps_time:
  assumes "drift_inv d" "d_last d \<le> now" "in_int64 (now - d_last d)"
  shows "d_last (fst (drift_current now rnd d)) \<le> now \<and>
    now < d_last (fst (drift_current now rnd d)) + d_interval d"
  using drift_current_last [OF assms, of rnd] by blast

theorem drift_keeps_time_witness:
  "d_last (fst (drift_current (100 * second) (\<lambda>i. 0) \<lparr>d_min = 5, d_max = 19, d_max_step = 2,
     d_interval = 30 * second, d_value = 12, d_last = 0\<rparr>)) \<le> 100 * second"
proof -
  have "drift_inv \<lparr>d_min = 5, d_max = 19, d_max_step = 2, d_interval = 30 * second, d_value = 12, d_last = 0\<rparr>"
    "d_last \<lparr>d_min = 5, d_max = 19, d_max_step = 2, d_interval = 30 * second, d_value = 12, d_last = 0\<rparr> \<le> 100 * second"
    "in_int64 (100 * second - d_last \<lparr>d_min = 5, d_max = 19, d_max_step = 2, d_interval = 30 * second, d_value = 12, d_last = 0\<rparr>)"
    by code_simp+
  from drift_keeps_time [OF this, of "\<lambda>i. 0"] show ?thesis by blast
qed

text \<open>
  \<open>sharedPlayerDrift\<close>: one drift for the process, made from the configuration of the first call. The
  state is \<open>None\<close> until then.
\<close>

definition shared_player_drift ::
  "file_config \<Rightarrow> instant \<Rightarrow> player_drift option option \<Rightarrow> player_drift option option \<times> player_drift option" where
  "shared_player_drift cfg now shared =
     (case shared of
        Some d \<Rightarrow> (Some d, d)
      | None \<Rightarrow> (let d = new_player_count_drift cfg now in (Some d, d)))"

text \<open>Whatever configurations later calls bring, all get the drift of the first.\<close>

theorem first_config_decides_drift:
  "fold (\<lambda>(cfg, now) shared. fst (shared_player_drift cfg now shared)) ((cfg0, now0) # calls) None =
     Some (new_player_count_drift cfg0 now0)"
proof -
  have "fold (\<lambda>(cfg, now) shared. fst (shared_player_drift cfg now shared)) calls (Some d) = Some d" for d
    by (induction calls) (auto simp: shared_player_drift_def)
  then show ?thesis by (simp add: shared_player_drift_def Let_def)
qed

end
