(* ===== verification/Friend_Manager.thy ===== *)
theory Friend_Manager
  imports Xbl_Session
begin

text \<open>
  The Xbox Live requests around friends and presence: accepting friend requests at a bounded rate
  (\<open>xbl/friends.go\<close>), one friend request (\<open>xbl/addfriend.go\<close>), the friends list
  (\<open>xbl/friendslist.go\<close>) and the presence heartbeat (\<open>xbl/presence.go\<close>). The clock and the
  answers are arguments; \<open>http_date\<close> is \<open>http.ParseTime\<close>.
\<close>

section \<open>Retry-After\<close>

definition parse_retry_after :: "(string \<Rightarrow> instant option) \<Rightarrow> instant \<Rightarrow> string \<Rightarrow> duration" where
  "parse_retry_after http_date now value =
     (if value = '''' then 0
      else (case parse_int64 value of
              Some seconds \<Rightarrow> if seconds \<le> 0 then 0 else wrap64 (seconds * second)
            | None \<Rightarrow>
                (case http_date value of
                   None \<Rightarrow> 0
                 | Some t \<Rightarrow> let delay = time_sub t now in if delay < 0 then 0 else delay)))"

section \<open>The friend manager\<close>

record friend_person =
  fp_xuid :: xuid
  fp_gamertag :: string

record friend_manager =
  fm_queue :: "friend_person list"
  fm_retry_after :: instant

definition friend_check_min_interval :: duration where "friend_check_min_interval = 20 * second"
definition friend_check_poll_interval :: duration where "friend_check_poll_interval = 5 * minute"
definition friend_queue_capacity :: nat where "friend_queue_capacity = 64"

definition new_friend_manager :: friend_manager where
  "new_friend_manager = \<lparr>fm_queue = [], fm_retry_after = - unix_to_internal * second\<rparr>"

definition wait_before_check :: "instant \<Rightarrow> friend_manager \<Rightarrow> duration" where
  "wait_before_check now f =
     (let remaining = time_sub (fm_retry_after f) now in if remaining > 0 then remaining else 0)"

definition set_retry_after :: "instant \<Rightarrow> duration \<Rightarrow> friend_manager \<Rightarrow> friend_manager" where
  "set_retry_after now d f = f\<lparr>fm_retry_after := now + (if d \<le> 0 then friend_check_min_interval else d)\<rparr>"

definition enqueue :: "friend_manager \<Rightarrow> friend_person \<Rightarrow> friend_manager" where
  "enqueue f p = (if length (fm_queue f) < friend_queue_capacity then f\<lparr>fm_queue := fm_queue f @ [p]\<rparr> else f)"

text \<open>An answer of the people service: \<open>Limited\<close> is status 429 with its Retry-After.\<close>

datatype people_answer = PeopleFailed | Limited string | People "friend_person list option"

definition check_pending ::
  "(string \<Rightarrow> instant option) \<Rightarrow> instant \<Rightarrow> people_answer \<Rightarrow> friend_manager \<Rightarrow> friend_manager \<times> bool" where
  "check_pending http_date now answer f =
     (case answer of
        PeopleFailed \<Rightarrow> (f, False)
      | Limited value \<Rightarrow> (set_retry_after now (parse_retry_after http_date now value) f, False)
      | People None \<Rightarrow> (f, False)
      | People (Some ps) \<Rightarrow> (foldl enqueue f ps, True))"

text \<open>
  One round of \<open>Run\<close>, woken by its timer or by the trigger: the next timer, and whether the
  service was asked.
\<close>

definition friend_round ::
  "(string \<Rightarrow> instant option) \<Rightarrow> instant \<Rightarrow> people_answer \<Rightarrow> friend_manager \<Rightarrow>
   friend_manager \<times> duration \<times> bool" where
  "friend_round http_date now answer f =
     (let wait = wait_before_check now f
      in if wait > 0 then (f, wait, False)
         else (fst (check_pending http_date now answer f), friend_check_poll_interval, True))"

datatype accept_answer = NoAuth | AcceptFailed | AcceptLimited string | Accepts bool

datatype friend_action = Accept xuid | Deny xuid

text \<open>\<open>process\<close>: one queued request; a refused or failed accept is denied.\<close>

definition process_request ::
  "(string \<Rightarrow> instant option) \<Rightarrow> instant \<Rightarrow> accept_answer \<Rightarrow> friend_person \<Rightarrow> friend_manager \<Rightarrow>
   friend_manager \<times> friend_action list" where
  "process_request http_date now answer p f =
     (case answer of
        NoAuth \<Rightarrow> (f, [])
      | AcceptFailed \<Rightarrow> (f, [Accept (fp_xuid p), Deny (fp_xuid p)])
      | AcceptLimited value \<Rightarrow>
          (set_retry_after now (parse_retry_after http_date now value) f, [Accept (fp_xuid p)])
      | Accepts is_friend \<Rightarrow>
          (f, if is_friend then [Accept (fp_xuid p)] else [Accept (fp_xuid p), Deny (fp_xuid p)]))"

definition queue_step ::
  "(string \<Rightarrow> instant option) \<Rightarrow> instant \<Rightarrow> accept_answer \<Rightarrow> friend_manager \<Rightarrow> friend_manager \<times> friend_action list" where
  "queue_step http_date now answer f =
     (case fm_queue f of
        [] \<Rightarrow> (f, [])
      | p # ps \<Rightarrow> process_request http_date now answer p (f\<lparr>fm_queue := ps\<rparr>))"

section \<open>Friend requests and the friends list\<close>

record add_result =
  ar_status :: int
  ar_retry_after :: duration

definition send_friend_request ::
  "(string \<Rightarrow> instant option) \<Rightarrow> instant \<Rightarrow> (int \<times> string) option \<Rightarrow> add_result option" where
  "send_friend_request http_date now answer =
     map_option (\<lambda>(status, retry).
       \<lparr>ar_status = status, ar_retry_after = (if status = 429 then parse_retry_after http_date now retry else 0)\<rparr>) answer"

record friend_info =
  fi_xuid :: xuid
  fi_mutual :: bool

definition list_friends :: "(xuid \<times> bool) list exchange \<Rightarrow> xbl_error + friend_info list" where
  "list_friends answer =
     (case expect {200} answer of
        Inl e \<Rightarrow> Inl e
      | Inr people \<Rightarrow>
          Inr (map (\<lambda>(x, follows). \<lparr>fi_xuid = x, fi_mutual = follows\<rparr>) (filter (\<lambda>(x, follows). x \<noteq> '''') people)))"

section \<open>Presence\<close>

definition default_heartbeat :: duration where "default_heartbeat = 300 * second"

text \<open>\<open>update\<close>: the answer is its status and its X-Heartbeat-After header.\<close>

definition presence_update :: "(int \<times> string) option \<Rightarrow> xbl_error + duration" where
  "presence_update answer =
     (case answer of
        None \<Rightarrow> Inl RequestFailed
      | Some (status, heartbeat) \<Rightarrow>
          (if status \<noteq> 200 then Inl (BadStatus status)
           else (case (if heartbeat = '''' then None else parse_int64 heartbeat) of
                   None \<Rightarrow> Inr default_heartbeat
                 | Some secs \<Rightarrow> if secs > 0 then Inr (wrap64 (secs * second)) else Inr default_heartbeat)))"

text \<open>The pauses of the heartbeat loop that \<open>Run\<close> starts, one per answer.\<close>

fun heartbeat_loop :: "duration \<Rightarrow> (int \<times> string) option list \<Rightarrow> duration list" where
  "heartbeat_loop next_in [] = [next_in]"
| "heartbeat_loop next_in (a # as) =
     next_in # heartbeat_loop (case presence_update a of Inl e \<Rightarrow> 60 * second | Inr d \<Rightarrow> d) as"

definition presence_run :: "(int \<times> string) option \<Rightarrow> (int \<times> string) option list \<Rightarrow> xbl_error + duration list" where
  "presence_run first as =
     (case presence_update first of Inl e \<Rightarrow> Inl e | Inr d \<Rightarrow> Inr (heartbeat_loop d as))"

section \<open>Lemmas\<close>

definition fm_inv :: "friend_manager \<Rightarrow> bool" where
  "fm_inv f \<longleftrightarrow> length (fm_queue f) \<le> friend_queue_capacity"

lemma enqueue_inv: "fm_inv f \<Longrightarrow> fm_inv (enqueue f p)"
  by (simp add: fm_inv_def enqueue_def)

interpretation friend_queue: invariant_machine enqueue fm_inv
  by unfold_locales (rule enqueue_inv)

lemma set_retry_after_inv: "fm_inv f \<Longrightarrow> fm_inv (set_retry_after now d f)"
  by (simp add: fm_inv_def set_retry_after_def)

lemma check_pending_inv: "fm_inv f \<Longrightarrow> fm_inv (fst (check_pending http_date now answer f))"
  by (auto simp: check_pending_def set_retry_after_inv intro: friend_queue.run_keeps
      split: people_answer.split option.split)

lemma queue_step_inv: "fm_inv f \<Longrightarrow> fm_inv (fst (queue_step http_date now answer f))"
proof (cases "fm_queue f")
  case (Cons p ps)
  assume "fm_inv f"
  with Cons have "fm_inv (f\<lparr>fm_queue := ps\<rparr>)" by (simp add: fm_inv_def)
  with Cons show ?thesis
    by (auto simp: queue_step_def process_request_def set_retry_after_inv split: accept_answer.split)
qed (simp add: queue_step_def)

datatype friend_event = Round instant people_answer | QueueTurn instant accept_answer

fun friend_step :: "(string \<Rightarrow> instant option) \<Rightarrow> friend_manager \<Rightarrow> friend_event \<Rightarrow> friend_manager" where
  "friend_step http_date f (Round now answer) = fst (friend_round http_date now answer f)"
| "friend_step http_date f (QueueTurn now answer) = fst (queue_step http_date now answer f)"

lemma friend_step_inv: "fm_inv f \<Longrightarrow> fm_inv (friend_step http_date f e)"
  by (cases e) (auto simp: friend_round_def Let_def intro: check_pending_inv queue_step_inv)

interpretation friends_run: invariant_machine "friend_step http_date" fm_inv for http_date
  by unfold_locales (rule friend_step_inv)

lemma retry_after_positive: "now < fm_retry_after (set_retry_after now d f)"
  by (simp add: set_retry_after_def friend_check_min_interval_def second_def)

text \<open>The instants at which a run of rounds asks the service.\<close>

fun asked_at :: "(string \<Rightarrow> instant option) \<Rightarrow> friend_manager \<Rightarrow> friend_event list \<Rightarrow> instant list" where
  "asked_at http_date f [] = []"
| "asked_at http_date f (e # es) =
     (case e of
        Round now answer \<Rightarrow> if snd (snd (friend_round http_date now answer f)) then [now] else []
      | QueueTurn now answer \<Rightarrow> []) @ asked_at http_date (friend_step http_date f e) es"

definition limited_event :: "friend_event \<Rightarrow> bool" where
  "limited_event e \<longleftrightarrow>
     (case e of Round now a \<Rightarrow> (case a of Limited v \<Rightarrow> True | _ \<Rightarrow> False)
      | QueueTurn now a \<Rightarrow> (case a of AcceptLimited v \<Rightarrow> True | _ \<Rightarrow> False))"

lemma set_retry_after_queue [simp]: "fm_retry_after (foldl enqueue f ps) = fm_retry_after f"
  by (induction ps arbitrary: f) (simp_all add: enqueue_def)

lemma unlimited_step: "\<not> limited_event e \<Longrightarrow> fm_retry_after (friend_step http_date f e) = fm_retry_after f"
  by (cases e)
    (auto simp: limited_event_def friend_round_def check_pending_def queue_step_def process_request_def Let_def
      split: people_answer.splits accept_answer.splits option.splits list.splits)

lemma round_asks:
  "snd (snd (friend_round http_date now answer f)) \<Longrightarrow> fm_retry_after f \<le> now"
  by (auto simp: friend_round_def wait_before_check_def Let_def time_sub_def clamp64_def max_int64_def
      min_int64_def split: if_splits)

lemma asked_after_limit:
  "list_all (\<lambda>e. \<not> limited_event e) es \<Longrightarrow> t \<in> set (asked_at http_date f es) \<Longrightarrow> fm_retry_after f \<le> t"
proof (induction es arbitrary: f)
  case (Cons e es)
  from Cons.prems(1) have e: "\<not> limited_event e" by simp
  show ?case
  proof (cases "t \<in> set (asked_at http_date (friend_step http_date f e) es)")
    case True
    with Cons.IH [OF _ True] Cons.prems(1) unlimited_step [OF e] show ?thesis by simp
  next
    case False
    then obtain now answer where "e = Round now answer" "t = now" "snd (snd (friend_round http_date now answer f))"
      using Cons.prems(2) by (auto split: friend_event.splits if_splits)
    then show ?thesis using round_asks by blast
  qed
qed simp

section \<open>Properties\<close>

text \<open>
  When the people service answers 429, no check asks it again before the announced delay is
  over, or twenty seconds when none is announced, however often the loop is woken meanwhile.
\<close>

theorem rate_limit_respected:
  assumes "list_all (\<lambda>e. \<not> limited_event e) es"
    and "t \<in> set (asked_at http_date (fst (check_pending http_date now (Limited value) f)) es)"
  defines "d \<equiv> parse_retry_after http_date now value"
  shows "now + (if d \<le> 0 then 20 * second else d) \<le> t"
  using asked_after_limit [OF assms(1,2)] unfolding d_def
  by (simp add: check_pending_def set_retry_after_def friend_check_min_interval_def split: if_splits)

theorem rate_limit_respected_witness:
  "0 + (if parse_retry_after (\<lambda>s. None) 0 ''7'' \<le> 0 then 20 * second else parse_retry_after (\<lambda>s. None) 0 ''7'') \<le> 7 * second \<and>
   asked_at (\<lambda>s. None) (fst (check_pending (\<lambda>s. None) 0 (Limited ''7'') new_friend_manager))
     [Round (3 * second) PeopleFailed, Round (7 * second) PeopleFailed] = [7 * second]"
proof -
  let ?es = "[Round (3 * second) PeopleFailed, Round (7 * second) PeopleFailed]"
  have d: "parse_retry_after (\<lambda>s. None) 0 ''7'' = 7 * second" by code_simp
  have a: "asked_at (\<lambda>s. None) (fst (check_pending (\<lambda>s. None) 0 (Limited ''7'') new_friend_manager)) ?es = [7 * second]"
    unfolding check_pending_def people_answer.case fst_conv d
    by (simp add: set_retry_after_def new_friend_manager_def friend_round_def wait_before_check_def check_pending_def
        time_sub_def clamp64_def second_def Let_def max_int64_def min_int64_def)
  have "list_all (\<lambda>e. \<not> limited_event e) ?es" by (simp add: limited_event_def)
  moreover have "7 * second \<in> set (asked_at (\<lambda>s. None) (fst (check_pending (\<lambda>s. None) 0 (Limited ''7'') new_friend_manager)) ?es)"
    unfolding a by simp
  ultimately show ?thesis using a by (intro conjI rate_limit_respected)
qed

text \<open>
  The loop of the friend manager never spins: each round sets its timer to a positive pause,
  and the queue never holds more than 64 requests, in any run of rounds and accepts.
\<close>

theorem friend_loop_paced:
  "0 < fst (snd (friend_round http_date now answer (foldl (friend_step http_date) new_friend_manager es))) \<and>
   length (fm_queue (foldl (friend_step http_date) new_friend_manager es)) \<le> 64"
proof -
  have "fm_inv (foldl (friend_step http_date) new_friend_manager es)"
    by (rule friends_run.run_keeps) (simp add: fm_inv_def new_friend_manager_def)
  then show ?thesis
    by (simp add: fm_inv_def friend_queue_capacity_def friend_round_def Let_def friend_check_poll_interval_def
        minute_def second_def)
qed

text \<open>
  The pauses between presence heartbeats are positive, as long as the service asks for less
  than 292 years: the loop never posts without a pause.
\<close>

theorem heartbeats_paced:
  assumes "presence_run first as = Inr pauses"
    and "\<And>status h secs. Some (status, h) \<in> set (first # as) \<Longrightarrow> parse_int64 h = Some secs \<Longrightarrow> secs \<le> 9223372036"
  shows "length pauses = Suc (length as) \<and> list_all (\<lambda>d. 0 < d) pauses"
proof -
  have pos: "0 < d" if ok: "presence_update a = Inr d"
    and small: "\<And>status h secs. a = Some (status, h) \<Longrightarrow> parse_int64 h = Some secs \<Longrightarrow> secs \<le> 9223372036" for a d
  proof -
    obtain status h where a: "a = Some (status, h)" using ok by (cases a) (auto simp: presence_update_def)
    have "wrap64 (secs * second) = secs * second" if "0 < secs" "secs \<le> 9223372036" for secs
      using that by (intro wrap64_id) (simp add: in_int64_def min_int64_def max_int64_def second_def)
    with ok small a show ?thesis
      by (cases "parse_int64 h")
        (auto simp: presence_update_def default_heartbeat_def second_def split: if_splits)
  qed
  have loop: "length (heartbeat_loop d as) = Suc (length as) \<and> list_all (\<lambda>d. 0 < d) (heartbeat_loop d as)"
    if "0 < d" "\<And>status h secs. Some (status, h) \<in> set as \<Longrightarrow> parse_int64 h = Some secs \<Longrightarrow> secs \<le> 9223372036" for d as
    using that
  proof (induction d as rule: heartbeat_loop.induct)
    case (2 d a as)
    have "0 < (case presence_update a of Inl e \<Rightarrow> 60 * second | Inr d \<Rightarrow> d)"
      using pos [of a] "2.prems"(2) by (cases "presence_update a") (auto simp: second_def)
    let ?n = "case presence_update a of Inl e \<Rightarrow> 60 * second | Inr d \<Rightarrow> d"
    have "length (heartbeat_loop ?n as) = Suc (length as) \<and> list_all (\<lambda>d. 0 < d) (heartbeat_loop ?n as)"
      by (rule "2.IH" [OF \<open>0 < ?n\<close>]) (use "2.prems"(2) in force)
    with "2.prems"(1) show ?case by simp
  qed simp
  obtain d where d: "presence_update first = Inr d" "pauses = heartbeat_loop d as"
    using assms(1) by (auto simp: presence_run_def split: sum.splits)
  have "0 < d" by (rule pos [OF d(1)]) (use assms(2) in auto)
  from loop [OF this, of as] assms(2) d(2) show ?thesis by auto
qed

theorem heartbeats_paced_witness:
  "presence_run (Some (200, '''')) [None] = Inr [300 * second, 60 * second] \<and> list_all (\<lambda>d. 0 < d) [300 * second, 60 * second]"
proof -
  have run: "presence_run (Some (200, '''')) [None] = Inr [300 * second, 60 * second]"
    by (simp add: presence_run_def presence_update_def default_heartbeat_def)
  have "parse_int64 '''' = None" by (simp add: parse_int64_def)
  with heartbeats_paced [OF run] run show ?thesis by auto
qed

end
