(* ===== verification/Main_Session.thy ===== *)
theory Main_Session
  imports Backend Broadcasts Player_Drift Friend_Manager Rta
begin

text \<open>
  \<open>main.go\<close>: the decisions of \<open>main\<close> before anything is started, one generation of a broadcast's
  session (\<open>runSession\<close>) and the events it handles while it is live. The answers of the network,
  the clock and the random source are arguments.
\<close>

section \<open>Command line and configuration\<close>

text \<open>
  The loop that looks for \<open>-login\<close>: \<open>None\<close> when it is not given, otherwise the file named after it,
  \<open>None\<close> standing for the next unused token file.
\<close>

fun login_file :: "string list \<Rightarrow> string option option" where
  "login_file [] = None"
| "login_file (a # as) =
     (if a = ''-login'' \<or> a = ''--login''
      then Some (case as of
                   [] \<Rightarrow> None
                 | f # fs \<Rightarrow> if \<not> has_prefix f ''-'' \<and> f \<noteq> '''' then Some f else None)
      else login_file as)"

definition debug_flag :: "string list \<Rightarrow> bool" where
  "debug_flag args = list_ex (\<lambda>a. a = ''-debug'' \<or> a = ''--debug'') args"

definition no_friend_accept_flag :: "string list \<Rightarrow> bool" where
  "no_friend_accept_flag args \<longleftrightarrow> ''-no-friend-accept'' \<in> set args \<or> ''--no-friend-accept'' \<in> set args"

definition allow_xuid :: "file_config \<Rightarrow> (xuid \<Rightarrow> bool) option" where
  "allow_xuid cfg =
     (if length (allowed_xuids cfg) > 0 then Some (\<lambda>x. x \<in> set (allowed_xuids cfg)) else None)"

datatype packet_compression = SnappyCompression | FlateCompression | NopCompression

text \<open>The algorithm, whether the name was known, and the threshold.\<close>

definition choose_compression :: "file_config \<Rightarrow> packet_compression \<times> bool \<times> int" where
  "choose_compression cfg =
     (let name = to_lower (compression cfg);
          threshold = (if compression_threshold cfg > 0 then compression_threshold cfg else 256)
      in if name \<in> {'''', ''snappy''} then (SnappyCompression, True, threshold)
         else if name \<in> {''flate'', ''deflate'', ''zlib''} then (FlateCompression, True, threshold)
         else if name \<in> {''none'', ''nop'', ''off''} then (NopCompression, True, threshold)
         else (SnappyCompression, False, threshold))"

definition relay_config :: "file_config \<Rightarrow> backend_config" where
  "relay_config cfg =
     \<lparr>be_transport = backend_transport cfg, be_geyser_address = geyser_address cfg,
      be_nethernet_address = nethernet_backend_address cfg\<rparr>"

datatype transport_check =
    RelayRaknet string
  | RelayNethernet string
  | NoRelay string
  | InvalidAddress address_error
  | DirectIpConflict
  | UnknownBackend string

definition check_transport :: "(string \<Rightarrow> url option) \<Rightarrow> file_config \<Rightarrow> transport_check" where
  "check_transport url_parse cfg =
     (let name = to_lower (trim_space (backend_transport cfg))
      in if name \<in> {'''', ''raknet''} then RelayRaknet (geyser_address cfg)
         else if name \<in> {''nethernet'', ''nethernet-norelay''} then
           (case normalize_nethernet_address url_parse (nethernet_backend_address cfg) of
              Inl e \<Rightarrow> InvalidAddress e
            | Inr address \<Rightarrow>
                (if equal_fold (trim_space (backend_transport cfg)) ''nethernet-norelay''
                 then (if relay_direct_ip cfg then DirectIpConflict else NoRelay address)
                 else RelayNethernet address))
         else UnknownBackend (backend_transport cfg))"

definition startup_ok :: "transport_check \<Rightarrow> bool" where
  "startup_ok c \<longleftrightarrow> (case c of RelayRaknet a \<Rightarrow> True | RelayNethernet a \<Rightarrow> True | NoRelay a \<Rightarrow> True | _ \<Rightarrow> False)"

section \<open>Renewal and the update timer\<close>

definition renew_margin :: duration where "renew_margin = 5 * minute"

text \<open>\<open>override\<close> is the NETHER2RAK_DEBUG_RENEW_SECONDS variable, empty when it is not set.\<close>

definition renew_in :: "instant \<Rightarrow> instant \<Rightarrow> string \<Rightarrow> duration" where
  "renew_in now valid_until override =
     (let d = wrap64 (time_sub valid_until now - renew_margin);
          d = (if d < minute then minute else d)
      in case (if override = '''' then None else parse_int64 override) of
           None \<Rightarrow> d
         | Some secs \<Rightarrow> wrap64 (secs * second))"

text \<open>
  When the session is renewed: never without a token (\<open>None\<close> for \<open>valid_until\<close>), and not once the
  session's context has ended.
\<close>

definition renewal_due :: "instant \<Rightarrow> instant option \<Rightarrow> string \<Rightarrow> instant option \<Rightarrow> instant option" where
  "renewal_due now valid_until override ended =
     (case valid_until of
        None \<Rightarrow> None
      | Some v \<Rightarrow>
          (let t = now + renew_in now v override
           in case ended of
                None \<Rightarrow> Some t
              | Some e \<Rightarrow> if e < t then None else Some t))"

text \<open>\<open>time.NewTicker\<close> panics (\<open>None\<close>) on a period that is not positive.\<close>

definition new_ticker :: "duration \<Rightarrow> duration option" where
  "new_ticker d = (if d \<le> 0 then None else Some d)"

definition update_ticker :: "file_config \<Rightarrow> duration option" where
  "update_ticker cfg = new_ticker (wrap64 (update_interval_seconds cfg * second))"

section \<open>The player count of the process\<close>

record player_state =
  ps_real :: int
  ps_drift :: "player_drift option"

definition world_info_of :: "file_config \<Rightarrow> int \<Rightarrow> world_info" where
  "world_info_of cfg players =
     \<lparr>wi_host_name = host_name cfg, wi_world_name = world_name cfg, wi_players = players,
      wi_max_players = max_players cfg, wi_protocol = of_int (protocol cfg), wi_version = version cfg\<rparr>"

definition current_world :: "instant \<Rightarrow> (nat \<Rightarrow> int) \<Rightarrow> file_config \<Rightarrow> player_state \<Rightarrow> player_state \<times> world_info" where
  "current_world now moves cfg p =
     (let (drift, players) = advertised_players now moves cfg (ps_real p) (ps_drift p)
      in (p\<lparr>ps_drift := drift\<rparr>, world_info_of cfg players))"

section \<open>A live session\<close>

datatype session_cause = RenewalDue | ReconcileFailed | ParentEnded

record live_session =
  lv_cfg :: file_config
  lv_initial :: string
  lv_session :: xbl_session
  lv_rta :: rta
  lv_players :: player_state
  lv_count_failing :: bool
  lv_cause :: "session_cause option"

text \<open>
  What a live session reacts to: its two tickers, a connection id from the RTA, a change of the
  session's members, the renewal timer and the end of the parent context. The last argument of the
  events that send an update is the directory's answer.
\<close>

datatype live_event =
    CountTick instant "nat \<Rightarrow> int" "int option" "unit exchange"
  | UpdateTick instant "nat \<Rightarrow> int" "unit exchange"
  | ConnectionId string "unit exchange"
  | MembersChanged "xuid \<Rightarrow> string" "member list exchange" "unit exchange"
  | RenewalTimer
  | ParentDone

datatype live_action = PutSession session_request | Reconnect

text \<open>The first cause of a cancelled context stays.\<close>

definition cancel_session :: "session_cause \<Rightarrow> live_session \<Rightarrow> live_session" where
  "cancel_session c l = (if lv_cause l = None then l\<lparr>lv_cause := Some c\<rparr> else l)"

definition on_connection_id_changed :: "string \<Rightarrow> unit exchange \<Rightarrow> live_session \<Rightarrow> live_session \<times> live_action list" where
  "on_connection_id_changed cid answer l =
     (if cid = lv_initial l then (l, [])
      else (let s = set_connection_id cid (lv_session l);
                l = l\<lparr>lv_session := s\<rparr>
            in (case update_session answer of
                  Some e \<Rightarrow> cancel_session ReconcileFailed l
                | None \<Rightarrow> l, [PutSession (build_request s)])))"

definition publish_world :: "instant \<Rightarrow> (nat \<Rightarrow> int) \<Rightarrow> live_session \<Rightarrow> live_session \<times> live_action list" where
  "publish_world now moves l =
     (let (p, w) = current_world now moves (lv_cfg l) (lv_players l);
          s = set_world_info w (lv_session l)
      in (l\<lparr>lv_players := p, lv_session := s\<rparr>, [PutSession (build_request s)]))"

definition count_tick :: "instant \<Rightarrow> (nat \<Rightarrow> int) \<Rightarrow> int option \<Rightarrow> live_session \<Rightarrow> live_session \<times> live_action list" where
  "count_tick now moves backend l =
     (case refresh_real_players backend (ps_real (lv_players l)) of
        (RefreshError, real) \<Rightarrow> (l\<lparr>lv_count_failing := True\<rparr>, [])
      | (Changed changed, real) \<Rightarrow>
          (let l = l\<lparr>lv_players := (lv_players l)\<lparr>ps_real := real\<rparr>, lv_count_failing := False\<rparr>
           in if \<not> changed then (l, []) else publish_world now moves l))"

definition update_tick :: "instant \<Rightarrow> (nat \<Rightarrow> int) \<Rightarrow> live_session \<Rightarrow> live_session \<times> live_action list" where
  "update_tick now moves l =
     (let (l, as) = publish_world now moves l;
          max_age = wrap64 (2 * update_interval_seconds (lv_cfg l) * second)
      in (l, as @ (if is_stale now max_age (lv_rta l) \<and> force_reconnect (lv_rta l) then [Reconnect] else [])))"

definition members_changed ::
  "(xuid \<Rightarrow> string) \<Rightarrow> member list exchange \<Rightarrow> unit exchange \<Rightarrow> live_session \<Rightarrow> live_session \<times> live_action list" where
  "members_changed nonce get_answer put_answer l =
     (let (s, pushed, err) = refresh_nonces nonce get_answer put_answer (lv_session l)
      in (l\<lparr>lv_session := s\<rparr>, if pushed then [PutSession (build_request s)] else []))"

fun live_step :: "live_event \<Rightarrow> live_session \<Rightarrow> live_session \<times> live_action list" where
  "live_step (CountTick now moves backend answer) l =
     (if advertises_real_players (lv_cfg l) (ps_drift (lv_players l)) then count_tick now moves backend l else (l, []))"
| "live_step (UpdateTick now moves answer) l = update_tick now moves l"
| "live_step (ConnectionId cid answer) l = on_connection_id_changed cid answer l"
| "live_step (MembersChanged nonce get_answer put_answer) l = members_changed nonce get_answer put_answer l"
| "live_step RenewalTimer l = (cancel_session RenewalDue l, [])"
| "live_step ParentDone l = (cancel_session ParentEnded l, [])"

fun live_run :: "live_event list \<Rightarrow> live_session \<Rightarrow> live_session \<times> live_action list" where
  "live_run [] l = (l, [])"
| "live_run (e # es) l =
     (let (l, as) = live_step e l; (l, bs) = live_run es l in (l, as @ bs))"

section \<open>One generation\<close>

datatype serve_end = ServeCancelled | ServeFailed

definition error_of_cause :: "session_cause \<Rightarrow> session_error" where
  "error_of_cause c = (case c of RenewalDue \<Rightarrow> TokenRenewal | _ \<Rightarrow> OtherError)"

definition session_end :: "session_cause option \<Rightarrow> serve_end \<Rightarrow> session_error option" where
  "session_end cause e =
     (if cause = Some RenewalDue then Some TokenRenewal
      else if e = ServeCancelled then None else Some OtherError)"

text \<open>
  The answers to one \<open>runSession\<close>, in the order of its calls: the RTA's connection id, the
  signaling transports, the backend's player count, the presence, the two requests of \<open>Create\<close>,
  and how \<open>Serve\<close> ended. \<open>se_waiting\<close> is what happens between the registration of the callbacks
  and \<open>Create\<close>, when the tickers do not run yet, \<open>se_events\<close> what happens while the session is
  live. \<open>se_uuid\<close> and \<open>se_subscription\<close> are fresh ids.
\<close>

record session_env =
  se_now :: instant
  se_moves :: "nat \<Rightarrow> int"
  se_connection :: "string option"
  se_listen :: listen_env
  se_backend :: "int option"
  se_uuid :: string
  se_subscription :: string
  se_presence :: "(int \<times> string) option"
  se_waiting :: "live_event list"
  se_put :: "unit exchange"
  se_handle :: "string exchange"
  se_events :: "live_event list"
  se_serve :: serve_end

definition before_create :: "live_event \<Rightarrow> bool" where
  "before_create e \<longleftrightarrow>
     (case e of CountTick now moves backend answer \<Rightarrow> False | UpdateTick now moves answer \<Rightarrow> False | _ \<Rightarrow> True)"

text \<open>The session document that is published first, and the state of a session that goes live.\<close>

definition first_session ::
  "(string \<Rightarrow> string) \<Rightarrow> session_env \<Rightarrow> xuid \<Rightarrow> string \<Rightarrow> string \<Rightarrow> string \<Rightarrow> 64 word \<Rightarrow> file_config \<Rightarrow> player_state \<Rightarrow>
   player_state \<times> xbl_session" where
  "first_session level env x session_id conn pmsg nether_id cfg p =
     (let p = (if advertises_real_players cfg (ps_drift p)
               then p\<lparr>ps_real := snd (refresh_real_players (se_backend env) (ps_real p))\<rparr> else p);
          s = new_session level (se_uuid env) (se_subscription env)
                \<lparr>wi_host_name = '''', wi_world_name = '''', wi_players = 0, wi_max_players = 0,
                 wi_protocol = 0, wi_version = ''''\<rparr>
                x session_id conn pmsg nether_id;
          (p, w) = current_world (se_now env) (se_moves env) cfg p
      in (p, set_world_info w s))"

text \<open>\<open>so_panics\<close>: the goroutine that starts the tickers panics, which ends the process.\<close>

record session_outcome =
  so_session_id :: string
  so_nether_id :: "64 word"
  so_error :: "session_error option"
  so_actions :: "live_action list"
  so_players :: player_state
  so_panics :: bool

definition go_live :: "session_env \<Rightarrow> live_session \<Rightarrow> live_session \<times> live_action list \<times> session_error option \<times> bool" where
  "go_live env l =
     (case create_session (se_put env) (se_handle env) (lv_session l) of
        (s, Some e) \<Rightarrow> (l, [PutSession (build_request s)], Some OtherError, False)
      | (s, None) \<Rightarrow>
          (if update_ticker (lv_cfg l) = None then (l, [PutSession (build_request s)], None, True)
           else (let (l', as) = live_run (se_events env) (l\<lparr>lv_session := s\<rparr>)
                 in (l', PutSession (build_request s) # as, session_end (lv_cause l') (se_serve env), False))))"

definition serve_session :: "session_env \<Rightarrow> live_session \<Rightarrow> live_session \<times> live_action list \<times> session_error option \<times> bool" where
  "serve_session env l =
     (let (l, as) = live_run (filter before_create (se_waiting env)) l
      in case presence_update (se_presence env) of
           Inl e \<Rightarrow> (l, as, Some OtherError, False)
         | Inr heartbeat \<Rightarrow>
             (case lv_cause l of
                Some c \<Rightarrow> (l, as, Some (error_of_cause c), False)
              | None \<Rightarrow> (let (l, bs, err, panics) = go_live env l in (l, as @ bs, err, panics))))"

definition run_session ::
  "(string \<Rightarrow> url option) \<Rightarrow> (string \<Rightarrow> string) \<Rightarrow> session_env \<Rightarrow> rta \<Rightarrow> xuid \<Rightarrow> file_config \<Rightarrow>
   string \<Rightarrow> 64 word \<Rightarrow> player_state \<Rightarrow> session_outcome" where
  "run_session url_parse level env r x cfg session_id nether_id p =
     (case se_connection env of
        None \<Rightarrow> \<lparr>so_session_id = session_id, so_nether_id = nether_id, so_error = Some OtherError,
                 so_actions = [], so_players = p, so_panics = False\<rparr>
      | Some conn \<Rightarrow>
          (case listen url_parse (se_listen env) (relay_config cfg) nether_id of
             None \<Rightarrow> \<lparr>so_session_id = session_id, so_nether_id = 0, so_error = Some OtherError,
                      so_actions = [], so_players = p, so_panics = False\<rparr>
           | Some (t, nether_id, pmsg, advertised) \<Rightarrow>
               (let (p, s) = first_session level env x session_id conn pmsg nether_id cfg p;
                    (l, as, err, panics) = serve_session env
                       \<lparr>lv_cfg = cfg, lv_initial = conn, lv_session = s, lv_rta = r, lv_players = p,
                        lv_count_failing = False, lv_cause = None\<rparr>
                in \<lparr>so_session_id = xs_session_id s, so_nether_id = nether_id, so_error = err,
                    so_actions = as, so_players = lv_players l, so_panics = panics\<rparr>)))"

section \<open>A broadcast: generation after generation\<close>

text \<open>
  The loop of \<open>runBroadcast\<close> over \<open>runSession\<close>: one element per generation, with the flags that say
  whether the context is done when it returns or during the pause. The result is the documents
  that were put, in order, and whether the process panicked.
\<close>

fun broadcast_run ::
  "(string \<Rightarrow> url option) \<Rightarrow> (string \<Rightarrow> string) \<Rightarrow> xuid \<Rightarrow> file_config \<Rightarrow>
   (session_env \<times> rta \<times> bool \<times> bool) list \<Rightarrow> loop_state \<Rightarrow> player_state \<Rightarrow> live_action list \<times> bool" where
  "broadcast_run url_parse level x cfg [] st p = ([], False)"
| "broadcast_run url_parse level x cfg ((env, r, ends, ends_in_wait) # gs) st p =
     (let res = run_session url_parse level env r x cfg (lp_session_id st) (of_nat (lp_nethernet_id st)) p;
          (st', as) = loop_body st
            \<lparr>res_session_id = so_session_id res, res_nethernet_id = unat (so_nether_id res),
             res_error = so_error res, res_done = ends, res_done_in_wait = ends_in_wait\<rparr>
      in if so_panics res then (so_actions res, True)
         else if Exit \<in> set as then (so_actions res, False)
         else (let (bs, panics) = broadcast_run url_parse level x cfg gs st' (so_players res)
               in (so_actions res @ bs, panics)))"

end

