(* ===== verification/Session_Life.thy ===== *)
theory Session_Life
  imports Main_Session
begin

text \<open>
  What the sessions of \<open>main.go\<close> keep: the ids a broadcast publishes, the player count it shows, the
  connection id its documents carry, the transport checks and the allow-list of \<open>main\<close>.
\<close>

section \<open>What every put document keeps\<close>

definition players_ok :: "player_state \<Rightarrow> bool" where
  "players_ok p \<longleftrightarrow> (case ps_drift p of None \<Rightarrow> True | Some d \<Rightarrow> drift_inv d)"

definition live_ok :: "live_session \<Rightarrow> bool" where
  "live_ok l \<longleftrightarrow> players_ok (lv_players l) \<and> 1 \<le> wi_players (xs_cfg (lv_session l))"

definition same_ids :: "xbl_session \<Rightarrow> xbl_session \<Rightarrow> bool" where
  "same_ids s s' \<longleftrightarrow> xs_session_id s' = xs_session_id s \<and> xs_level_id s' = xs_level_id s \<and>
     xs_nether_id s' = xs_nether_id s \<and> xs_xuid s' = xs_xuid s"

definition good_put :: "xbl_session \<Rightarrow> live_action \<Rightarrow> bool" where
  "good_put s a \<longleftrightarrow>
     (case a of
        Reconnect \<Rightarrow> True
      | PutSession rq \<Rightarrow> rq_level_id rq = xs_level_id s \<and> rq_nether_id rq = xs_nether_id s \<and>
          rq_owner_id rq = xs_xuid s \<and> 1 \<le> rq_member_count rq)"

lemma same_ids_refl [simp]: "same_ids s s"
  by (simp add: same_ids_def)

lemma same_ids_trans: "same_ids s t \<Longrightarrow> same_ids t u \<Longrightarrow> same_ids s u"
  by (simp add: same_ids_def)

lemma same_ids_update [simp]:
  "same_ids s (set_connection_id c t) = same_ids s t" "same_ids s (set_world_info w t) = same_ids s t"
  "same_ids s (t\<lparr>xs_handle_id := h\<rparr>) = same_ids s t"
  by (simp_all add: same_ids_def set_connection_id_def set_world_info_def)

lemma good_put_same: "same_ids s t \<Longrightarrow> good_put t a \<Longrightarrow> good_put s a"
  by (auto simp: good_put_def same_ids_def split: live_action.splits)

lemma good_put_request: "1 \<le> wi_players (xs_cfg s) \<Longrightarrow> good_put s (PutSession (build_request s))"
  by (simp add: good_put_def build_request_def)

lemma advertised_positive:
  assumes "players_ok p" "current_world now moves cfg p = (p', w)"
  shows "players_ok p' \<and> 1 \<le> wi_players w"
proof (cases "ps_drift p")
  case None
  with assms show ?thesis
    by (auto simp: current_world_def advertised_players_def world_info_of_def players_ok_def)
next
  case (Some d)
  with assms(1) have i: "drift_inv (fst (drift_current now moves d))"
    by (simp add: players_ok_def drift_current_inv)
  then have "1 \<le> snd (drift_current now moves d)"
    by (simp add: drift_current_value drift_inv_def)
  with Some i assms(2) show ?thesis
    by (auto simp: current_world_def advertised_players_def world_info_of_def players_ok_def split: prod.splits)
qed

lemma publish_world_good:
  assumes "publish_world now moves l = (l', as)" "live_ok l"
  shows "live_ok l' \<and> same_ids (lv_session l) (lv_session l') \<and> list_all (good_put (lv_session l)) as"
proof -
  obtain p w where w: "current_world now moves (lv_cfg l) (lv_players l) = (p, w)"
    by (cases "current_world now moves (lv_cfg l) (lv_players l)")
  let ?s = "set_world_info w (lv_session l)"
  have "players_ok p" "1 \<le> wi_players w" using advertised_positive [OF _ w] assms(2) by (simp_all add: live_ok_def)
  moreover from this have "good_put (lv_session l) (PutSession (build_request ?s))"
    by (intro good_put_same [OF _ good_put_request]) (simp_all add: set_world_info_def same_ids_def)
  ultimately show ?thesis
    using assms(1) w by (auto simp: publish_world_def Let_def live_ok_def set_world_info_def same_ids_def)
qed

lemma refresh_nonces_ids:
  assumes "refresh_nonces nonce g q s = (s', pushed, err)"
  shows "same_ids s s' \<and> xs_cfg s' = xs_cfg s \<and> xs_connection_id s' = xs_connection_id s"
proof -
  have "same_ids s (fst (refresh_locked nonce a s)) \<and> xs_cfg (fst (refresh_locked nonce a s)) = xs_cfg s \<and>
    xs_connection_id (fst (refresh_locked nonce a s)) = xs_connection_id s" for a
    by (simp add: refresh_locked_def Let_def same_ids_def split: prod.split)
  with assms show ?thesis
    by (auto simp: refresh_nonces_def Let_def split: sum.splits prod.splits if_splits) (metis fst_conv)+
qed

lemma cancel_session_fields [simp]:
  "lv_session (cancel_session c l) = lv_session l" "lv_players (cancel_session c l) = lv_players l"
  "lv_initial (cancel_session c l) = lv_initial l" "lv_cfg (cancel_session c l) = lv_cfg l"
  "lv_cause (cancel_session c l) \<noteq> None"
  by (auto simp: cancel_session_def)

lemma live_step_good:
  assumes "live_step e l = (l', as)" "live_ok l"
  shows "live_ok l' \<and> same_ids (lv_session l) (lv_session l') \<and> list_all (good_put (lv_session l)) as"
proof (cases e)
  case (CountTick now moves backend answer)
  show ?thesis
  proof (cases "refresh_real_players backend (ps_real (lv_players l))")
    case (Pair res real)
    let ?l = "l\<lparr>lv_players := (lv_players l)\<lparr>ps_real := real\<rparr>, lv_count_failing := False\<rparr>"
    have "live_ok ?l" using assms(2) by (simp add: live_ok_def players_ok_def)
    from publish_world_good [OF _ this] assms CountTick Pair show ?thesis
      by (cases res) (auto simp: count_tick_def Let_def live_ok_def players_ok_def split: if_splits)
  qed
next
  case (UpdateTick now moves answer)
  obtain l1 as1 where p: "publish_world now moves l = (l1, as1)" by (cases "publish_world now moves l")
  from publish_world_good [OF p assms(2)] assms(1) UpdateTick p show ?thesis
    by (auto simp: update_tick_def Let_def good_put_def)
next
  case (ConnectionId cid answer)
  let ?s = "set_connection_id cid (lv_session l)"
  have "good_put (lv_session l) (PutSession (build_request ?s))"
    using assms(2) by (intro good_put_same [OF _ good_put_request]) (simp_all add: live_ok_def set_connection_id_def same_ids_def)
  with assms ConnectionId show ?thesis
    by (auto simp: on_connection_id_changed_def Let_def live_ok_def set_connection_id_def same_ids_def
        split: if_splits option.splits)
next
  case (MembersChanged nonce g q)
  obtain s pushed err where r: "refresh_nonces nonce g q (lv_session l) = (s, pushed, err)"
    by (cases "refresh_nonces nonce g q (lv_session l)")
  from refresh_nonces_ids [OF r] assms(2) have "good_put (lv_session l) (PutSession (build_request s))"
    by (intro good_put_same [OF _ good_put_request]) (simp_all add: live_ok_def)
  with refresh_nonces_ids [OF r] assms MembersChanged r show ?thesis
    by (auto simp: members_changed_def Let_def live_ok_def)
qed (use assms in \<open>auto simp: live_ok_def\<close>)

lemma live_run_good:
  assumes "live_run es l = (l', as)" "live_ok l"
  shows "live_ok l' \<and> same_ids (lv_session l) (lv_session l') \<and> list_all (good_put (lv_session l)) as"
  using assms
proof (induction es arbitrary: l as)
  case (Cons e es)
  obtain l1 as1 where one: "live_step e l = (l1, as1)" by (cases "live_step e l")
  obtain as2 where two: "live_run es l1 = (l', as2)" "as = as1 @ as2"
    using Cons.prems(1) one by (auto simp: Let_def split: prod.splits)
  note s = live_step_good [OF one Cons.prems(2)]
  with Cons.IH [OF two(1)] have i: "live_ok l'" "same_ids (lv_session l1) (lv_session l')"
    "list_all (good_put (lv_session l1)) as2" by simp_all
  with s have "list_all (good_put (lv_session l)) as2"
    by (auto simp: list_all_iff intro: good_put_same)
  with i s two(2) show ?case by (auto intro: same_ids_trans)
qed simp

lemma create_session_session:
  "create_session put handle s = (s', err) \<Longrightarrow> same_ids s s' \<and> xs_cfg s' = xs_cfg s \<and>
     xs_connection_id s' = xs_connection_id s"
  by (auto simp: create_session_def same_ids_def split: sum.splits)

lemma go_live_good:
  assumes "go_live env l = (l', as, err, panics)" "live_ok l"
  shows "live_ok l' \<and> same_ids (lv_session l) (lv_session l') \<and> list_all (good_put (lv_session l)) as"
proof -
  obtain s e where c: "create_session (se_put env) (se_handle env) (lv_session l) = (s, e)"
    by (cases "create_session (se_put env) (se_handle env) (lv_session l)")
  note same = create_session_session [OF c]
  have ok: "live_ok (l\<lparr>lv_session := s\<rparr>)" using same assms(2) by (simp add: live_ok_def)
  have put: "good_put (lv_session l) (PutSession (build_request s))"
    using same assms(2) by (intro good_put_same [OF _ good_put_request]) (simp_all add: live_ok_def)
  obtain l1 bs where r: "live_run (se_events env) (l\<lparr>lv_session := s\<rparr>) = (l1, bs)"
    by (cases "live_run (se_events env) (l\<lparr>lv_session := s\<rparr>)")
  from live_run_good [OF r ok] same have run: "live_ok l1" "same_ids (lv_session l) (lv_session l1)"
    "list_all (good_put (lv_session l)) bs"
    by (auto simp: list_all_iff intro: same_ids_trans good_put_same)
  show ?thesis
    using assms c r run put by (auto simp: go_live_def Let_def split: option.splits if_splits)
qed

lemma serve_session_good:
  assumes "serve_session env l = (l', as, err, panics)" "live_ok l"
  shows "live_ok l' \<and> same_ids (lv_session l) (lv_session l') \<and> list_all (good_put (lv_session l)) as"
proof -
  obtain l1 as1 where w: "live_run (filter before_create (se_waiting env)) l = (l1, as1)"
    by (cases "live_run (filter before_create (se_waiting env)) l")
  note wait = live_run_good [OF w assms(2)]
  obtain l2 bs e p where g: "go_live env l1 = (l2, bs, e, p)" by (cases "go_live env l1") auto
  from go_live_good [OF g] wait have live: "live_ok l2" "same_ids (lv_session l) (lv_session l2)"
    "list_all (good_put (lv_session l)) bs"
    by (auto simp: list_all_iff intro: same_ids_trans good_put_same)
  show ?thesis
    using assms(1) w g wait live by (auto simp: serve_session_def Let_def split: sum.splits option.splits)
qed

lemma first_session_good:
  assumes "first_session level env x sid conn pmsg nid cfg p = (p', s)" "players_ok p"
  shows "players_ok p' \<and> 1 \<le> wi_players (xs_cfg s) \<and> xs_connection_id s = conn \<and> xs_nether_id s = nid \<and>
    xs_session_id s = (if sid = '''' then se_uuid env else sid) \<and> xs_level_id s = level (xs_session_id s) \<and> xs_xuid s = x"
proof -
  define q where "q = (if advertises_real_players cfg (ps_drift p)
    then p\<lparr>ps_real := snd (refresh_real_players (se_backend env) (ps_real p))\<rparr> else p)"
  have q: "players_ok q" using assms(2) by (simp add: q_def players_ok_def)
  obtain p1 w where w: "current_world (se_now env) (se_moves env) cfg q = (p1, w)"
    by (cases "current_world (se_now env) (se_moves env) cfg q")
  from advertised_positive [OF q w] assms(1) w show ?thesis
    by (auto simp: first_session_def Let_def new_session_def set_world_info_def simp flip: q_def)
qed

text \<open>One generation: the ids it keeps and the documents it puts.\<close>

definition puts_for :: "(string \<Rightarrow> string) \<Rightarrow> xuid \<Rightarrow> string \<Rightarrow> 64 word \<Rightarrow> live_action \<Rightarrow> bool" where
  "puts_for level x sid nid a \<longleftrightarrow>
     (case a of
        Reconnect \<Rightarrow> True
      | PutSession rq \<Rightarrow> rq_level_id rq = level sid \<and> rq_nether_id rq = nid \<and>
          rq_owner_id rq = x \<and> 1 \<le> rq_member_count rq)"

lemma run_session_good:
  assumes "res = run_session url_parse level env r x cfg sid nid p" "players_ok p" "se_uuid env \<noteq> ''''"
  shows "players_ok (so_players res) \<and> (sid \<noteq> '''' \<longrightarrow> so_session_id res = sid) \<and>
    list_all (puts_for level x (so_session_id res) (so_nether_id res)) (so_actions res) \<and>
    (so_actions res \<noteq> [] \<longrightarrow> so_session_id res \<noteq> '''')"
proof (cases "se_connection env")
  case None
  with assms show ?thesis by (simp add: run_session_def)
next
  case (Some conn)
  show ?thesis
  proof (cases "listen url_parse (se_listen env) (relay_config cfg) nid")
    case None
    with Some assms show ?thesis by (simp add: run_session_def)
  next
    case l: (Some lst)
    obtain t kept pmsg adv where lst: "lst = (t, kept, pmsg, adv)" by (cases lst)
    obtain q s where f: "first_session level env x sid conn pmsg kept cfg p = (q, s)"
      by (cases "first_session level env x sid conn pmsg kept cfg p")
    note first = first_session_good [OF f assms(2)]
    let ?l = "\<lparr>lv_cfg = cfg, lv_initial = conn, lv_session = s, lv_rta = r, lv_players = q,
      lv_count_failing = False, lv_cause = None\<rparr>"
    obtain l2 as err panics where g: "serve_session env ?l = (l2, as, err, panics)"
      by (cases "serve_session env ?l") auto
    have "live_ok ?l" using first by (simp add: live_ok_def)
    from serve_session_good [OF g this] have "live_ok l2" "list_all (good_put s) as" by simp_all
    moreover have "res = \<lparr>so_session_id = xs_session_id s, so_nether_id = kept, so_error = err,
        so_actions = as, so_players = lv_players l2, so_panics = panics\<rparr>"
      using assms(1) Some l lst f g by (simp add: run_session_def)
    moreover have "puts_for level x (xs_session_id s) kept a" if "good_put s a" for a
      using that first by (auto simp: good_put_def puts_for_def split: live_action.splits)
    ultimately show ?thesis
      using first assms(3) by (auto simp: live_ok_def list_all_iff)
  qed
qed

lemma loop_body_ids:
  "loop_body st r = (st', as) \<Longrightarrow> lp_session_id st' = res_session_id r \<and> lp_nethernet_id st' = res_nethernet_id r"
  by (auto simp: loop_body_def Let_def split: if_splits)

lemma broadcast_puts:
  assumes "broadcast_run url_parse level x cfg gs st p = (as, panics)" "players_ok p"
    and "list_all (\<lambda>(env, r, e, w). se_uuid env \<noteq> '''') gs"
  shows "\<exists>sid. (lp_session_id st \<noteq> '''' \<longrightarrow> sid = lp_session_id st) \<and>
    list_all (\<lambda>a. \<exists>nid. puts_for level x sid nid a) as"
  using assms
proof (induction url_parse level x cfg gs st p arbitrary: as panics rule: broadcast_run.induct)
  case (2 url_parse level x cfg env r ends ends_in_wait gs st p)
  define res where "res = run_session url_parse level env r x cfg (lp_session_id st) (of_nat (lp_nethernet_id st)) p"
  obtain st' bs where body: "loop_body st
      \<lparr>res_session_id = so_session_id res, res_nethernet_id = unat (so_nether_id res),
       res_error = so_error res, res_done = ends, res_done_in_wait = ends_in_wait\<rparr> = (st', bs)"
    by (cases "loop_body st \<lparr>res_session_id = so_session_id res, res_nethernet_id = unat (so_nether_id res),
       res_error = so_error res, res_done = ends, res_done_in_wait = ends_in_wait\<rparr>")
  have fresh: "se_uuid env \<noteq> ''''" using "2.prems"(3) by simp
  note good = run_session_good [OF res_def "2.prems"(2) fresh]
  have now: "list_all (\<lambda>a. \<exists>nid. puts_for level x (so_session_id res) nid a) (so_actions res)"
    using good by (auto simp: list_all_iff)
  show ?case
  proof (cases "so_panics res \<or> Exit \<in> set bs")
    case True
    then have "as = so_actions res" using "2.prems"(1) body
      by (auto simp: Let_def simp flip: res_def split: if_splits)
    with good now show ?thesis by (intro exI [of _ "so_session_id res"]) auto
  next
    case False
    obtain cs q where rest: "broadcast_run url_parse level x cfg gs st' (so_players res) = (cs, q)"
      by (cases "broadcast_run url_parse level x cfg gs st' (so_players res)")
    have as: "as = so_actions res @ cs"
      using "2.prems"(1) body rest False by (auto simp: Let_def simp flip: res_def)
    obtain sid where sid: "so_session_id res \<noteq> '''' \<longrightarrow> sid = so_session_id res"
      "list_all (\<lambda>a. \<exists>nid. puts_for level x sid nid a) cs"
      using "2.IH" [OF res_def refl body [symmetric] _ _ rest] False good "2.prems"(3) loop_body_ids [OF body]
      by auto
    show ?thesis
    proof (cases "so_session_id res = ''''")
      case True
      with good have "so_actions res = []" by auto
      with as sid good True show ?thesis by (intro exI [of _ sid]) auto
    next
      case False
      with as sid now good show ?thesis by (intro exI [of _ sid]) auto
    qed
  qed
qed simp

section \<open>The NetherNet id across generations\<close>

definition websocket_comes_up :: "(string \<Rightarrow> url option) \<Rightarrow> file_config \<Rightarrow> session_env \<Rightarrow> bool" where
  "websocket_comes_up url_parse cfg env \<longleftrightarrow>
     start_websocket url_parse (se_listen env) (relay_config cfg) no_transports \<noteq> None \<and> ln_minted (se_listen env) \<noteq> 0"

lemma listen_keeps_id:
  assumes "start_websocket url_parse env cfg no_transports \<noteq> None"
  shows "\<exists>t pmsg adv. listen url_parse env cfg nid = Some (t, if nid = 0 then ln_minted env else nid, pmsg, adv)"
proof -
  obtain t where t: "start_websocket url_parse env cfg no_transports = Some t" using assms by auto
  from start_websocket_up [OF this] have up: "\<not> (\<not> tr_ws_listener t \<and> tr_brokers t = [])"
    by (auto simp: ws_up_def)
  show ?thesis
  proof (cases "start_messaging url_parse env cfg t")
    case None
    with t up show ?thesis by (auto simp: listen_def)
  next
    case (Some t')
    have "\<not> (\<not> tr_ws_listener t' \<and> tr_brokers t' = [])"
      using Some up by (auto simp: start_messaging_def attach_def split: if_splits sum.splits)
    with t Some show ?thesis by (auto simp: listen_def Let_def)
  qed
qed

lemma run_session_nether_id:
  assumes "res = run_session url_parse level env r x cfg sid nid p" "websocket_comes_up url_parse cfg env"
  shows "(nid \<noteq> 0 \<longrightarrow> so_nether_id res = nid) \<and> (so_actions res \<noteq> [] \<longrightarrow> so_nether_id res \<noteq> 0)"
proof (cases "se_connection env")
  case None
  with assms show ?thesis by (simp add: run_session_def)
next
  case (Some conn)
  obtain t pmsg adv where l: "listen url_parse (se_listen env) (relay_config cfg) nid =
      Some (t, if nid = 0 then ln_minted (se_listen env) else nid, pmsg, adv)"
    using listen_keeps_id assms(2) unfolding websocket_comes_up_def by blast
  have "so_nether_id res = (if nid = 0 then ln_minted (se_listen env) else nid)"
    using assms(1) Some l by (simp add: run_session_def split: prod.split)
  with assms(2) show ?thesis by (simp add: websocket_comes_up_def)
qed

lemma broadcast_nether_id:
  assumes "broadcast_run url_parse level x cfg gs st p = (as, panics)" "players_ok p"
    and "list_all (\<lambda>(env, r, e, w). se_uuid env \<noteq> '''' \<and> websocket_comes_up url_parse cfg env) gs"
    and "lp_nethernet_id st < 18446744073709551616"
  shows "\<exists>nid. (lp_nethernet_id st \<noteq> 0 \<longrightarrow> nid = of_nat (lp_nethernet_id st)) \<and>
    list_all (\<lambda>a. \<exists>sid. puts_for level x sid nid a) as"
  using assms
proof (induction url_parse level x cfg gs st p arbitrary: as panics rule: broadcast_run.induct)
  case (2 url_parse level x cfg env r ends ends_in_wait gs st p)
  define nid where "nid = (of_nat (lp_nethernet_id st) :: 64 word)"
  have zero: "nid = 0 \<longleftrightarrow> lp_nethernet_id st = 0"
  proof -
    have "unat nid = lp_nethernet_id st"
      by (rule of_nat_inverse [OF nid_def [symmetric]]) (use "2.prems"(4) in simp)
    then show ?thesis by (metis unat_eq_zero)
  qed
  define res where "res = run_session url_parse level env r x cfg (lp_session_id st) (of_nat (lp_nethernet_id st)) p"
  obtain st' bs where body: "loop_body st
      \<lparr>res_session_id = so_session_id res, res_nethernet_id = unat (so_nether_id res),
       res_error = so_error res, res_done = ends, res_done_in_wait = ends_in_wait\<rparr> = (st', bs)"
    by (cases "loop_body st \<lparr>res_session_id = so_session_id res, res_nethernet_id = unat (so_nether_id res),
       res_error = so_error res, res_done = ends, res_done_in_wait = ends_in_wait\<rparr>")
  have env: "se_uuid env \<noteq> ''''" "websocket_comes_up url_parse cfg env" using "2.prems"(3) by simp_all
  note good = run_session_good [OF res_def "2.prems"(2) env(1)] run_session_nether_id [OF res_def env(2)]
  have now: "list_all (\<lambda>a. \<exists>sid. puts_for level x sid (so_nether_id res) a) (so_actions res)"
    using good by (auto simp: list_all_iff)
  show ?case
  proof (cases "so_panics res \<or> Exit \<in> set bs")
    case True
    then have "as = so_actions res" using "2.prems"(1) body
      by (auto simp: Let_def simp flip: res_def split: if_splits)
    with good now zero show ?thesis by (intro exI [of _ "so_nether_id res"]) (auto simp: nid_def)
  next
    case False
    obtain cs q where rest: "broadcast_run url_parse level x cfg gs st' (so_players res) = (cs, q)"
      by (cases "broadcast_run url_parse level x cfg gs st' (so_players res)")
    have as: "as = so_actions res @ cs"
      using "2.prems"(1) body rest False by (auto simp: Let_def simp flip: res_def)
    have small: "lp_nethernet_id st' < 18446744073709551616"
      using loop_body_ids [OF body] unsigned_less [of "so_nether_id res"] by simp
    have "\<not> so_panics res" "Exit \<notin> set bs" using False by simp_all
    moreover have "players_ok (so_players res)"
      "list_all (\<lambda>(env, r, e, w). se_uuid env \<noteq> '''' \<and> websocket_comes_up url_parse cfg env) gs"
      using good "2.prems"(3) by simp_all
    ultimately obtain n where n0: "lp_nethernet_id st' \<noteq> 0 \<longrightarrow> n = word_of_nat (lp_nethernet_id st')"
      and n1: "list_all (\<lambda>a. \<exists>sid. puts_for level x sid n a) cs"
      using "2.IH" [OF res_def refl body [symmetric] _ _ rest _ _ small] by blast
    have "lp_nethernet_id st' = unat (so_nether_id res)" using loop_body_ids [OF body] by simp
    with n0 have "so_nether_id res \<noteq> 0 \<longrightarrow> n = so_nether_id res"
      by (simp add: unat_eq_zero)
    note n = this n1
    show ?thesis
    proof (cases "so_nether_id res = 0")
      case True
      with good have "so_actions res = []" by auto
      with as n good True zero show ?thesis by (intro exI [of _ n]) (auto simp: nid_def)
    next
      case False
      with as n now good zero show ?thesis by (intro exI [of _ n]) (auto simp: nid_def)
    qed
  qed
qed simp

section \<open>Connection ids while a session is live\<close>

fun connection_events :: "live_event list \<Rightarrow> string list" where
  "connection_events [] = []"
| "connection_events (ConnectionId cid answer # es) = cid # connection_events es"
| "connection_events (e # es) = connection_events es"

definition carries :: "string \<Rightarrow> live_action \<Rightarrow> bool" where
  "carries cid a \<longleftrightarrow> (case a of Reconnect \<Rightarrow> True | PutSession rq \<Rightarrow> rq_connection rq = cid)"

lemma build_request_connection [simp]: "rq_connection (build_request s) = xs_connection_id s"
  by (simp add: build_request_def)

lemma publish_world_connection:
  "publish_world now moves l = (l', as) \<Longrightarrow>
   xs_connection_id (lv_session l') = xs_connection_id (lv_session l) \<and> lv_cause l' = lv_cause l \<and>
   lv_initial l' = lv_initial l \<and> list_all (carries (xs_connection_id (lv_session l))) as"
  by (auto simp: publish_world_def Let_def set_world_info_def carries_def split: prod.splits)

lemma live_step_connection:
  assumes "live_step e l = (l', as)" "connection_events [e] = []"
  shows "xs_connection_id (lv_session l') = xs_connection_id (lv_session l) \<and>
    (lv_cause l \<noteq> None \<longrightarrow> lv_cause l' \<noteq> None) \<and> list_all (carries (xs_connection_id (lv_session l))) as"
proof (cases e)
  case (CountTick now moves backend answer)
  obtain res real where r: "refresh_real_players backend (ps_real (lv_players l)) = (res, real)"
    by (cases "refresh_real_players backend (ps_real (lv_players l))")
  show ?thesis
    using assms(1) CountTick r publish_world_connection
    by (cases res) (fastforce simp: count_tick_def Let_def split: if_splits)+
next
  case (UpdateTick now moves answer)
  obtain l1 as1 where p: "publish_world now moves l = (l1, as1)" by (cases "publish_world now moves l")
  from publish_world_connection [OF p] assms(1) UpdateTick p show ?thesis
    by (auto simp: update_tick_def Let_def carries_def)
next
  case (MembersChanged nonce g q)
  obtain s pushed err where r: "refresh_nonces nonce g q (lv_session l) = (s, pushed, err)"
    by (cases "refresh_nonces nonce g q (lv_session l)")
  from refresh_nonces_ids [OF r] assms(1) MembersChanged r show ?thesis
    by (auto simp: members_changed_def Let_def carries_def)
qed (use assms in \<open>auto simp: cancel_session_def\<close>)

lemma live_run_connection:
  assumes "live_run es l = (l', as)" "connection_events es = []"
  shows "xs_connection_id (lv_session l') = xs_connection_id (lv_session l) \<and>
    (lv_cause l \<noteq> None \<longrightarrow> lv_cause l' \<noteq> None) \<and> list_all (carries (xs_connection_id (lv_session l))) as"
  using assms
proof (induction es arbitrary: l as)
  case (Cons e es)
  obtain l1 as1 where one: "live_step e l = (l1, as1)" by (cases "live_step e l")
  obtain as2 where two: "live_run es l1 = (l', as2)" "as = as1 @ as2"
    using Cons.prems(1) one by (auto simp: Let_def split: prod.splits)
  have none: "connection_events [e] = []" "connection_events es = []"
    using Cons.prems(2) by (cases e; simp)+
  from live_step_connection [OF one none(1)] Cons.IH [OF two(1) none(2)] two(2) show ?case by auto
qed simp

section \<open>Properties\<close>

text \<open>
  C8: across any number of generations of a broadcast, every session document names the same
  level and owner and shows at least one player, whatever the services answer: a rebuilt session
  never appears as another world, and never as an empty one.
\<close>

theorem broadcast_keeps_its_session:
  assumes "broadcast_run url_parse level x cfg gs loop_init p = (as, panics)" "players_ok p"
    and "list_all (\<lambda>(env, r, e, w). se_uuid env \<noteq> '''') gs"
  shows "\<exists>lid. \<forall>rq. PutSession rq \<in> set as \<longrightarrow>
    rq_level_id rq = lid \<and> rq_owner_id rq = x \<and> 1 \<le> rq_member_count rq"
proof -
  from broadcast_puts [OF assms] obtain sid where "list_all (\<lambda>a. \<exists>nid. puts_for level x sid nid a) as" by blast
  then show ?thesis
    by (intro exI [of _ "level sid"]) (auto simp: list_all_iff puts_for_def)
qed

text \<open>
  As long as websocket signaling comes up in every generation, all documents also carry one
  NetherNet id, so a client that remembers it still finds the broadcast after a rebuild.
\<close>

theorem broadcast_keeps_nether_id:
  assumes "broadcast_run url_parse level x cfg gs loop_init p = (as, panics)" "players_ok p"
    and "list_all (\<lambda>(env, r, e, w). se_uuid env \<noteq> '''' \<and> websocket_comes_up url_parse cfg env) gs"
  shows "\<exists>nid. \<forall>rq. PutSession rq \<in> set as \<longrightarrow> rq_nether_id rq = nid"
proof -
  have "lp_nethernet_id loop_init < 18446744073709551616" by (simp add: loop_init_def)
  from broadcast_nether_id [OF assms this] obtain nid where
    "list_all (\<lambda>a. \<exists>sid. puts_for level x sid nid a) as" by blast
  then show ?thesis
    by (intro exI [of _ nid]) (auto simp: list_all_iff puts_for_def)
qed


text \<open>
  The session is renewed five minutes before its token ends when it is valid for at least six
  more, and otherwise after a minute: the pause before a renewal is never shorter.
\<close>

theorem renewal_in_time:
  assumes "in_int64 (valid_until - now)"
  shows "minute \<le> renew_in now valid_until '''' \<and>
    (6 * minute \<le> valid_until - now \<longrightarrow> now + renew_in now valid_until '''' + 5 * minute = valid_until)"
proof -
  have "time_sub valid_until now = valid_until - now" using assms by (simp add: time_sub_def)
  moreover have "wrap64 (valid_until - now - renew_margin) = valid_until - now - renew_margin"
    if "minute \<le> valid_until - now - renew_margin"
    using assms that by (intro wrap64_id) (auto simp: in_int64_def renew_margin_def minute_def second_def min_int64_def max_int64_def)
  ultimately show ?thesis
    by (auto simp: renew_in_def Let_def renew_margin_def)
qed

theorem renewal_in_time_witness:
  "renew_in 0 (4 * hour) '''' = 4 * hour - 5 * minute"
proof -
  have "in_int64 (4 * hour - 0)" by (simp add: in_int64_def hour_def minute_def second_def min_int64_def max_int64_def)
  from renewal_in_time [OF this] show ?thesis by (simp add: hour_def minute_def second_def)
qed

section \<open>Starting and the transport\<close>

lemma equal_fold_ascii:
  assumes "list_all (\<lambda>c. (of_char c :: nat) < 128 \<and> c \<noteq> CHR ''k'' \<and> c \<noteq> CHR ''i'') (to_lower s)"
  shows "fold_case s = to_lower s"
  using assms
proof (induction s rule: to_lower.induct)
  case (2 c s)
  have low: "ascii_lower (CHR 0xC5) = CHR 0xC5" by code_simp
  show ?case
  proof (cases "prefix [CHR 0xE2, CHR 0x84, CHR 0xAA] (c # s) \<or> prefix [CHR 0xC4, CHR 0xB0] (c # s)")
    case True
    with "2.prems" show ?thesis by (auto split: if_splits)
  next
    case False
    then have t: "to_lower (c # s) = ascii_lower c # to_lower s" by auto
    have "\<not> prefix [CHR 0xC5, CHR 0xBF] (c # s)"
      using "2.prems" t low by auto
    with False have f: "fold_case (c # s) = ascii_lower c # fold_case s" by auto
    have "fold_case s = to_lower s"
      by (rule "2.IH"(3)) (use False "2.prems" t in auto)
    with f t show ?thesis by (simp only:)
  qed
qed simp

lemma norelay_fold:
  assumes "to_lower s \<in> {''nethernet'', ''nethernet-norelay''}"
  shows "equal_fold s ''nethernet-norelay'' \<longleftrightarrow> to_lower s = ''nethernet-norelay''"
proof -
  have "list_all (\<lambda>c. (of_char c :: nat) < 128 \<and> c \<noteq> CHR ''k'' \<and> c \<noteq> CHR ''i'') (to_lower s)"
    using assms by (auto simp: of_char_def)
  from equal_fold_ascii [OF this] have "fold_case s = to_lower s" .
  moreover have "fold_case ''nethernet-norelay'' = ''nethernet-norelay''" by code_simp
  ultimately show ?thesis by (simp add: equal_fold_def)
qed

text \<open>
  A configuration that \<open>main\<close> accepts never fails later because of its transport: the address
  is one that the listener and the dialer accept, the transport is known, no relayed player is
  sent down a transport that does not dial, and direct-IP is off where nothing relays.
\<close>

theorem accepted_transport_works:
  assumes "check_transport url_parse cfg = check" "startup_ok check"
  shows "(backend_bypasses_relay (relay_config cfg) \<longleftrightarrow> (\<exists>a. check = NoRelay a)) \<and>
    (backend_bypasses_relay (relay_config cfg) \<longrightarrow> \<not> relay_direct_ip cfg) \<and>
    (backend_speaks_nethernet (relay_config cfg) \<longrightarrow>
       (\<exists>a. normalize_nethernet_address url_parse (nethernet_backend_address cfg) = Inr a)) \<and>
    (\<not> backend_bypasses_relay (relay_config cfg) \<longrightarrow>
       dial_backend raknet_dial nethernet_dial mint (relay_config cfg) \<notin> {Inl DoesNotDial} \<union> range (\<lambda>t. Inl (UnknownTransport t)))"
proof -
  let ?t = "trim_space (backend_transport cfg)"
  note defs = check_transport_def startup_ok_def relay_config_def backend_bypasses_relay_def
    backend_speaks_nethernet_def backend_transport_name_def Let_def
  have fold: "to_lower ?t = ''nethernet'' \<Longrightarrow> \<not> equal_fold ?t ''nethernet-norelay''"
    "to_lower ?t = ''nethernet-norelay'' \<Longrightarrow> equal_fold ?t ''nethernet-norelay''"
    using norelay_fold [of ?t] by simp_all
  consider "to_lower ?t \<in> {'''', ''raknet''}"
    | a where "to_lower ?t = ''nethernet''" "normalize_nethernet_address url_parse (nethernet_backend_address cfg) = Inr a"
      "check = RelayNethernet a"
    | a where "to_lower ?t = ''nethernet-norelay''" "normalize_nethernet_address url_parse (nethernet_backend_address cfg) = Inr a"
      "check = NoRelay a" "\<not> relay_direct_ip cfg"
    using assms fold by (auto simp: check_transport_def startup_ok_def Let_def split: if_splits sum.splits)
  then show ?thesis
  proof cases
    case 1
    with assms show ?thesis by (auto simp: defs dial_backend_def split: option.split)
  next
    case 2
    then show ?thesis by (auto simp: defs dial_backend_def split: option.split)
  next
    case 3
    then show ?thesis by (auto simp: defs)
  qed
qed

theorem accepted_transport_works_witness:
  "\<not> backend_bypasses_relay (relay_config default_config) \<and>
   dial_backend (\<lambda>a. Some a) (\<lambda>a k. None) None (relay_config default_config) \<noteq>
     (Inl DoesNotDial :: dial_error + string \<times> nat option)"
proof -
  have "to_lower (trim_space ''raknet'') = ''raknet''" by code_simp
  then have c: "check_transport (\<lambda>a. None) default_config = RelayRaknet ''''" and "\<not> backend_bypasses_relay (relay_config default_config)"
    by (simp_all add: check_transport_def default_config_def backend_bypasses_relay_def backend_transport_name_def relay_config_def)
  moreover have "startup_ok (RelayRaknet '''')" by (simp add: startup_ok_def)
  ultimately show ?thesis
    using accepted_transport_works [OF c, of "\<lambda>a. Some a" "\<lambda>a k. None" "None :: nat option option"] by auto
qed

text \<open>
  With an allow-list in the configuration, whoever the network lets log in, only a player on
  the list is relayed or reported as a join.
\<close>

theorem only_listed_players_join:
  assumes "re_allow env = allow_xuid cfg" "allowed_xuids cfg \<noteq> []"
    and "OnJoin x name \<in> set (handle_conn env) \<or> RelayPackets \<in> set (handle_conn env)"
  shows "\<exists>y n. re_login env = Some (y, n) \<and> y \<in> set (allowed_xuids cfg) \<and> y \<noteq> ''''"
  using assms
  by (auto simp: handle_conn_def allow_xuid_def split: option.splits if_splits)

theorem only_listed_players_join_witness:
  "RelayPackets \<in> set (handle_conn (example_relay_env\<lparr>re_allow := allow_xuid (default_config\<lparr>allowed_xuids := [''5'']\<rparr>)\<rparr>)) \<and>
   (\<exists>y n. re_login example_relay_env = Some (y, n) \<and> y \<in> {''5''})"
proof -
  let ?cfg = "default_config\<lparr>allowed_xuids := [''5'']\<rparr>"
  let ?env = "example_relay_env\<lparr>re_allow := allow_xuid ?cfg\<rparr>"
  have r: "RelayPackets \<in> set (handle_conn ?env)"
    by (simp add: handle_conn_def relay_session_def example_relay_env_def allow_xuid_def)
  from only_listed_players_join [of ?env ?cfg, OF _ _ disjI2 [OF r]] r show ?thesis by simp
qed

text \<open>
  A session that goes live panics exactly when its update interval is not a positive number
  of nanoseconds in 64 bits: \<open>time.NewTicker\<close> is given the setting as it is, although the player
  drift replaces the same setting by thirty seconds.
\<close>

theorem update_interval_panics:
  assumes "create_session (se_put env) (se_handle env) (lv_session l) = (s, None)"
    and "new_player_count_drift (lv_cfg l) now = Some d"
  shows "(snd (snd (snd (go_live env l))) \<longleftrightarrow> wrap64 (update_interval_seconds (lv_cfg l) * second) \<le> 0) \<and>
    (snd (snd (snd (go_live env l))) \<longrightarrow> d_interval d = 30 * second)"
proof -
  have "snd (snd (snd (go_live env l))) \<longleftrightarrow> wrap64 (update_interval_seconds (lv_cfg l) * second) \<le> 0"
    using assms(1) by (auto simp: go_live_def update_ticker_def new_ticker_def Let_def split: prod.splits)
  moreover have "d_interval d = 30 * second" if "wrap64 (update_interval_seconds (lv_cfg l) * second) \<le> 0"
    using assms(2) that by (auto simp: new_player_count_drift_def Let_def split: option.splits if_splits)
  ultimately show ?thesis by blast
qed

definition example_live :: "file_config \<Rightarrow> live_session" where
  "example_live cfg =
     \<lparr>lv_cfg = cfg, lv_initial = ''c'', lv_session = example_session, lv_rta = new_rta ''1'',
      lv_players = \<lparr>ps_real = 1, ps_drift = None\<rparr>, lv_count_failing = False, lv_cause = None\<rparr>"

definition example_session_env :: session_env where
  "example_session_env =
     \<lparr>se_now = 0, se_moves = (\<lambda>i. 0), se_connection = Some ''c'',
      se_listen = \<lparr>ln_minted = 5, ln_ws_token = True, ln_ws_dial = True, ln_ws_listen = True, ln_msg_token = False,
                   ln_msg_dial = False, ln_msg_listen = False, ln_msg_id = ''''\<rparr>,
      se_backend = Some 3, se_uuid = ''u'', se_subscription = ''v'', se_presence = Some (200, ''''), se_waiting = [],
      se_put = Answer 200 (Some ()), se_handle = Answer 201 (Some ''h''), se_events = [], se_serve = ServeFailed\<rparr>"

lemma example_create:
  "create_session (se_put example_session_env) (se_handle example_session_env) s = (s\<lparr>xs_handle_id := ''h''\<rparr>, None)"
  by (simp add: example_session_env_def create_session_def put_session_def expect_def)

theorem update_interval_panics_witness:
  "snd (snd (snd (go_live example_session_env (example_live (example_drift_config\<lparr>update_interval_seconds := 0\<rparr>)))))"
proof -
  let ?cfg = "example_drift_config\<lparr>update_interval_seconds := 0\<rparr>"
  have "new_player_count_drift ?cfg 0 = Some \<lparr>d_min = 5, d_max = 19, d_max_step = 2,
     d_interval = 30 * second, d_value = 12, d_last = 0\<rparr>" by code_simp
  then have d: "new_player_count_drift (lv_cfg (example_live ?cfg)) 0 = Some \<lparr>d_min = 5, d_max = 19, d_max_step = 2,
     d_interval = 30 * second, d_value = 12, d_last = 0\<rparr>" by (simp add: example_live_def)
  from update_interval_panics [OF example_create d] show ?thesis by (simp add: example_live_def wrap64_def)
qed

lemma example_broadcast:
  "\<exists>as panics rq. broadcast_run (\<lambda>a. None) (\<lambda>s. s) ''1'' default_config
      [(example_session_env, new_rta ''1'', False, False), (example_session_env\<lparr>se_uuid := ''w''\<rparr>, new_rta ''1'', True, False)]
      loop_init \<lparr>ps_real = 1, ps_drift = None\<rparr> = (as, panics) \<and> PutSession rq \<in> set as"
proof -
  have "\<not> backend_bypasses_relay (relay_config default_config)" by code_simp
  moreover have "update_ticker default_config = Some (30 * second)" by code_simp
  ultimately show ?thesis
    by (simp add: run_session_def example_session_env_def listen_def start_websocket_def start_messaging_def attach_def
        no_transports_def first_session_def current_world_def advertised_players_def serve_session_def go_live_def
        presence_update_def default_heartbeat_def create_session_def put_session_def expect_def Let_def
        session_end_def loop_body_def loop_init_def split: prod.split) blast
qed

theorem broadcast_keeps_its_session_witness:
  "\<exists>as panics rq lid. broadcast_run (\<lambda>a. None) (\<lambda>s. s) ''1'' default_config
      [(example_session_env, new_rta ''1'', False, False), (example_session_env\<lparr>se_uuid := ''w''\<rparr>, new_rta ''1'', True, False)]
      loop_init \<lparr>ps_real = 1, ps_drift = None\<rparr> = (as, panics) \<and> PutSession rq \<in> set as \<and> rq_level_id rq = lid"
proof -
  obtain as panics rq where r: "broadcast_run (\<lambda>a. None) (\<lambda>s. s) ''1'' default_config
      [(example_session_env, new_rta ''1'', False, False), (example_session_env\<lparr>se_uuid := ''w''\<rparr>, new_rta ''1'', True, False)]
      loop_init \<lparr>ps_real = 1, ps_drift = None\<rparr> = (as, panics)" "PutSession rq \<in> set as"
    using example_broadcast by blast
  have "players_ok \<lparr>ps_real = 1, ps_drift = None\<rparr>" by (simp add: players_ok_def)
  from broadcast_keeps_its_session [OF r(1) this] r show ?thesis by (auto simp: example_session_env_def)
qed

theorem broadcast_keeps_nether_id_witness:
  "\<exists>as panics rq nid. broadcast_run (\<lambda>a. None) (\<lambda>s. s) ''1'' default_config
      [(example_session_env, new_rta ''1'', False, False), (example_session_env\<lparr>se_uuid := ''w''\<rparr>, new_rta ''1'', True, False)]
      loop_init \<lparr>ps_real = 1, ps_drift = None\<rparr> = (as, panics) \<and> PutSession rq \<in> set as \<and> rq_nether_id rq = nid"
proof -
  obtain as panics rq where r: "broadcast_run (\<lambda>a. None) (\<lambda>s. s) ''1'' default_config
      [(example_session_env, new_rta ''1'', False, False), (example_session_env\<lparr>se_uuid := ''w''\<rparr>, new_rta ''1'', True, False)]
      loop_init \<lparr>ps_real = 1, ps_drift = None\<rparr> = (as, panics)" "PutSession rq \<in> set as"
    using example_broadcast by blast
  have "players_ok \<lparr>ps_real = 1, ps_drift = None\<rparr>" by (simp add: players_ok_def)
  moreover have "\<not> backend_bypasses_relay (relay_config default_config)" by code_simp
  then have "websocket_comes_up (\<lambda>a. None) default_config example_session_env"
    "websocket_comes_up (\<lambda>a. None) default_config (example_session_env\<lparr>se_uuid := ''w''\<rparr>)"
    by (simp_all add: websocket_comes_up_def example_session_env_def start_websocket_def attach_def)
  ultimately show ?thesis using broadcast_keeps_nether_id [OF r(1)] r by (auto simp: example_session_env_def)
qed


end
