(* ===== verification/Proxy_Safety.thy ===== *)
theory Proxy_Safety
  imports Proxy_Login Backend
begin

text \<open>
  What the login of \<open>Proxy_Login\<close> guarantees: an abstract login automaton that the read loop of a
  joining client refines, the part the encryption handshake plays, the packets that are kept for
  the relay, and the identity that reaches the backend.
\<close>

section \<open>The login of a joining client, abstractly\<close>

datatype login_phase = AwaitLogin | AwaitHandshake identity_data | LoggedIn identity_data

text \<open>\<open>accepted\<close>: a login request that the parser verifies as this identity.\<close>

definition accepted :: "proxy_lib \<Rightarrow> bool \<Rightarrow> string \<Rightarrow> identity_data \<Rightarrow> bool" where
  "accepted lib verifier request i \<longleftrightarrow>
     (case pl_parse_login lib verifier request of
        (identity, cd, auth, ok) \<Rightarrow> ok \<and> aur_authenticated auth \<and> identity = i)"

inductive login_step :: "proxy_lib \<Rightarrow> bool \<Rightarrow> bool \<Rightarrow> login_phase \<Rightarrow> game_packet \<Rightarrow> login_phase \<Rightarrow> bool"
  for lib verifier encrypt where
  step_settings: "login_step lib verifier encrypt s (RequestNetworkSettingsPk p) s"
| step_other: "login_step lib verifier encrypt s (OtherPk n) s"
| step_login: "accepted lib verifier request i \<Longrightarrow>
    login_step lib verifier encrypt s (LoginPk p request) (if encrypt then AwaitHandshake i else LoggedIn i)"
| step_handshake: "encrypt \<Longrightarrow> login_step lib verifier encrypt (AwaitHandshake i) ClientToServerHandshakePk (LoggedIn i)"

inductive login_run :: "proxy_lib \<Rightarrow> bool \<Rightarrow> bool \<Rightarrow> login_phase \<Rightarrow> game_packet list \<Rightarrow> login_phase \<Rightarrow> bool"
  for lib verifier encrypt where
  run_stop: "login_run lib verifier encrypt s [] s"
| run_more: "login_run lib verifier encrypt s pks t \<Longrightarrow> login_step lib verifier encrypt t pk u \<Longrightarrow>
    login_run lib verifier encrypt s (pks @ [pk]) u"

inductive_cases step_to_loggedE: "login_step lib verifier encrypt s pk (LoggedIn i)"
inductive_cases step_to_awaitE: "login_step lib verifier encrypt s pk (AwaitHandshake i)"
inductive_simps login_step_server_role [simp]:
  "login_step lib verifier encrypt s (PlayStatusPk st) t"
  "login_step lib verifier encrypt s (ServerToClientHandshakePk jwt) t"
  "login_step lib verifier encrypt s (NetworkSettingsPk alg th) t"
  "login_step lib verifier encrypt s (DisconnectPk msg) t"

lemma login_run_one: "login_step lib verifier encrypt s pk t \<Longrightarrow> login_run lib verifier encrypt s [pk] t"
  using run_more [OF run_stop] by fastforce

lemma login_run_append:
  "login_run lib verifier encrypt t qs u \<Longrightarrow> login_run lib verifier encrypt s ps t \<Longrightarrow>
   login_run lib verifier encrypt s (ps @ qs) u"
proof (induction rule: login_run.induct)
  case (run_more t qs u pk v)
  then have "login_run lib verifier encrypt s (ps @ qs) u" by simp
  from login_run.run_more [OF this run_more.hyps(2)] show ?case by simp
qed simp

text \<open>Whoever waits for the handshake, or is logged in, has sent a login that was accepted.\<close>

lemma login_run_accepted:
  "login_run lib verifier encrypt AwaitLogin pks t \<Longrightarrow>
   (\<forall>i. t = AwaitHandshake i \<longrightarrow> (\<exists>p request. LoginPk p request \<in> set pks \<and> accepted lib verifier request i)) \<and>
   (\<forall>i. t = LoggedIn i \<longrightarrow> (\<exists>p request. LoginPk p request \<in> set pks \<and> accepted lib verifier request i))"
proof (induction AwaitLogin pks t rule: login_run.induct)
  case run_stop
  then show ?case by simp
next
  case (run_more pks t pk u)
  from run_more(3,2) show ?case by (cases rule: login_step.cases) (fastforce split: if_splits)+
qed

lemma login_run_handshake:
  "login_run lib verifier True AwaitLogin pks t \<Longrightarrow>
   (\<forall>i. t = LoggedIn i \<longrightarrow> (\<exists>as bs p request. pks = as @ bs \<and> ClientToServerHandshakePk \<in> set bs \<and>
      LoginPk p request \<in> set as \<and> accepted lib verifier request i))"
proof (induction AwaitLogin pks t rule: login_run.induct)
  case run_stop
  then show ?case by simp
next
  case (run_more pks t pk u)
  show ?case
  proof (intro allI impI)
    fix i assume "u = LoggedIn i"
    with run_more(3) have "login_step lib verifier True t pk (LoggedIn i)" by simp
    then show "\<exists>as bs p request. pks @ [pk] = as @ bs \<and> ClientToServerHandshakePk \<in> set bs \<and>
      LoginPk p request \<in> set as \<and> accepted lib verifier request i"
    proof (cases rule: login_step.cases)
      case step_handshake
      with login_run_accepted [OF run_more(1)] obtain p request
        where "LoginPk p request \<in> set pks" "accepted lib verifier request i" by blast
      with step_handshake show ?thesis by (intro exI [of _ pks] exI [of _ "[pk]"]) auto
    next
      case (step_settings p)
      with run_more(2) obtain as bs p request where "pks = as @ bs" "ClientToServerHandshakePk \<in> set bs"
        "LoginPk p request \<in> set as" "accepted lib verifier request i" by blast
      then show ?thesis by (intro exI [of _ as] exI [of _ "bs @ [pk]"]) auto
    next
      case (step_other n)
      with run_more(2) obtain as bs p request where "pks = as @ bs" "ClientToServerHandshakePk \<in> set bs"
        "LoginPk p request \<in> set as" "accepted lib verifier request i" by blast
      then show ?thesis by (intro exI [of _ as] exI [of _ "bs @ [pk]"]) auto
    qed simp_all
  qed
qed

section \<open>The read loop refines it\<close>

definition phase_of :: "proxy_conn \<Rightarrow> login_phase" where
  "phase_of c = (if px_login_done c then LoggedIn (px_identity c)
                 else if px_raw_login c = None then AwaitLogin else AwaitHandshake (px_identity c))"

text \<open>
  A connection from a joining client that has to be authenticated, while the login is going on.
  Once its login was accepted, the codec works with the key agreed with the holder of that login.
\<close>

definition agreed_key :: "proxy_lib \<Rightarrow> bool \<Rightarrow> identity_data \<Rightarrow> string \<Rightarrow> bool" where
  "agreed_key lib verifier i k \<longleftrightarrow>
     (\<exists>request cd auth priv salt. pl_parse_login lib verifier request = (i, cd, auth, True) \<and>
        aur_authenticated auth \<and> shared_key lib (aur_public_key auth) priv salt = Some k)"

definition client_inv :: "proxy_lib \<Rightarrow> proxy_conn \<Rightarrow> bool" where
  "client_inv lib c \<longleftrightarrow> px_nethernet c \<and> px_auth_enabled c \<and>
     (px_encryption_enabled c \<longleftrightarrow> px_raw_login c \<noteq> None \<and> px_client_encryption c) \<and>
     (px_raw_login c \<noteq> None \<and> \<not> px_login_done c \<longrightarrow> px_client_encryption c) \<and>
     (px_login_done c \<longrightarrow> px_raw_login c \<noteq> None) \<and>
     (px_encryption_enabled c \<longrightarrow> (\<exists>k. co_key (px_dec c) = Some k \<and> agreed_key lib (px_verifier c) (px_identity c) k))"

definition same_config :: "proxy_conn \<Rightarrow> proxy_conn \<Rightarrow> bool" where
  "same_config c c' \<longleftrightarrow> px_nethernet c' = px_nethernet c \<and> px_auth_enabled c' = px_auth_enabled c \<and>
     px_verifier c' = px_verifier c \<and> px_client_encryption c' = px_client_encryption c"

lemma same_config_refl [simp]: "same_config c c"
  by (simp add: same_config_def)

lemma same_config_trans: "same_config c d \<Longrightarrow> same_config d e \<Longrightarrow> same_config c e"
  by (simp add: same_config_def)

lemmas codec_defs = write_packet_def enable_compression_def encrypt_with_def defer_remaining_def finish_def

lemma enable_encryption_ok:
  "enable_encryption lib public c = (Continue, c') \<Longrightarrow>
   \<exists>priv salt k jwt. shared_key lib public priv salt = Some k \<and>
     c' = c\<lparr>px_private_key := Some priv, px_salt := Some salt,
            px_out := px_out c @ [(px_enc c, ServerToClientHandshakePk jwt)],
            px_enc := (px_enc c)\<lparr>co_key := Some k\<rparr>, px_dec := (px_dec c)\<lparr>co_key := Some k\<rparr>,
            px_encryption_enabled := True\<rparr>"
  unfolding enable_encryption_def codec_defs Let_def
  by (clarsimp split: option.splits if_splits) (blast | fastforce)+

lemma handle_login_ok:
  assumes "handle_login lib p request c = (Continue, c')" "px_nethernet c" "px_auth_enabled c"
  shows "\<exists>identity cd auth. pl_parse_login lib (px_verifier c) request = (identity, cd, auth, True) \<and>
    aur_authenticated auth \<and>
    (if px_client_encryption c
     then (\<exists>priv salt k jwt. shared_key lib (aur_public_key auth) priv salt = Some k \<and>
       c' = c\<lparr>px_protocol := p, px_identity := identity, px_client_data := cd,
              px_private_key := Some priv, px_salt := Some salt,
              px_out := px_out c @ [(px_enc c, ServerToClientHandshakePk jwt)],
              px_enc := (px_enc c)\<lparr>co_key := Some k\<rparr>, px_dec := (px_dec c)\<lparr>co_key := Some k\<rparr>,
              px_encryption_enabled := True\<rparr>)
     else c' = c\<lparr>px_protocol := p, px_identity := identity, px_client_data := cd\<rparr>)"
proof -
  obtain identity cd auth ok where parse: "pl_parse_login lib (px_verifier c) request = (identity, cd, auth, ok)"
    by (cases "pl_parse_login lib (px_verifier c) request")
  from assms parse have "ok" "aur_authenticated auth"
    by (auto simp: handle_login_def Let_def split: if_splits)
  show ?thesis
  proof (cases "px_client_encryption c")
    case True
    with assms parse \<open>ok\<close> \<open>aur_authenticated auth\<close>
    have "enable_encryption lib (aur_public_key auth)
        (c\<lparr>px_protocol := p, px_identity := identity, px_client_data := cd\<rparr>) = (Continue, c')"
      by (auto simp: handle_login_def handle_client_to_server_handshake_def Let_def split: prod.splits verdict.splits)
    from enable_encryption_ok [OF this] True parse \<open>ok\<close> \<open>aur_authenticated auth\<close> show ?thesis by auto
  next
    case False
    with assms parse \<open>ok\<close> \<open>aur_authenticated auth\<close> show ?thesis
      by (simp add: handle_login_def handle_client_to_server_handshake_def Let_def)
  qed
qed

lemma enable_encryption_not_finished: "fst (enable_encryption lib public c) \<noteq> Finished"
  by (auto simp: enable_encryption_def codec_defs Let_def split: option.split)

lemma handle_login_not_finished: "fst (handle_login lib p request c) \<noteq> Finished"
  using enable_encryption_not_finished
  by (auto simp: handle_login_def handle_client_to_server_handshake_def Let_def
      split: prod.splits verdict.splits) (metis fst_conv)+

lemma handle_login_nethernet:
  assumes "handle_login lib p request c = (Continue, c')" "px_nethernet c" "px_auth_enabled c"
  shows "px_nethernet c'"
proof (cases "px_client_encryption c")
  case True
  with handle_login_ok [OF assms] obtain identity cd priv salt jwt k
    where "c' = c\<lparr>px_protocol := p, px_identity := identity, px_client_data := cd,
              px_private_key := Some priv, px_salt := Some salt,
              px_out := px_out c @ [(px_enc c, ServerToClientHandshakePk jwt)],
              px_enc := (px_enc c)\<lparr>co_key := Some k\<rparr>, px_dec := (px_dec c)\<lparr>co_key := Some k\<rparr>,
              px_encryption_enabled := True\<rparr>" by auto
  with assms(2) show ?thesis by simp
next
  case False
  with handle_login_ok [OF assms] assms(2) show ?thesis by auto
qed

lemma handle_packet_client:
  assumes "handle_packet lib th rest raw pk c = (v, c')" "client_inv lib c" "\<not> px_login_done c"
    "v = Continue \<or> v = Finished"
  shows "login_step lib (px_verifier c) (px_client_encryption c) (phase_of c) pk (phase_of c') \<and>
    client_inv lib c' \<and> same_config c c' \<and> (px_login_done c' \<longleftrightarrow> v = Finished)"
proof (cases pk)
  case (LoginPk p request)
  obtain c1 where log: "handle_login lib p request c = (Continue, c1)"
    and c': "(v, c') = (if px_encryption_enabled c1 then (Continue, c1\<lparr>px_raw_login := Some raw\<rparr>)
                        else finish rest (c1\<lparr>px_raw_login := Some raw\<rparr>))"
  proof -
    obtain v1 c1 where one: "handle_login lib p request c = (v1, c1)" by (cases "handle_login lib p request c")
    with assms(2) have "px_nethernet c1" if "v1 = Continue"
      using handle_login_nethernet [of lib p request c c1] that by (simp add: client_inv_def)
    moreover from one have "v1 \<noteq> Finished" using handle_login_not_finished [of lib p request c] by auto
    moreover have body: "handle_packet lib th rest raw pk c = (case handle_login lib p request c of
        (Continue, c) \<Rightarrow>
          (if px_nethernet c
           then (let c = c\<lparr>px_raw_login := Some raw\<rparr>
                 in if px_encryption_enabled c then (Continue, c) else finish rest c)
           else (Continue, c))
      | (v, c) \<Rightarrow> (v, c))"
      using LoginPk by (simp add: handle_packet_def check_client_packet_def)
    ultimately have "v1 = Continue" "px_nethernet c1" using one assms(1,4) by (cases v1; simp; blast)+
    moreover from this one assms(1) body
    have "(v, c') = (if px_encryption_enabled c1 then (Continue, c1\<lparr>px_raw_login := Some raw\<rparr>)
                        else finish rest (c1\<lparr>px_raw_login := Some raw\<rparr>))"
      by (simp add: Let_def)
    ultimately show thesis using one that by simp
  qed
  from handle_login_ok [OF log] assms(2) obtain identity cd auth
    where parse: "pl_parse_login lib (px_verifier c) request = (identity, cd, auth, True)" "aur_authenticated auth"
    and c1: "if px_client_encryption c
     then (\<exists>priv salt k jwt. shared_key lib (aur_public_key auth) priv salt = Some k \<and>
       c1 = c\<lparr>px_protocol := p, px_identity := identity, px_client_data := cd,
              px_private_key := Some priv, px_salt := Some salt,
              px_out := px_out c @ [(px_enc c, ServerToClientHandshakePk jwt)],
              px_enc := (px_enc c)\<lparr>co_key := Some k\<rparr>, px_dec := (px_dec c)\<lparr>co_key := Some k\<rparr>,
              px_encryption_enabled := True\<rparr>)
     else c1 = c\<lparr>px_protocol := p, px_identity := identity, px_client_data := cd\<rparr>"
    by (auto simp: client_inv_def)
  from parse have acc: "accepted lib (px_verifier c) request identity" by (simp add: accepted_def)
  note step = step_login [OF acc, where s = "phase_of c" and p = p and encrypt = "px_client_encryption c"]
  show ?thesis
  proof (cases "px_client_encryption c")
    case True
    with c1 obtain priv salt k jwt where key: "shared_key lib (aur_public_key auth) priv salt = Some k"
      and c1: "c1 = c\<lparr>px_protocol := p, px_identity := identity, px_client_data := cd,
              px_private_key := Some priv, px_salt := Some salt,
              px_out := px_out c @ [(px_enc c, ServerToClientHandshakePk jwt)],
              px_enc := (px_enc c)\<lparr>co_key := Some k\<rparr>, px_dec := (px_dec c)\<lparr>co_key := Some k\<rparr>,
              px_encryption_enabled := True\<rparr>"
      by auto
    from key parse have "agreed_key lib (px_verifier c) identity k" unfolding agreed_key_def by blast
    with True c1 c' step LoginPk assms(2,3) show ?thesis
      by (simp add: phase_of_def client_inv_def same_config_def)
  next
    case False
    with c1 have c1: "c1 = c\<lparr>px_protocol := p, px_identity := identity, px_client_data := cd\<rparr>" by simp
    with False c' assms(2,3) have "phase_of c' = LoggedIn identity" "client_inv lib c'" "same_config c c'"
      "px_login_done c'" "v = Finished"
      by (simp_all add: phase_of_def client_inv_def same_config_def codec_defs)
    with False step LoginPk show ?thesis by simp
  qed
next
  case ClientToServerHandshakePk
  with assms have "px_encryption_enabled c" "px_raw_login c \<noteq> None" "px_client_encryption c"
    by (auto simp: handle_packet_def check_client_packet_def client_inv_def split: if_splits)
  with ClientToServerHandshakePk assms show ?thesis
    by (auto simp: handle_packet_def check_client_packet_def handle_client_to_server_handshake_def
        phase_of_def client_inv_def same_config_def codec_defs intro: step_handshake)
next
  case (RequestNetworkSettingsPk p)
  with assms show ?thesis
    by (auto simp: handle_packet_def check_client_packet_def handle_request_network_settings_def Let_def
        phase_of_def client_inv_def same_config_def codec_defs intro: step_settings split: if_splits)
next
  case (OtherPk n)
  with assms show ?thesis
    by (auto simp: handle_packet_def check_client_packet_def phase_of_def client_inv_def same_config_def
        intro: step_other)
qed (use assms in \<open>auto simp: handle_packet_def check_client_packet_def client_inv_def\<close>)

text \<open>A packet of a batch, and one of the frames that arrived, under whatever codec it was decoded.\<close>

definition received :: "proxy_lib \<Rightarrow> string list \<Rightarrow> game_packet \<Rightarrow> bool" where
  "received lib pks pk \<longleftrightarrow> (\<exists>raw \<in> set pks. decode_packet lib raw = Inr (Some pk))"

definition arrived :: "proxy_lib \<Rightarrow> string list \<Rightarrow> game_packet \<Rightarrow> bool" where
  "arrived lib frames pk \<longleftrightarrow>
     (\<exists>f \<in> set frames. \<exists>co m pks. pl_batch lib co m f = Some pks \<and> received lib pks pk)"

lemma received_Cons: "received lib rest pk \<Longrightarrow> received lib (raw # rest) pk"
  by (auto simp: received_def)

lemma received_hd: "decode_packet lib raw = Inr (Some pk) \<Longrightarrow> received lib (raw # rest) pk"
  by (auto simp: received_def)

lemma arrived_Cons: "arrived lib fs pk \<Longrightarrow> arrived lib (f # fs) pk"
  by (auto simp: arrived_def)

lemma arrived_hd: "pl_batch lib co m f = Some pks \<Longrightarrow> received lib pks pk \<Longrightarrow> arrived lib (f # fs) pk"
  by (auto simp: arrived_def)

lemma read_batch_client:
  "read_batch lib th pks c = (v, c') \<Longrightarrow> client_inv lib c \<Longrightarrow> \<not> px_login_done c \<Longrightarrow> v = Continue \<or> v = Finished \<Longrightarrow>
   (\<exists>qs. login_run lib (px_verifier c) (px_client_encryption c) (phase_of c) qs (phase_of c') \<and>
      (\<forall>q \<in> set qs. received lib pks q)) \<and>
   client_inv lib c' \<and> same_config c c' \<and> (px_login_done c' \<longleftrightarrow> v = Finished)"
proof (induction pks arbitrary: c)
  case Nil
  then show ?case by (auto intro!: exI [of _ "[]"] run_stop)
next
  case (Cons raw rest)
  show ?case
  proof (cases "decode_packet lib raw")
    case (Inl e)
    with Cons.prems show ?thesis by auto
  next
    case (Inr d)
    show ?thesis
    proof (cases d)
      case None
      with Inr Cons.prems(1) have "read_batch lib th rest c = (v, c')" by simp
      from Cons.IH [OF this Cons.prems(2-4)] received_Cons [of lib rest] show ?thesis by blast
    next
      case (Some pk)
      obtain v1 c1 where one: "handle_packet lib th rest raw pk c = (v1, c1)"
        by (cases "handle_packet lib th rest raw pk c")
      with Inr Some Cons.prems have v1: "v1 = Continue \<or> v1 = Finished \<and> v = Finished \<and> c' = c1"
        by (cases v1) auto
      from handle_packet_client [OF one Cons.prems(2,3)] v1
      have s: "login_step lib (px_verifier c) (px_client_encryption c) (phase_of c) pk (phase_of c1)"
        "client_inv lib c1" "same_config c c1" "px_login_done c1 \<longleftrightarrow> v1 = Finished" by auto
      show ?thesis
      proof (cases "v1 = Continue")
        case True
        with one Inr Some Cons.prems(1) have "read_batch lib th rest c1 = (v, c')" by simp
        from Cons.IH [OF this s(2)] True s(4) Cons.prems(4) obtain qs
          where qs: "login_run lib (px_verifier c1) (px_client_encryption c1) (phase_of c1) qs (phase_of c')"
            "\<forall>q \<in> set qs. received lib rest q"
            and r: "client_inv lib c'" "same_config c1 c'" "px_login_done c' \<longleftrightarrow> v = Finished" by auto
        from s(3) have "px_verifier c1 = px_verifier c" "px_client_encryption c1 = px_client_encryption c"
          by (simp_all add: same_config_def)
        with qs(1) login_run_append [OF _ login_run_one [OF s(1)], of qs "phase_of c'"]
        have "login_run lib (px_verifier c) (px_client_encryption c) (phase_of c) (pk # qs) (phase_of c')" by simp
        moreover from qs(2) Inr Some have "\<forall>q \<in> set (pk # qs). received lib (raw # rest) q"
          by (auto simp: received_def)
        ultimately show ?thesis using r same_config_trans [OF s(3) r(2)] by blast
      next
        case False
        with v1 s login_run_one [OF s(1)] received_hd [of lib raw pk rest] Inr Some show ?thesis
          by (auto intro!: exI [of _ "[pk]"])
      qed
    qed
  qed
qed

lemma client_inv_read [simp]: "client_inv lib (c\<lparr>px_read := n\<rparr>) = client_inv lib c"
  by (simp add: client_inv_def)

lemma phase_of_read [simp]: "phase_of (c\<lparr>px_read := n\<rparr>) = phase_of c"
  by (simp add: phase_of_def)

lemma same_config_read [simp]: "same_config (c\<lparr>px_read := n\<rparr>) d = same_config c d"
  by (simp add: same_config_def)

lemma read_loop_step:
  assumes "read_loop lib th (Suc n) frames c = Some (v, c', fs)" "\<not> px_login_done c"
  obtains (waiting) "v = Continue" "c' = c" "frames = []"
  | (failed) "v = Failed NoPacket"
  | (batch) f rest pks v1 c1 where "frames = f # rest" "pl_batch lib (px_dec c) (px_read c) f = Some pks"
      "read_batch lib th pks (c\<lparr>px_read := Suc (px_read c)\<rparr>) = (v1, c1)"
      "if v1 = Continue then read_loop lib th n rest c1 = Some (v, c', fs) else v = v1 \<and> c' = c1 \<and> fs = rest"
proof (cases frames)
  case Nil
  with assms waiting show thesis by (simp add: read_packets_def)
next
  case (Cons f rest)
  show thesis
  proof (cases "pl_batch lib (px_dec c) (px_read c) f")
    case None
    with Cons assms failed show thesis by (simp add: read_packets_def)
  next
    case (Some pks)
    obtain v1 c1 where one: "read_batch lib th pks (c\<lparr>px_read := Suc (px_read c)\<rparr>) = (v1, c1)"
      by (cases "read_batch lib th pks (c\<lparr>px_read := Suc (px_read c)\<rparr>)")
    with Cons Some assms have "if v1 = Continue then read_loop lib th n rest c1 = Some (v, c', fs)
        else v = v1 \<and> c' = c1 \<and> fs = rest"
      by (cases v1) (auto simp: read_packets_def)
    with batch [OF Cons Some one] show thesis by simp
  qed
qed

lemma read_loop_client:
  "read_loop lib th n frames c = Some (v, c', fs) \<Longrightarrow> client_inv lib c \<Longrightarrow> \<not> px_login_done c \<Longrightarrow>
   v = Continue \<or> v = Finished \<Longrightarrow>
   (\<exists>qs. login_run lib (px_verifier c) (px_client_encryption c) (phase_of c) qs (phase_of c') \<and>
      (\<forall>q \<in> set qs. arrived lib frames q)) \<and>
   client_inv lib c' \<and> same_config c c' \<and> (px_login_done c' \<longleftrightarrow> v = Finished)"
proof (induction n arbitrary: frames c)
  case 0
  then show ?case by simp
next
  case (Suc n)
  from Suc.prems(1,3) show ?case
  proof (cases rule: read_loop_step)
    case waiting
    with Suc.prems show ?thesis by (auto intro!: exI [of _ "[]"] run_stop)
  next
    case failed
    with Suc.prems(4) show ?thesis by simp
  next
    case (batch f rest pks v1 c1)
    from batch(4) Suc.prems(4) have "v1 = Continue \<or> v1 = Finished" by (auto split: if_splits)
    with read_batch_client [OF batch(3)] Suc.prems(2,3) obtain qs
      where q: "login_run lib (px_verifier c) (px_client_encryption c) (phase_of c) qs (phase_of c1)"
        and qr: "\<forall>q \<in> set qs. received lib pks q"
        and s: "client_inv lib c1" "same_config c c1" "px_login_done c1 \<longleftrightarrow> v1 = Finished" by auto
    from qr arrived_hd [OF batch(2)] batch(1) have qa: "\<forall>q \<in> set qs. arrived lib frames q" by blast
    show ?thesis
    proof (cases "v1 = Continue")
      case True
      with batch(4) have l: "read_loop lib th n rest c1 = Some (v, c', fs)" by simp
      from Suc.IH [OF l s(1)] True s(3) Suc.prems(4) obtain rs
        where rs: "login_run lib (px_verifier c1) (px_client_encryption c1) (phase_of c1) rs (phase_of c')"
            "\<forall>q \<in> set rs. arrived lib rest q"
          and r: "client_inv lib c'" "same_config c1 c'" "px_login_done c' \<longleftrightarrow> v = Finished" by auto
      from s(2) have "px_verifier c1 = px_verifier c" "px_client_encryption c1 = px_client_encryption c"
        by (simp_all add: same_config_def)
      with rs(1) login_run_append [OF _ q, of rs "phase_of c'"]
      have "login_run lib (px_verifier c) (px_client_encryption c) (phase_of c) (qs @ rs) (phase_of c')" by simp
      moreover from rs(2) qa batch(1) arrived_Cons [of lib rest] have "\<forall>q \<in> set (qs @ rs). arrived lib frames q" by auto
      ultimately show ?thesis using r same_config_trans [OF s(2) r(2)] by blast
    next
      case False
      with batch(4) q qa s \<open>v1 = Continue \<or> v1 = Finished\<close> show ?thesis by auto
    qed
  qed
qed

section \<open>One batch: what is kept, and under which key the handshake came\<close>

fun is_login :: "game_packet \<Rightarrow> bool" where
  "is_login (LoginPk p request) = True"
| "is_login pk = False"

text \<open>No handshake stands behind a login in the same batch.\<close>

fun separate :: "proxy_lib \<Rightarrow> bool \<Rightarrow> string list \<Rightarrow> bool" where
  "separate lib seen [] \<longleftrightarrow> True"
| "separate lib seen (raw # rest) \<longleftrightarrow>
     (case decode_packet lib raw of
        Inr (Some pk) \<Rightarrow> (pk = ClientToServerHandshakePk \<longrightarrow> \<not> seen) \<and> separate lib (seen \<or> is_login pk) rest
      | _ \<Rightarrow> separate lib seen rest)"

lemma handle_packet_key:
  assumes "handle_packet lib th rest raw pk c = (v, c')" "client_inv lib c" "\<not> px_login_done c"
    "px_client_encryption c" "v = Continue \<or> v = Finished"
  shows "(v = Finished \<longrightarrow> pk = ClientToServerHandshakePk) \<and>
    (\<not> is_login pk \<longrightarrow> co_key (px_dec c') = co_key (px_dec c))"
proof (cases pk)
  case (LoginPk p request)
  from handle_packet_client [OF assms(1-3,5)] LoginPk assms(4)
  have "login_step lib (px_verifier c) True (phase_of c) (LoginPk p request) (phase_of c')"
    "px_login_done c' \<longleftrightarrow> v = Finished" by auto
  from this(1) have "\<exists>i. phase_of c' = AwaitHandshake i" by (cases rule: login_step.cases) auto
  then have "\<not> px_login_done c'" by (auto simp: phase_of_def split: if_splits)
  with \<open>px_login_done c' \<longleftrightarrow> v = Finished\<close> LoginPk show ?thesis by simp
next
  case ClientToServerHandshakePk
  with assms show ?thesis
    by (auto simp: handle_packet_def handle_client_to_server_handshake_def codec_defs split: if_splits)
next
  case (RequestNetworkSettingsPk p)
  with assms show ?thesis
    by (auto simp: handle_packet_def handle_request_network_settings_def Let_def codec_defs split: if_splits)
next
  case (OtherPk n)
  with assms show ?thesis by (auto simp: handle_packet_def split: if_splits)
qed (use assms in \<open>auto simp: handle_packet_def check_client_packet_def client_inv_def\<close>)

lemma read_batch_key:
  "read_batch lib th pks c = (Finished, c') \<Longrightarrow> client_inv lib c \<Longrightarrow> \<not> px_login_done c \<Longrightarrow>
   px_client_encryption c \<Longrightarrow> separate lib seen pks \<Longrightarrow> seen \<or> co_key (px_dec c) = k \<Longrightarrow>
   co_key (px_dec c') = k \<and> received lib pks ClientToServerHandshakePk"
proof (induction pks arbitrary: c seen)
  case Nil
  then show ?case by simp
next
  case (Cons raw rest)
  show ?case
  proof (cases "\<exists>pk. decode_packet lib raw = Inr (Some pk)")
    case False
    with Cons.prems(1,5) have "read_batch lib th rest c = (Finished, c')" "separate lib seen rest"
      by (auto split: sum.splits option.splits)
    from Cons.IH [OF this(1) Cons.prems(2-4) this(2) Cons.prems(6)] received_Cons [of lib rest] show ?thesis by blast
  next
    case True
    then obtain pk where pk: "decode_packet lib raw = Inr (Some pk)" by blast
    obtain v1 c1 where one: "handle_packet lib th rest raw pk c = (v1, c1)"
      by (cases "handle_packet lib th rest raw pk c")
    with pk Cons.prems(1) have v1: "v1 = Continue \<or> v1 = Finished" by (cases v1) auto
    from handle_packet_client [OF one Cons.prems(2,3) v1]
    have s: "client_inv lib c1" "same_config c c1" "px_login_done c1 \<longleftrightarrow> v1 = Finished" by auto
    from handle_packet_key [OF one Cons.prems(2-4) v1]
    have k1: "v1 = Finished \<longrightarrow> pk = ClientToServerHandshakePk"
      "\<not> is_login pk \<longrightarrow> co_key (px_dec c1) = co_key (px_dec c)" by auto
    show ?thesis
    proof (cases "v1 = Continue")
      case True
      with one pk Cons.prems(1) have r: "read_batch lib th rest c1 = (Finished, c')" by simp
      from Cons.prems(5) pk have sep: "separate lib (seen \<or> is_login pk) rest" by simp
      from s(2) Cons.prems(4) have "px_client_encryption c1" by (simp add: same_config_def)
      with Cons.IH [OF r s(1) _ _ sep] True s(3) k1(2) Cons.prems(6) received_Cons [of lib rest] show ?thesis
        by auto
    next
      case False
      with v1 have "v1 = Finished" by simp
      with k1 pk one Cons.prems(1,5,6) received_hd [OF pk] show ?thesis by auto
    qed
  qed
qed

lemma read_loop_key:
  "read_loop lib th n frames c = Some (Finished, c', fs) \<Longrightarrow> client_inv lib c \<Longrightarrow> \<not> px_login_done c \<Longrightarrow>
   px_client_encryption c \<Longrightarrow>
   (\<And>f co m pks. f \<in> set frames \<Longrightarrow> pl_batch lib co m f = Some pks \<Longrightarrow> separate lib False pks) \<Longrightarrow>
   \<exists>f \<in> set frames. \<exists>co m pks. pl_batch lib co m f = Some pks \<and> co_key co = co_key (px_dec c') \<and>
     received lib pks ClientToServerHandshakePk"
proof (induction n arbitrary: frames c)
  case 0
  then show ?case by simp
next
  case (Suc n)
  from Suc.prems(1,3) show ?case
  proof (cases rule: read_loop_step)
    case (batch f rest pks v1 c1)
    from batch(4) have v1: "v1 = Continue \<or> v1 = Finished" by (auto split: if_splits)
    from read_batch_client [OF batch(3) _ _ v1] Suc.prems(2,3)
    have s: "client_inv lib c1" "same_config c c1" "px_login_done c1 \<longleftrightarrow> v1 = Finished" by (auto simp: same_config_def)
    show ?thesis
    proof (cases "v1 = Continue")
      case True
      with batch(4) have l: "read_loop lib th n rest c1 = Some (Finished, c', fs)" by simp
      from s(2) Suc.prems(4) have "px_client_encryption c1" by (simp add: same_config_def)
      have "\<And>g co m pks. g \<in> set rest \<Longrightarrow> pl_batch lib co m g = Some pks \<Longrightarrow> separate lib False pks"
        by (rule Suc.prems(5)) (auto simp: batch(1))
      from Suc.IH [OF l s(1) _ \<open>px_client_encryption c1\<close> this] True s(3) batch(1) show ?thesis by auto
    next
      case False
      with v1 batch(3,4) have b: "read_batch lib th pks (c\<lparr>px_read := Suc (px_read c)\<rparr>) = (Finished, c')" by auto
      from Suc.prems(5) [OF _ batch(2)] batch(1) have "separate lib False pks" by simp
      from read_batch_key [OF b _ _ _ this, of "co_key (px_dec c)"] Suc.prems(2-4)
      have "co_key (px_dec c') = co_key (px_dec c) \<and> received lib pks ClientToServerHandshakePk" by simp
      with batch(1,2) show ?thesis by force
    qed
  qed simp_all
qed

text \<open>The packets that the login does not read itself are kept, and so is the rest of the last batch.\<close>

definition kept :: "proxy_lib \<Rightarrow> string \<Rightarrow> bool" where
  "kept lib raw \<longleftrightarrow> (\<exists>n. decode_packet lib raw = Inr (Some (OtherPk n)))"

definition ends_with_status :: "proxy_lib \<Rightarrow> string \<Rightarrow> bool" where
  "ends_with_status lib raw \<longleftrightarrow> (\<exists>st. decode_packet lib raw = Inr (Some (PlayStatusPk st)))"

lemma enable_encryption_deferred: "px_deferred (snd (enable_encryption lib public c)) = px_deferred c"
  by (auto simp: enable_encryption_def codec_defs Let_def split: option.split)

lemma handle_login_deferred: "px_deferred (snd (handle_login lib p request c)) = px_deferred c"
proof -
  have "px_deferred c' = px_deferred d" if "enable_encryption lib public d = (v, c')" for public d v c'
    using enable_encryption_deferred [of lib public d] that by simp
  then show ?thesis
    by (auto simp: handle_login_def handle_client_to_server_handshake_def write_packet_def Let_def
        split: prod.split verdict.split)
qed

lemma handle_handshake_deferred: "px_deferred (snd (handle_server_to_client_handshake lib jwt c)) = px_deferred c"
  by (auto simp: handle_server_to_client_handshake_def codec_defs Let_def split: option.split prod.split)

lemma handle_packet_deferred:
  assumes "handle_packet lib th rest raw pk c = (v, c')"
  shows "(v = Continue \<longrightarrow> px_deferred c' = px_deferred c @ (case pk of OtherPk n \<Rightarrow> [raw] | _ \<Rightarrow> [])) \<and>
    (v = Finished \<longrightarrow> px_login_done c' \<and>
       px_deferred c' = px_deferred c @ (case pk of PlayStatusPk st \<Rightarrow> [raw] | _ \<Rightarrow> []) @ rest)"
proof (cases pk)
  case (LoginPk p request)
  obtain v1 c1 where one: "handle_login lib p request c = (v1, c1)" by (cases "handle_login lib p request c")
  with handle_login_deferred [of lib p request c] handle_login_not_finished [of lib p request c]
  have "px_deferred c1 = px_deferred c" "v1 \<noteq> Finished" by auto
  with one assms LoginPk show ?thesis
    by (cases v1) (auto simp: handle_packet_def codec_defs Let_def split: if_splits)
next
  case (ServerToClientHandshakePk jwt)
  obtain v1 c1 where one: "handle_server_to_client_handshake lib jwt c = (v1, c1)"
    by (cases "handle_server_to_client_handshake lib jwt c")
  with handle_handshake_deferred [of lib jwt c] have "px_deferred c1 = px_deferred c" by simp
  moreover have "v1 \<noteq> Finished" using one
    by (auto simp: handle_server_to_client_handshake_def Let_def split: option.splits prod.splits)
  ultimately show ?thesis using one assms ServerToClientHandshakePk
    by (cases v1) (auto simp: handle_packet_def codec_defs split: if_splits)
next
  case (PlayStatusPk st)
  with assms show ?thesis
    by (auto simp: handle_packet_def codec_defs split: if_splits play_status.splits)
qed (use assms in \<open>auto simp: handle_packet_def handle_client_to_server_handshake_def handle_request_network_settings_def
      handle_network_settings_def codec_defs Let_def split: if_splits option.splits\<close>)

lemma read_batch_deferred:
  "read_batch lib th pks c = (v, c') \<Longrightarrow>
   (v = Continue \<longrightarrow> px_deferred c' = px_deferred c @ filter (kept lib) pks) \<and>
   (v = Finished \<longrightarrow> px_login_done c' \<and> (\<exists>before lst rest. pks = before @ lst # rest \<and>
      px_deferred c' = px_deferred c @ filter (kept lib) before @ filter (ends_with_status lib) [lst] @ rest))"
proof (induction pks arbitrary: c)
  case Nil
  then show ?case by simp
next
  case (Cons raw rest)
  show ?case
  proof (cases "\<exists>pk. decode_packet lib raw = Inr (Some pk)")
    case False
    then have nk: "\<not> kept lib raw" by (auto simp: kept_def)
    from False Cons.prems have "read_batch lib th rest c = (v, c') \<or> (\<exists>e. v = Failed e)"
      by (auto split: sum.splits option.splits)
    then show ?thesis
    proof
      assume "read_batch lib th rest c = (v, c')"
      note ih = Cons.IH [OF this]
      show ?thesis
      proof (intro conjI impI)
        assume "v = Continue" with ih nk show "px_deferred c' = px_deferred c @ filter (kept lib) (raw # rest)" by simp
      next
        assume "v = Finished" with ih show "px_login_done c'" by simp
      next
        assume "v = Finished"
        with ih obtain before lst tl where "rest = before @ lst # tl"
          "px_deferred c' = px_deferred c @ filter (kept lib) before @ filter (ends_with_status lib) [lst] @ tl" by blast
        with nk show "\<exists>before lst tl. raw # rest = before @ lst # tl \<and>
            px_deferred c' = px_deferred c @ filter (kept lib) before @ filter (ends_with_status lib) [lst] @ tl"
          by (intro exI [of _ "raw # before"] exI [of _ lst] exI [of _ tl]) simp
      qed
    qed auto
  next
    case True
    then obtain pk where pk: "decode_packet lib raw = Inr (Some pk)" by blast
    obtain v1 c1 where one: "handle_packet lib th rest raw pk c = (v1, c1)"
      by (cases "handle_packet lib th rest raw pk c")
    note d = handle_packet_deferred [OF one]
    have kp: "filter (kept lib) [raw] = (case pk of OtherPk n \<Rightarrow> [raw] | _ \<Rightarrow> [])"
      "filter (ends_with_status lib) [raw] = (case pk of PlayStatusPk st \<Rightarrow> [raw] | _ \<Rightarrow> [])"
      using pk by (auto simp: kept_def ends_with_status_def split: game_packet.split)
    show ?thesis
    proof (cases "v1 = Continue")
      case True
      with one pk Cons.prems have "read_batch lib th rest c1 = (v, c')" by simp
      note ih = Cons.IH [OF this]
      from True d kp have c1: "px_deferred c1 = px_deferred c @ filter (kept lib) [raw]" by simp
      show ?thesis
      proof (intro conjI impI)
        assume "v = Continue" with ih c1 show "px_deferred c' = px_deferred c @ filter (kept lib) (raw # rest)" by simp
      next
        assume "v = Finished" with ih show "px_login_done c'" by simp
      next
        assume "v = Finished"
        with ih obtain before lst tl where "rest = before @ lst # tl"
          "px_deferred c' = px_deferred c1 @ filter (kept lib) before @ filter (ends_with_status lib) [lst] @ tl" by blast
        with c1 show "\<exists>before lst tl. raw # rest = before @ lst # tl \<and>
            px_deferred c' = px_deferred c @ filter (kept lib) before @ filter (ends_with_status lib) [lst] @ tl"
          by (intro exI [of _ "raw # before"] exI [of _ lst] exI [of _ tl]) simp
      qed
    next
      case False
      with one pk Cons.prems have "v = v1" "c' = c1" by (cases v1; simp)+
      with d kp(2) False have "v = Finished \<longrightarrow> px_login_done c' \<and>
          px_deferred c' = px_deferred c @ filter (ends_with_status lib) [raw] @ rest" by metis
      with \<open>v = v1\<close> False show ?thesis
        by (intro conjI impI; (intro exI [of _ "[]"] exI [of _ raw] exI [of _ rest])?) simp_all
    qed
  qed
qed

section \<open>The backend leg\<close>

text \<open>Every login that was written is the prepared one, under a compression.\<close>

definition logins_ok :: "proxy_conn \<Rightarrow> bool" where
  "logins_ok c \<longleftrightarrow> (\<forall>(co, pk) \<in> set (px_out c). is_login pk \<longrightarrow> px_login_pk c = Some pk \<and> co_compression co \<noteq> None)"

lemma logins_ok_write: "logins_ok c \<Longrightarrow> \<not> is_login pk \<Longrightarrow> logins_ok (snd (write_packet lib pk c))"
  by (auto simp: logins_ok_def write_packet_def)

lemma enable_encryption_logins:
  "logins_ok c \<Longrightarrow> logins_ok (snd (enable_encryption lib public c)) \<and>
   px_login_pk (snd (enable_encryption lib public c)) = px_login_pk c"
  by (auto simp: enable_encryption_def codec_defs Let_def logins_ok_def split: option.split)

lemma handle_login_logins:
  assumes "logins_ok c"
  shows "logins_ok (snd (handle_login lib p request c)) \<and> px_login_pk (snd (handle_login lib p request c)) = px_login_pk c"
proof -
  have "logins_ok c' \<and> px_login_pk c' = px_login_pk d"
    if "enable_encryption lib public d = (v, c')" "logins_ok d" for public d v c'
    using enable_encryption_logins [of d lib public] that by simp
  with assms show ?thesis
    unfolding handle_login_def handle_client_to_server_handshake_def Let_def
    by (fastforce simp: write_packet_def logins_ok_def split: prod.split verdict.split)
qed

lemma handle_handshake_logins:
  "logins_ok c \<Longrightarrow> logins_ok (snd (handle_server_to_client_handshake lib jwt c)) \<and>
   px_login_pk (snd (handle_server_to_client_handshake lib jwt c)) = px_login_pk c"
  by (auto simp: handle_server_to_client_handshake_def codec_defs Let_def logins_ok_def split: option.split prod.split)

lemma handle_network_settings_logins:
  "logins_ok c \<Longrightarrow> px_login_pk c = None \<or> (\<exists>pk. px_login_pk c = Some pk \<and> is_login pk) \<Longrightarrow>
   logins_ok (snd (handle_network_settings lib alg t c)) \<and>
   px_login_pk (snd (handle_network_settings lib alg t c)) = px_login_pk c"
  by (auto simp: handle_network_settings_def codec_defs Let_def logins_ok_def split: option.split)

lemma handle_settings_request_logins:
  "logins_ok c \<Longrightarrow> logins_ok (snd (handle_request_network_settings lib th c)) \<and>
   px_login_pk (snd (handle_request_network_settings lib th c)) = px_login_pk c"
  by (auto simp: handle_request_network_settings_def codec_defs Let_def logins_ok_def)

lemma logins_ok_other [simp]:
  "logins_ok (c\<lparr>px_deferred := ds\<rparr>) = logins_ok c" "logins_ok (c\<lparr>px_raw_login := r\<rparr>) = logins_ok c"
  "logins_ok (c\<lparr>px_login_done := b\<rparr>) = logins_ok c" "logins_ok (c\<lparr>px_read := n\<rparr>) = logins_ok c"
  by (simp_all add: logins_ok_def)

lemma handle_packet_logins:
  assumes "handle_packet lib th rest raw pk c = (v, c')" "logins_ok c"
    "px_login_pk c = None \<or> (\<exists>pk. px_login_pk c = Some pk \<and> is_login pk)"
  shows "logins_ok c' \<and> px_login_pk c' = px_login_pk c"
proof (cases "px_nethernet c \<and> \<not> check_client_packet pk c")
  case True
  with assms show ?thesis by (simp add: handle_packet_def)
next
  case ok: False
  show ?thesis
  proof (cases pk)
    case (RequestNetworkSettingsPk p)
    with ok assms(1) handle_settings_request_logins [OF assms(2), of lib th] show ?thesis
      by (auto simp: handle_packet_def)
  next
    case (NetworkSettingsPk alg t)
    with ok assms(1) handle_network_settings_logins [OF assms(2,3), of lib alg t] show ?thesis
      by (auto simp: handle_packet_def)
  next
    case (LoginPk p request)
    obtain v1 c1 where one: "handle_login lib p request c = (v1, c1)" by (cases "handle_login lib p request c")
    with handle_login_logins [OF assms(2), of lib p request] have "logins_ok c1" "px_login_pk c1 = px_login_pk c"
      by auto
    with ok one assms(1) LoginPk show ?thesis
      by (cases v1) (auto simp: handle_packet_def Let_def finish_def defer_remaining_def split: if_splits)
  next
    case (ServerToClientHandshakePk jwt)
    obtain v1 c1 where one: "handle_server_to_client_handshake lib jwt c = (v1, c1)"
      by (cases "handle_server_to_client_handshake lib jwt c")
    with handle_handshake_logins [OF assms(2), of lib jwt] have "logins_ok c1" "px_login_pk c1 = px_login_pk c"
      by auto
    with ok one assms(1) ServerToClientHandshakePk show ?thesis
      by (cases v1) (auto simp: handle_packet_def finish_def defer_remaining_def)
  next
    case ClientToServerHandshakePk
    with ok assms show ?thesis
      by (auto simp: handle_packet_def handle_client_to_server_handshake_def finish_def defer_remaining_def)
  next
    case (DisconnectPk msg)
    with ok assms show ?thesis by (auto simp: handle_packet_def)
  next
    case (PlayStatusPk st)
    with ok assms show ?thesis
      by (cases st) (auto simp: handle_packet_def finish_def defer_remaining_def)
  next
    case (OtherPk n)
    with ok assms show ?thesis by (auto simp: handle_packet_def)
  qed
qed

lemma read_batch_logins:
  "read_batch lib th pks c = (v, c') \<Longrightarrow> logins_ok c \<Longrightarrow>
   px_login_pk c = None \<or> (\<exists>pk. px_login_pk c = Some pk \<and> is_login pk) \<Longrightarrow>
   logins_ok c' \<and> px_login_pk c' = px_login_pk c"
proof (induction pks arbitrary: c)
  case Nil
  then show ?case by simp
next
  case (Cons raw rest)
  show ?case
  proof (cases "\<exists>pk. decode_packet lib raw = Inr (Some pk)")
    case False
    with Cons.prems(1) have "read_batch lib th rest c = (v, c') \<or> c' = c"
      by (auto split: sum.splits option.splits)
    with Cons.IH [OF _ Cons.prems(2,3)] Cons.prems(2) show ?thesis by blast
  next
    case True
    then obtain pk where pk: "decode_packet lib raw = Inr (Some pk)" by blast
    obtain v1 c1 where one: "handle_packet lib th rest raw pk c = (v1, c1)"
      by (cases "handle_packet lib th rest raw pk c")
    from handle_packet_logins [OF one Cons.prems(2,3)] have s: "logins_ok c1" "px_login_pk c1 = px_login_pk c" by auto
    from one pk Cons.prems(1) have "read_batch lib th rest c1 = (v, c') \<or> c' = c1" by (cases v1) auto
    with Cons.IH [of c1] s Cons.prems(3) show ?thesis by auto
  qed
qed

lemma read_loop_logins:
  "read_loop lib th n frames c = Some (v, c', fs) \<Longrightarrow> logins_ok c \<Longrightarrow>
   px_login_pk c = None \<or> (\<exists>pk. px_login_pk c = Some pk \<and> is_login pk) \<Longrightarrow>
   logins_ok c' \<and> px_login_pk c' = px_login_pk c"
proof (induction n arbitrary: frames c)
  case 0
  then show ?case by simp
next
  case (Suc n)
  show ?case
  proof (cases "read_packets lib frames c")
    case None
    with Suc.prems show ?thesis by simp
  next
    case (Some r)
    obtain b c0 rest where r: "r = (b, c0, rest)" by (cases r)
    with Some have c0: "logins_ok c0 = logins_ok c" "px_login_pk c0 = px_login_pk c"
      by (auto simp: read_packets_def split: if_splits list.splits)
    show ?thesis
    proof (cases b)
      case None
      with Some r c0 Suc.prems show ?thesis by simp
    next
      case (Some pks)
      obtain v1 c1 where one: "read_batch lib th pks c0 = (v1, c1)" by (cases "read_batch lib th pks c0")
      from read_batch_logins [OF one] c0 Suc.prems(2,3) have s: "logins_ok c1" "px_login_pk c1 = px_login_pk c" by auto
      from Some r one \<open>read_packets lib frames c = Some r\<close> Suc.prems(1)
      have "read_loop lib th n rest c1 = Some (v, c', fs) \<or> c' = c1" by (cases v1) auto
      with Suc.IH [of rest c1] s Suc.prems(3) show ?thesis by auto
    qed
  qed
qed

lemma forward_identity_logins:
  assumes "forward_identity lib th n p identity cd fix_native tk frames (new_proxy_conn alg False) = Some (v, c', fs)"
    "(co, LoginPk q request) \<in> set (px_out c')"
  obtains key where "(if tk = None then pl_new_key lib else tk) = Some key" "q = p"
    "request = pl_encode_offline lib identity (forwarded_client_data lib identity fix_native cd) key"
    "co_compression co \<noteq> None"
proof -
  let ?key = "if tk = None then pl_new_key lib else tk"
  show thesis
  proof (cases ?key)
    case None
    with assms show thesis by (auto simp: forward_identity_def new_proxy_conn_def split: if_splits)
  next
    case (Some key)
    let ?c = "prepare_login lib p identity cd fix_native key (new_proxy_conn alg False)"
    obtain ok c1 where w: "write_packet lib (RequestNetworkSettingsPk p) ?c = (ok, c1)"
      by (cases "write_packet lib (RequestNetworkSettingsPk p) ?c")
    let ?pk = "LoginPk p (pl_encode_offline lib identity (forwarded_client_data lib identity fix_native cd) key)"
    from w have c1: "logins_ok c1" "px_login_pk c1 = Some ?pk"
      by (auto simp: write_packet_def logins_ok_def prepare_login_def new_proxy_conn_def Let_def)
    from Some w assms(1) have "c' = c1 \<or> read_loop lib th n frames c1 = Some (v, c', fs)"
      by (auto simp: forward_identity_def split: if_splits)
    with read_loop_logins [of lib th n frames c1 v c' fs] c1 have "logins_ok c'" "px_login_pk c' = Some ?pk" by auto
    with assms(2) have "LoginPk q request = ?pk" "co_compression co \<noteq> None"
      by (auto simp: logins_ok_def)
    with Some that show thesis by simp
  qed
qed

text \<open>The loop returns: one round for each frame, and one that waits, when the login is not yet done.\<close>

lemma handle_packet_done:
  assumes "handle_packet lib th rest raw pk c = (Continue, c')"
  shows "px_login_done c' = px_login_done c"
proof -
  have l: "px_login_done (snd (enable_encryption lib public d)) = px_login_done d" for public d
    by (auto simp: enable_encryption_def codec_defs Let_def split: option.split)
  have "px_login_done d' = px_login_done d" if "enable_encryption lib public d = (v, d')" for public d v d'
    using l [of public d] that by simp
  then have login: "px_login_done (snd (handle_login lib p request c)) = px_login_done c" for p request
    by (auto simp: handle_login_def handle_client_to_server_handshake_def write_packet_def Let_def
        split: prod.split verdict.split)
  show ?thesis
  proof (cases pk)
    case (LoginPk p request)
    with assms login [of p request] show ?thesis
      by (auto simp: handle_packet_def finish_def Let_def split: if_splits prod.splits verdict.splits)
  next
    case (ServerToClientHandshakePk jwt)
    with assms show ?thesis
      by (auto simp: handle_packet_def finish_def split: if_splits prod.splits verdict.splits)
  qed (use assms in \<open>auto simp: handle_packet_def handle_client_to_server_handshake_def handle_request_network_settings_def
        handle_network_settings_def codec_defs Let_def split: if_splits option.splits play_status.splits\<close>)
qed

lemma read_batch_done: "read_batch lib th pks c = (Continue, c') \<Longrightarrow> px_login_done c' = px_login_done c"
proof (induction pks arbitrary: c)
  case (Cons raw rest)
  from Cons.prems consider "read_batch lib th rest c = (Continue, c')"
    | pk c1 where "handle_packet lib th rest raw pk c = (Continue, c1)" "read_batch lib th rest c1 = (Continue, c')"
    by (auto split: sum.splits option.splits prod.splits verdict.splits)
  then show ?case using Cons.IH handle_packet_done by cases metis+
qed simp

lemma read_loop_returns: "length frames < n \<Longrightarrow> \<not> px_login_done c \<Longrightarrow> \<exists>r. read_loop lib th n frames c = Some r"
proof (induction n arbitrary: frames c)
  case (Suc n)
  show ?case
  proof (cases frames)
    case Nil
    with Suc.prems show ?thesis by (simp add: read_packets_def)
  next
    case (Cons f rest)
    show ?thesis
    proof (cases "pl_batch lib (px_dec c) (px_read c) f")
      case None
      with Cons Suc.prems show ?thesis by (simp add: read_packets_def)
    next
      case (Some pks)
      obtain v c1 where one: "read_batch lib th pks (c\<lparr>px_read := Suc (px_read c)\<rparr>) = (v, c1)"
        by (cases "read_batch lib th pks (c\<lparr>px_read := Suc (px_read c)\<rparr>)")
      with read_batch_done [of lib th pks "c\<lparr>px_read := Suc (px_read c)\<rparr>" c1] Suc.prems(2)
      have "v = Continue \<Longrightarrow> \<not> px_login_done c1" by simp
      with Suc.IH [of rest c1] Suc.prems Cons Some one show ?thesis
        by (cases v) (auto simp: read_packets_def)
    qed
  qed
qed simp

end
