(* ===== verification/Relay_Login.thy ===== *)
theory Relay_Login
  imports Proxy_Safety
begin

text \<open>
  The logins of a relayed player put together: \<open>HandleConn\<close> reads the login of the client, dials
  the backend and logs in there with \<open>ForwardIdentity\<close>. The properties of the two logins.
\<close>

section \<open>Both logins of a connection\<close>

text \<open>
  What the two legs give to \<open>HandleConn\<close>: the frames of the client and of the backend, in
  \<open>client_frames\<close> and \<open>backend_frames\<close>, settle its login and the forwarding.
\<close>

definition client_login ::
  "proxy_lib \<Rightarrow> string \<Rightarrow> int \<Rightarrow> bool \<Rightarrow> bool \<Rightarrow> string list \<Rightarrow> proxy_conn option" where
  "client_login lib alg th obtained disable_client_encryption frames =
     (case read_loop lib th (Suc (length frames)) frames (client_conn alg obtained (\<not> disable_client_encryption)) of
        Some (Finished, c, fs) \<Rightarrow> Some c
      | _ \<Rightarrow> None)"

definition backend_login ::
  "proxy_lib \<Rightarrow> string \<Rightarrow> int \<Rightarrow> bool \<Rightarrow> string option \<Rightarrow> string list \<Rightarrow> proxy_conn \<Rightarrow> verdict \<times> proxy_conn" where
  "backend_login lib alg th fix_native transport_key frames client =
     (case forward_identity lib th (Suc (length frames)) (px_protocol client) (px_identity client)
             (px_client_data client) fix_native transport_key frames (new_proxy_conn alg False) of
        Some (v, c, fs) \<Rightarrow> (v, c)
      | None \<Rightarrow> (Continue, new_proxy_conn alg False))"

definition connection_env ::
  "proxy_lib \<Rightarrow> string \<Rightarrow> int \<Rightarrow> bool \<Rightarrow> bool \<Rightarrow> bool \<Rightarrow> string option \<Rightarrow> string list \<Rightarrow> string list \<Rightarrow> 'c relay_env \<Rightarrow> 'c relay_env" where
  "connection_env lib alg th obtained disable_client_encryption fix_native transport_key client_frames backend_frames env =
     (case client_login lib alg th obtained disable_client_encryption client_frames of
        None \<Rightarrow> env\<lparr>re_login := None\<rparr>
      | Some c \<Rightarrow>
          env\<lparr>re_login := Some (idd_xuid (px_identity c), idd_display_name (px_identity c)),
              re_forward := fst (backend_login lib alg th fix_native transport_key backend_frames c) = Finished\<rparr>)"

section \<open>Lemmas\<close>

lemma client_conn_inv [simp]: "client_inv lib (client_conn alg obtained encrypt)"
  by (simp add: client_inv_def client_conn_def set_client_encryption_def set_auth_enabled_def new_proxy_conn_def)

lemma client_conn_simps [simp]:
  "px_login_done (client_conn alg obtained encrypt) = False" "px_verifier (client_conn alg obtained encrypt) = obtained"
  "px_client_encryption (client_conn alg obtained encrypt) = encrypt"
  "phase_of (client_conn alg obtained encrypt) = AwaitLogin"
  by (simp_all add: phase_of_def client_conn_def set_client_encryption_def set_auth_enabled_def new_proxy_conn_def)

lemma forwarded_name: "cld_third_party_name (forwarded_client_data lib identity fix_native cd) = idd_display_name identity"
  by (simp add: forwarded_client_data_def Let_def)

lemma phase_done: "phase_of c = LoggedIn (px_identity c) \<longleftrightarrow> px_login_done c"
  by (simp add: phase_of_def)

lemma client_loginE:
  assumes "client_login lib alg th obtained disabled frames = Some c"
  obtains fs where
    "read_loop lib th (Suc (length frames)) frames (client_conn alg obtained (\<not> disabled)) = Some (Finished, c, fs)"
  using assms that by (auto simp: client_login_def simp del: read_loop.simps split: option.splits prod.splits verdict.splits)

lemma client_login_authenticated:
  assumes "read_loop lib th n frames (client_conn alg obtained encrypt) = Some (Finished, c, fs)"
  obtains p request where "arrived lib frames (LoginPk p request)" "accepted lib obtained request (px_identity c)"
    "encrypt \<Longrightarrow> arrived lib frames ClientToServerHandshakePk"
    "encrypt \<Longrightarrow> \<exists>k. co_key (px_dec c) = Some k \<and> agreed_key lib obtained (px_identity c) k"
proof -
  from read_loop_client [OF assms] obtain qs
    where run: "login_run lib obtained encrypt AwaitLogin qs (phase_of c)" "\<forall>q \<in> set qs. arrived lib frames q"
      and inv: "client_inv lib c" "same_config (client_conn alg obtained encrypt) c" "px_login_done c" by auto
  from inv(3) have ph: "phase_of c = LoggedIn (px_identity c)" by (simp add: phase_of_def)
  from login_run_accepted [OF run(1)] ph run(2) obtain p request
    where l: "arrived lib frames (LoginPk p request)" "accepted lib obtained request (px_identity c)" by blast
  have h: "arrived lib frames ClientToServerHandshakePk \<and> px_encryption_enabled c" if encrypt
  proof -
    from that login_run_handshake [of lib obtained qs "phase_of c"] run ph
    have "ClientToServerHandshakePk \<in> set qs" by auto
    with run(2) have "arrived lib frames ClientToServerHandshakePk" by blast
    moreover have "px_encryption_enabled c"
      using inv that by (simp add: client_inv_def same_config_def)
    ultimately show ?thesis ..
  qed
  from inv h have "\<exists>k. co_key (px_dec c) = Some k \<and> agreed_key lib obtained (px_identity c) k" if encrypt
    using that by (auto simp: client_inv_def same_config_def)
  with l h that show thesis by blast
qed

section \<open>A library for the examples\<close>

text \<open>
  Packets are a letter and a payload, a frame is a list of packets with commas between them, and
  a frame that was encrypted starts with E.
\<close>

definition demo_lib :: proxy_lib where
  "demo_lib =
     \<lparr>pl_header = (\<lambda>raw. case raw of [] \<Rightarrow> None | t # payload \<Rightarrow>
         Some (if t = CHR ''L'' then 1 else if t = CHR ''H'' then 4 else if t = CHR ''N'' then 143
               else if t = CHR ''P'' then 2 else if t = CHR ''O'' then 9 else 0, payload)),
      pl_packet = (\<lambda>t payload.
         if t = 1 then Some (Some (LoginPk 7 payload))
         else if t = 4 then Some (Some ClientToServerHandshakePk)
         else if t = 143 then Some (Some (NetworkSettingsPk 1 256))
         else if t = 2 then Some (Some (PlayStatusPk LoginSuccess))
         else if t = 9 then Some (Some (OtherPk 9)) else None),
      pl_batch = (\<lambda>co n f. case co_key co of
         None \<Rightarrow> Some (split_byte CHR '','' f)
       | Some k \<Rightarrow> if take 1 f = ''E'' then Some (split_byte CHR '','' (drop 1 f)) else None),
      pl_write_ok = (\<lambda>n. True),
      pl_parse_login = (\<lambda>verifier request.
         (\<lparr>idd_xuid = request, idd_identity = '''', idd_display_name = request\<rparr>, no_client_data,
          \<lparr>aur_authenticated = (request \<noteq> ''''), aur_public_key = request\<rparr>, True)),
      pl_encode_offline = (\<lambda>i cd key. idd_xuid i @ key),
      pl_compression_id = (\<lambda>a. 1), pl_compression_by_id = (\<lambda>i. Some ''snappy''),
      pl_new_key = Some ''k'', pl_new_salt = Some ''s'', pl_server_token = (\<lambda>k s. Some ''t''),
      pl_open_token = (\<lambda>t. None), pl_base64_raw = (\<lambda>s. Some s),
      pl_scalar_mult = (\<lambda>p k. ''x''), pl_sha256 = (\<lambda>s. ''h''), pl_uuid_sha1 = (\<lambda>x. x)\<rparr>"

lemma demo_lib_simps [simp]:
  "pl_header demo_lib [] = None"
  "pl_header demo_lib (t # p) = Some (if t = CHR ''L'' then 1 else if t = CHR ''H'' then 4
     else if t = CHR ''N'' then 143 else if t = CHR ''P'' then 2 else if t = CHR ''O'' then 9 else 0, p)"
  "pl_packet demo_lib 0 p = None"
  "pl_packet demo_lib (Suc 0) p = Some (Some (LoginPk 7 p))" "pl_packet demo_lib 1 p = Some (Some (LoginPk 7 p))"
  "pl_packet demo_lib 4 p = Some (Some ClientToServerHandshakePk)"
  "pl_packet demo_lib 143 p = Some (Some (NetworkSettingsPk 1 256))"
  "pl_packet demo_lib 2 p = Some (Some (PlayStatusPk LoginSuccess))" "pl_packet demo_lib 9 p = Some (Some (OtherPk 9))"
  "pl_batch demo_lib co n f = (case co_key co of None \<Rightarrow> Some (split_byte CHR '','' f)
     | Some k \<Rightarrow> if take 1 f = ''E'' then Some (split_byte CHR '','' (drop 1 f)) else None)"
  "pl_write_ok demo_lib n = True"
  "pl_parse_login demo_lib verifier request =
     (\<lparr>idd_xuid = request, idd_identity = '''', idd_display_name = request\<rparr>, no_client_data,
      \<lparr>aur_authenticated = (request \<noteq> ''''), aur_public_key = request\<rparr>, True)"
  "pl_encode_offline demo_lib i cd key = idd_xuid i @ key"
  "pl_compression_id demo_lib a = 1" "pl_compression_by_id demo_lib w = Some ''snappy''"
  "pl_new_key demo_lib = Some ''k''" "pl_new_salt demo_lib = Some ''s''" "pl_server_token demo_lib key salt = Some ''t''"
  "pl_scalar_mult demo_lib p key = ''x''" "pl_sha256 demo_lib s = ''h''" "pl_uuid_sha1 demo_lib x = x"
  by (simp_all add: demo_lib_def)

lemma demo_shared_key [simp]: "shared_key demo_lib p key salt = Some ''h''"
  by (simp add: shared_key_def)

lemmas login_eval = read_packets_def decode_packet_def parse_data_def handle_packet_def check_client_packet_def handle_login_def
  enable_encryption_def handle_client_to_server_handshake_def handle_network_settings_def codec_defs
  client_conn_def set_client_encryption_def set_auth_enabled_def new_proxy_conn_def plain_codec_def

lemma demo_login: "\<exists>c. read_loop demo_lib 256 3 [''L1'', ''EO1,H''] (client_conn ''snappy'' True True) = Some (Finished, c, []) \<and>
    px_identity c = \<lparr>idd_xuid = ''1'', idd_identity = '''', idd_display_name = ''1''\<rparr> \<and> px_deferred c = [''O1'']"
  by (simp add: login_eval numeral_3_eq_3)

section \<open>Properties\<close>

text \<open>
  C7: the read loop of a joining client refines the login automaton: whenever it waits for a frame
  or has finished, the packets that arrived drive the automaton from its first phase to the phase
  the connection is in, and the loop has finished exactly when that phase is the last one.
\<close>

theorem client_login_refines:
  "read_loop lib th n frames (client_conn alg obtained encrypt) = Some (v, c, fs) \<Longrightarrow>
   v = Continue \<or> v = Finished \<Longrightarrow>
   \<exists>qs. login_run lib obtained encrypt AwaitLogin qs (phase_of c) \<and> (\<forall>q \<in> set qs. arrived lib frames q) \<and>
     (v = Finished \<longleftrightarrow> phase_of c = LoggedIn (px_identity c))"
  using read_loop_client [of lib th n frames "client_conn alg obtained encrypt" v c fs]
  by (simp add: phase_done)

theorem client_login_refines_witness:
  "\<exists>c qs. login_run demo_lib True True AwaitLogin qs (phase_of c) \<and>
     phase_of c = LoggedIn \<lparr>idd_xuid = ''1'', idd_identity = '''', idd_display_name = ''1''\<rparr>"
proof -
  obtain c where "read_loop demo_lib 256 3 [''L1'', ''EO1,H''] (client_conn ''snappy'' True True) = Some (Finished, c, [])"
    "px_identity c = \<lparr>idd_xuid = ''1'', idd_identity = '''', idd_display_name = ''1''\<rparr>"
    using demo_login by blast
  with client_login_refines [OF this(1)] show ?thesis by auto
qed

text \<open>
  C4: a login of a joining client finishes only with the identity of a login packet that arrived
  and that the parser verified as authenticated; when client encryption is on, a handshake packet
  arrived too, and both ends work with the key agreed with the holder of that identity.
\<close>

theorem login_needs_authentication:
  "client_login lib alg th obtained disabled frames = Some c \<Longrightarrow>
   \<exists>p request. arrived lib frames (LoginPk p request) \<and> accepted lib obtained request (px_identity c) \<and>
     (\<not> disabled \<longrightarrow> arrived lib frames ClientToServerHandshakePk \<and>
        (\<exists>k. co_key (px_dec c) = Some k \<and> agreed_key lib obtained (px_identity c) k))"
proof -
  assume "client_login lib alg th obtained disabled frames = Some c"
  from client_loginE [OF this] obtain fs
    where "read_loop lib th (Suc (length frames)) frames (client_conn alg obtained (\<not> disabled)) = Some (Finished, c, fs)" .
  from client_login_authenticated [OF this] show ?thesis by metis
qed

lemma demo_client_login: "\<exists>c. client_login demo_lib ''snappy'' 256 True False [''L1'', ''EO1,H''] = Some c \<and>
    px_identity c = \<lparr>idd_xuid = ''1'', idd_identity = '''', idd_display_name = ''1''\<rparr>"
  using demo_login by (auto simp: client_login_def numeral_3_eq_3)

theorem login_needs_authentication_witness:
  "\<exists>c. client_login demo_lib ''snappy'' 256 True False [''L1'', ''EO1,H''] = Some c \<and>
     (\<exists>request. accepted demo_lib True request (px_identity c))"
proof -
  obtain c where c: "client_login demo_lib ''snappy'' 256 True False [''L1'', ''EO1,H''] = Some c"
    using demo_client_login by blast
  with login_needs_authentication [OF this] show ?thesis by blast
qed

text \<open>
  C5: when no frame carries a handshake behind a login, a login with client encryption finishes only
  with a handshake in a frame that was read under the key agreed with the holder of the login: a
  replayed login without its private key does not get through.
\<close>

theorem handshake_proves_key:
  assumes "client_login lib alg th obtained False frames = Some c"
    "\<And>f co m pks. f \<in> set frames \<Longrightarrow> pl_batch lib co m f = Some pks \<Longrightarrow> separate lib False pks"
  shows "\<exists>f \<in> set frames. \<exists>co m pks k. pl_batch lib co m f = Some pks \<and> received lib pks ClientToServerHandshakePk \<and>
    co_key co = Some k \<and> agreed_key lib obtained (px_identity c) k"
proof -
  from client_loginE [OF assms(1)] obtain fs
    where l: "read_loop lib th (Suc (length frames)) frames (client_conn alg obtained True) = Some (Finished, c, fs)" by auto
  from client_login_authenticated [OF l] obtain k
    where "co_key (px_dec c) = Some k" "agreed_key lib obtained (px_identity c) k" by auto
  with read_loop_key [OF l _ _ _ assms(2)] show ?thesis by fastforce
qed

lemma demo_separate: "f \<in> set [''L1'', ''EO1,H''] \<Longrightarrow> pl_batch demo_lib co m f = Some pks \<Longrightarrow> separate demo_lib False pks"
  by (auto simp: decode_packet_def parse_data_def split: option.splits)

theorem handshake_proves_key_witness:
  "\<exists>c (co :: codec) k. client_login demo_lib ''snappy'' 256 True False [''L1'', ''EO1,H''] = Some c \<and>
     co_key co = Some k \<and> agreed_key demo_lib True (px_identity c) k"
proof -
  obtain c where c: "client_login demo_lib ''snappy'' 256 True False [''L1'', ''EO1,H''] = Some c"
    using demo_client_login by blast
  have "\<exists>f \<in> set [''L1'', ''EO1,H'']. \<exists>co m pks k. pl_batch demo_lib co m f = Some pks \<and>
      received demo_lib pks ClientToServerHandshakePk \<and> co_key co = Some k \<and> agreed_key demo_lib True (px_identity c) k"
    by (rule handshake_proves_key [OF c]) (rule demo_separate)
  with c show ?thesis by blast
qed

text \<open>
  C14: a batch that is read before any encryption, with a verified login and a handshake right behind
  it, finishes the login with that identity, whoever holds the private key; the rest of the batch
  is kept to be relayed.
\<close>

theorem handshake_in_login_batch:
  assumes "pl_batch lib plain_codec 0 frame = Some (raw1 # raw2 # rest)"
    "decode_packet lib raw1 = Inr (Some (LoginPk p request))"
    "decode_packet lib raw2 = Inr (Some ClientToServerHandshakePk)"
    "pl_parse_login lib obtained request = (identity, cd, auth, True)" "aur_authenticated auth"
    "pl_new_key lib = Some key" "pl_new_salt lib = Some salt" "pl_server_token lib key salt = Some jwt"
    "pl_write_ok lib 0" "shared_key lib (aur_public_key auth) key salt = Some k"
  shows "\<exists>c. client_login lib alg th obtained False [frame] = Some c \<and> px_identity c = identity \<and> px_deferred c = rest"
  using assms by (simp add: client_login_def login_eval)

theorem handshake_in_login_batch_witness:
  "\<exists>c. client_login demo_lib ''snappy'' 256 True False [''L1,H,O5''] = Some c \<and>
     px_identity c = \<lparr>idd_xuid = ''1'', idd_identity = '''', idd_display_name = ''1''\<rparr> \<and> px_deferred c = [''O5'']"
  using handshake_in_login_batch [of demo_lib "''L1,H,O5''" "''L1''" "''H''" "[''O5'']" 7 "''1''" True _ no_client_data
      "\<lparr>aur_authenticated = True, aur_public_key = ''1''\<rparr>" "''k''" "''s''" "''t''" "''h''" "''snappy''" 256]
  by (simp add: plain_codec_def decode_packet_def parse_data_def)



text \<open>
  C6: packets are relayed for a player only after both logins: the client's with a verified, allowed
  identity with an XUID, and the backend's, in which every login packet carries exactly that
  identity, the protocol of the client and the player's name.
\<close>

theorem relayed_player_is_authenticated:
  assumes "RelayPackets \<in> set (handle_conn (connection_env lib alg th obtained disabled fix_native tk cframes bframes env))"
  shows "\<exists>c b request. client_login lib alg th obtained disabled cframes = Some c \<and>
    accepted lib obtained request (px_identity c) \<and> idd_xuid (px_identity c) \<noteq> '''' \<and>
    (\<forall>allow. re_allow env = Some allow \<longrightarrow> allow (idd_xuid (px_identity c))) \<and>
    backend_login lib alg th fix_native tk bframes c = (Finished, b) \<and>
    (\<forall>co q r. (co, LoginPk q r) \<in> set (px_out b) \<longrightarrow> q = px_protocol c \<and>
       (\<exists>cd key. r = pl_encode_offline lib (px_identity c) cd key \<and>
          cld_third_party_name cd = idd_display_name (px_identity c)))"
proof -
  let ?env = "connection_env lib alg th obtained disabled fix_native tk cframes bframes env"
  obtain c where c: "client_login lib alg th obtained disabled cframes = Some c"
    using assms by (cases "client_login lib alg th obtained disabled cframes")
      (auto simp: connection_env_def handle_conn_def)
  then have env: "re_login ?env = Some (idd_xuid (px_identity c), idd_display_name (px_identity c))"
    "re_forward ?env \<longleftrightarrow> fst (backend_login lib alg th fix_native tk bframes c) = Finished" "re_allow ?env = re_allow env"
    by (simp_all add: connection_env_def)
  from assms env(1) have x: "idd_xuid (px_identity c) \<noteq> ''''" "re_forward ?env"
    "\<forall>allow. re_allow env = Some allow \<longrightarrow> allow (idd_xuid (px_identity c))"
    by (auto simp: handle_conn_def relay_session_def env(3) split: if_splits option.splits sum.splits)
  then obtain b where b: "backend_login lib alg th fix_native tk bframes c = (Finished, b)"
    using env(2) by (cases "backend_login lib alg th fix_native tk bframes c") simp
  then obtain fs where f: "forward_identity lib th (Suc (length bframes)) (px_protocol c) (px_identity c)
      (px_client_data c) fix_native tk bframes (new_proxy_conn alg False) = Some (Finished, b, fs)"
    by (auto simp: backend_login_def split: option.splits prod.splits)
  have "q = px_protocol c \<and> (\<exists>cd key. r = pl_encode_offline lib (px_identity c) cd key \<and>
      cld_third_party_name cd = idd_display_name (px_identity c))" if "(co, LoginPk q r) \<in> set (px_out b)" for co q r
    using forward_identity_logins [OF f that] by (metis forwarded_name)
  with c x b client_loginE [OF c] client_login_authenticated show ?thesis by metis
qed

lemma demo_backend: "fst (backend_login demo_lib ''snappy'' 256 True None [''N'', ''P''] c) = Finished"
  by (simp add: backend_login_def forward_identity_def prepare_login_def login_eval Let_def numeral_3_eq_3)

theorem relayed_player_is_authenticated_witness:
  "\<exists>c b request. client_login demo_lib ''snappy'' 256 True False [''L1'', ''EO1,H''] = Some c \<and>
     accepted demo_lib True request (px_identity c) \<and>
     backend_login demo_lib ''snappy'' 256 True None [''N'', ''P''] c = (Finished, b)"
proof -
  let ?env = "\<lparr>re_login = None, re_allow = Some (\<lambda>x. x = ''1''), re_conn = (), re_dial = Inr (), re_reports = False,
    re_forward = False, re_on_join = True\<rparr>"
  obtain c where c: "client_login demo_lib ''snappy'' 256 True False [''L1'', ''EO1,H''] = Some c"
    "px_identity c = \<lparr>idd_xuid = ''1'', idd_identity = '''', idd_display_name = ''1''\<rparr>"
    using demo_client_login by blast
  have "RelayPackets \<in> set (handle_conn (connection_env demo_lib ''snappy'' 256 True False True None
      [''L1'', ''EO1,H''] [''N'', ''P''] ?env))"
    using demo_backend [of c] by (simp add: connection_env_def c handle_conn_def relay_session_def)
  from relayed_player_is_authenticated [OF this] show ?thesis by blast
qed



end
