(* ===== verification/Player_File.thy ===== *)
theory Player_File
  imports Friend_Adder
begin

text \<open>
  The player files of the scraper (\<open>cmd/scraper/main.go\<close> and \<open>cmd/scraper/expiry.go\<close>): the append
  handles and the rewriting of the files, on a file system with inodes, since a handle that was
  opened before a rename goes on writing to the file that lost its name; and the recording of the
  players of a player list.
\<close>

section \<open>Files, names and inodes\<close>

record disk =
  dk_names :: "string \<Rightarrow> nat option"
  dk_data :: "nat \<Rightarrow> string"
  dk_next :: nat

definition disk_file :: "string \<Rightarrow> disk \<Rightarrow> string option" where
  "disk_file path d = map_option (dk_data d) (dk_names d path)"

definition new_inode :: "string \<Rightarrow> string \<Rightarrow> disk \<Rightarrow> nat \<times> disk" where
  "new_inode path s d =
     (dk_next d, d\<lparr>dk_names := (dk_names d)(path \<mapsto> dk_next d), dk_data := (dk_data d)(dk_next d := s),
                   dk_next := Suc (dk_next d)\<rparr>)"

text \<open>\<open>os.OpenFile\<close> with \<open>O_APPEND|O_CREATE|O_WRONLY\<close>, and a write through a handle.\<close>

definition open_append :: "string \<Rightarrow> disk \<Rightarrow> nat \<times> disk" where
  "open_append path d = (case dk_names d path of Some i \<Rightarrow> (i, d) | None \<Rightarrow> new_inode path '''' d)"

definition write_inode :: "nat \<Rightarrow> string \<Rightarrow> disk \<Rightarrow> disk" where
  "write_inode i s d = d\<lparr>dk_data := (dk_data d)(i := dk_data d i @ s)\<rparr>"

section \<open>The companion file\<close>

text \<open>\<open>filepath.Ext\<close> of a name, and \<open>seenPath\<close> for a path without a directory, as the scraper uses it.\<close>

definition file_ext :: "string \<Rightarrow> string" where
  "file_ext base =
     (if CHR ''.'' \<in> set base then CHR ''.'' # rev (takeWhile (\<lambda>c. c \<noteq> CHR ''.'') (rev base)) else '''')"

definition seen_path :: "string \<Rightarrow> string" where
  "seen_path base = ''.'' @ trim_suffix base (file_ext base) @ ''.seen''"

text \<open>
  \<open>readLines\<close>: the non-empty lines, none for a missing file; \<open>None\<close> when the scanner reports an error.
\<close>

definition read_lines :: "string \<Rightarrow> disk \<Rightarrow> string list option" where
  "read_lines path d =
     (case disk_file path d of
        None \<Rightarrow> Some []
      | Some s \<Rightarrow> (let (ls, ok) = scan_lines s in if ok then Some (filter (\<lambda>l. l \<noteq> []) ls) else None))"

text \<open>\<open>rewriteLines\<close>: a temp file that takes the name; \<open>io\<close> says whether every step succeeded.\<close>

definition rewrite_lines :: "bool \<Rightarrow> string \<Rightarrow> string list \<Rightarrow> disk \<Rightarrow> disk option" where
  "rewrite_lines io path ls d = (if io then Some (snd (new_inode path (unlines ls) d)) else None)"

definition seen_expired :: "instant \<Rightarrow> string \<Rightarrow> bool" where
  "seen_expired now line =
     (case parse_int64 (trim_space (fst (snd (cut_byte CHR '','' line)))) of
        None \<Rightarrow> False
      | Some sec \<Rightarrow> time_sub now (time_unix sec) > expiry)"

definition line_xuid :: "string \<Rightarrow> xuid" where
  "line_xuid line = fst (cut_byte CHR '','' line)"

definition expired_players :: "instant \<Rightarrow> string list \<Rightarrow> xuid list" where
  "expired_players now stamps = map line_xuid (filter (seen_expired now) stamps)"

definition remove_players :: "bool \<Rightarrow> xuid list \<Rightarrow> string \<Rightarrow> disk \<Rightarrow> disk option" where
  "remove_players io expired path d =
     (case read_lines path d of
        None \<Rightarrow> None
      | Some ls \<Rightarrow> rewrite_lines io path (filter (\<lambda>l. line_xuid l \<notin> set expired) ls) d)"

definition prune_expired :: "instant \<Rightarrow> bool \<Rightarrow> bool \<Rightarrow> string \<Rightarrow> disk \<Rightarrow> disk" where
  "prune_expired now io io_seen path d =
     (case read_lines (seen_path path) d of
        None \<Rightarrow> d
      | Some stamps \<Rightarrow>
          (let expired = expired_players now stamps
           in if expired = [] then d
              else (case remove_players io expired path d of
                      None \<Rightarrow> d
                    | Some d1 \<Rightarrow>
                        (case remove_players io_seen expired (seen_path path) d1 of None \<Rightarrow> d1 | Some d2 \<Rightarrow> d2))))"

section \<open>The queue writer\<close>

text \<open>Its handles; \<open>None\<close> is a closed one.\<close>

record queue_writer =
  qw_path :: string
  qw_f :: "nat option"
  qw_seen :: "nat option"

text \<open>\<open>open\<close>: the flags say whether the two files could be opened.\<close>

definition open_writer :: "bool \<Rightarrow> bool \<Rightarrow> queue_writer \<Rightarrow> disk \<Rightarrow> bool \<times> queue_writer \<times> disk" where
  "open_writer ok ok_seen w d =
     (if \<not> ok then (False, w, d)
      else (let (f, d) = open_append (qw_path w) d
            in if \<not> ok_seen then (False, w, d)
               else (let (g, d) = open_append (seen_path (qw_path w)) d
                     in (True, w\<lparr>qw_f := Some f, qw_seen := Some g\<rparr>, d))))"

definition new_queue_writer :: "bool \<Rightarrow> bool \<Rightarrow> string \<Rightarrow> disk \<Rightarrow> queue_writer option \<times> disk" where
  "new_queue_writer ok ok_seen path d =
     (let (opened, w, d) = open_writer ok ok_seen \<lparr>qw_path = path, qw_f = None, qw_seen = None\<rparr> d
      in (if opened then Some w else None, d))"

text \<open>
  \<open>append\<close>: \<open>ok\<close>, \<open>ok_seen\<close> and \<open>synced\<close> say whether the two writes and the syncs succeeded. The
  flag of the result is \<open>err == nil\<close>.
\<close>

definition append_player ::
  "bool \<Rightarrow> bool \<Rightarrow> bool \<Rightarrow> instant \<Rightarrow> xuid \<Rightarrow> string \<Rightarrow> queue_writer \<Rightarrow> disk \<Rightarrow> bool \<times> disk" where
  "append_player ok ok_seen synced now x line w d =
     (case qw_f w of
        None \<Rightarrow> (False, d)
      | Some f \<Rightarrow>
          (if \<not> ok then (False, d)
           else (let d = write_inode f (line @ [newline]) d
                 in case qw_seen w of
                      None \<Rightarrow> (False, d)
                    | Some g \<Rightarrow>
                        (if \<not> ok_seen then (False, d)
                         else (synced, write_inode g (x @ '','' @ show_int (unix_of now) @ [newline]) d)))))"

definition reopen_writer :: "bool \<Rightarrow> bool \<Rightarrow> queue_writer \<Rightarrow> disk \<Rightarrow> bool \<times> queue_writer \<times> disk" where
  "reopen_writer ok ok_seen w d = open_writer ok ok_seen (w\<lparr>qw_f := None, qw_seen := None\<rparr>) d"

text \<open>One tick of \<open>runPeriodicPrune\<close> that nothing interrupts.\<close>

definition periodic_prune :: "instant \<Rightarrow> queue_writer \<Rightarrow> disk \<Rightarrow> queue_writer \<times> disk" where
  "periodic_prune now w d =
     (let d = prune_expired now True True (qw_path w) d;
          (opened, w, d) = reopen_writer True True w d
      in (w, d))"

section \<open>Recording a player list\<close>

definition csv_field :: "string \<Rightarrow> string" where
  "csv_field s =
     concat (map (\<lambda>c. if c = CHR '','' then '''' else if c = newline \<or> c = carriage_return then '' '' else [c]) s)"

record player_entry =
  pe_add :: bool
  pe_xuid :: xuid
  pe_username :: string

definition player_line :: "string \<Rightarrow> player_entry \<Rightarrow> string" where
  "player_line source e = pe_xuid e @ '','' @ csv_field (pe_username e) @ '','' @ source"

text \<open>The \<open>append\<close> calls of \<open>recordPlayerList\<close>, in order, and the players seen. A packet is \<open>None\<close>
  unless it is a player list.\<close>

fun record_entries ::
  "string \<Rightarrow> xuid set \<Rightarrow> player_entry list \<Rightarrow> (xuid \<times> string) list \<times> xuid set" where
  "record_entries source seen [] = ([], seen)"
| "record_entries source seen (e # es) =
     (if \<not> pe_add e then record_entries source seen es
      else if pe_xuid e = '''' \<or> pe_xuid e \<in> seen then record_entries source seen es
      else (let (calls, seen) = record_entries source (insert (pe_xuid e) seen) es
            in ((pe_xuid e, player_line source e) # calls, seen)))"

fun record_player_list ::
  "string \<Rightarrow> xuid set \<Rightarrow> player_entry list option list \<Rightarrow> (xuid \<times> string) list \<times> xuid set" where
  "record_player_list source seen [] = ([], seen)"
| "record_player_list source seen (None # pks) = record_player_list source seen pks"
| "record_player_list source seen (Some entries # pks) =
     (let (calls, seen) = record_entries source seen entries;
          (calls', seen) = record_player_list source seen pks
      in (calls @ calls', seen))"

definition load_already_seen :: "string option \<Rightarrow> xuid set" where
  "load_already_seen f =
     (case f of
        None \<Rightarrow> {}
      | Some s \<Rightarrow> set (map line_xuid (filter (\<lambda>l. l \<noteq> []) (fst (scan_lines s)))))"

text \<open>The players \<open>main\<close> starts with: those of the file, and the account itself.\<close>

definition initial_seen :: "xuid \<Rightarrow> string option \<Rightarrow> xuid set" where
  "initial_seen self f = load_already_seen f \<union> (if self = '''' then {} else {self})"

section \<open>What the writer keeps\<close>

text \<open>
  Abstractly, the two files are one list of records: the player, the line and the second of the
  discovery.
\<close>

type_synonym player_record = "xuid \<times> string \<times> int"

definition record_ok :: "player_record \<Rightarrow> bool" where
  "record_ok r \<longleftrightarrow> (case r of (x, line, sec) \<Rightarrow> x \<noteq> '''' \<and> CHR '','' \<notin> set x \<and> plain_line line \<and> line_xuid line = x \<and>
     plain_line (x @ '','' @ show_int sec) \<and> in_int64 sec)"

definition stamp :: "player_record \<Rightarrow> string" where
  "stamp r = fst r @ '','' @ show_int (snd (snd r))"

definition prune_records :: "instant \<Rightarrow> player_record list \<Rightarrow> player_record list" where
  "prune_records now rs =
     filter (\<lambda>r. \<not> (\<exists>q \<in> set rs. fst q = fst r \<and> time_sub now (time_unix (snd (snd q))) > expiry)) rs"

definition holds_records :: "queue_writer \<Rightarrow> disk \<Rightarrow> player_record list \<Rightarrow> bool" where
  "holds_records w d rs \<longleftrightarrow>
     (\<exists>i j. qw_f w = Some i \<and> qw_seen w = Some j \<and> i \<noteq> j \<and> i < dk_next d \<and> j < dk_next d \<and>
        dk_names d (qw_path w) = Some i \<and> dk_names d (seen_path (qw_path w)) = Some j \<and>
        dk_data d i = unlines (map (\<lambda>r. fst (snd r)) rs) \<and> dk_data d j = unlines (map stamp rs)) \<and>
     list_all record_ok rs"

datatype writer_event = AppendPlayer instant xuid string | DailyPrune instant

fun writer_step :: "writer_event \<Rightarrow> queue_writer \<times> disk \<Rightarrow> queue_writer \<times> disk" where
  "writer_step (AppendPlayer now x line) (w, d) = (w, snd (append_player True True True now x line w d))"
| "writer_step (DailyPrune now) (w, d) = periodic_prune now w d"

fun record_step :: "writer_event \<Rightarrow> player_record list \<Rightarrow> player_record list" where
  "record_step (AppendPlayer now x line) rs = rs @ [(x, line, unix_of now)]"
| "record_step (DailyPrune now) rs = prune_records now rs"

fun event_ok :: "writer_event \<Rightarrow> bool" where
  "event_ok (AppendPlayer now x line) = record_ok (x, line, unix_of now)"
| "event_ok (DailyPrune now) = True"

section \<open>Lemmas\<close>

lemma line_xuid_stamp: "record_ok r \<Longrightarrow> line_xuid (stamp r) = fst r"
  by (auto simp: record_ok_def stamp_def line_xuid_def)

lemma seen_expired_stamp:
  "record_ok r \<Longrightarrow> seen_expired now (stamp r) \<longleftrightarrow> time_sub now (time_unix (snd (snd r))) > expiry"
  by (auto simp: record_ok_def stamp_def seen_expired_def)

lemma expired_stamps:
  "list_all record_ok rs \<Longrightarrow> set (expired_players now (map stamp rs)) =
     fst ` {q \<in> set rs. time_sub now (time_unix (snd (snd q))) > expiry}"
  by (force simp: expired_players_def list_all_iff line_xuid_stamp seen_expired_stamp)

lemma filter_records:
  assumes "list_all record_ok rs"
  shows "filter (\<lambda>l. line_xuid l \<notin> set (expired_players now (map stamp rs))) (map (\<lambda>r. fst (snd r)) rs) =
      map (\<lambda>r. fst (snd r)) (prune_records now rs)"
    and "filter (\<lambda>l. line_xuid l \<notin> set (expired_players now (map stamp rs))) (map stamp rs) =
      map stamp (prune_records now rs)"
proof -
  have iff: "fst r \<notin> set (expired_players now (map stamp rs)) \<longleftrightarrow>
      \<not> (\<exists>q \<in> set rs. fst q = fst r \<and> time_sub now (time_unix (snd (snd q))) > expiry)" for r
    unfolding expired_stamps [OF assms] by force
  have line: "line_xuid (fst (snd r)) = fst r" "line_xuid (stamp r) = fst r" if "r \<in> set rs" for r
    using assms that line_xuid_stamp by (auto simp: list_all_iff record_ok_def)
  show "filter (\<lambda>l. line_xuid l \<notin> set (expired_players now (map stamp rs))) (map (\<lambda>r. fst (snd r)) rs) =
      map (\<lambda>r. fst (snd r)) (prune_records now rs)"
    unfolding prune_records_def filter_map comp_def using line(1) iff by (intro arg_cong [where f = "map _"] filter_cong) simp_all
  show "filter (\<lambda>l. line_xuid l \<notin> set (expired_players now (map stamp rs))) (map stamp rs) =
      map stamp (prune_records now rs)"
    unfolding prune_records_def filter_map comp_def using line(2) iff by (intro arg_cong [where f = "map _"] filter_cong) simp_all
qed

lemma record_okD:
  "record_ok r \<Longrightarrow> plain_line (fst (snd r))" "record_ok r \<Longrightarrow> plain_line (stamp r)"
  "record_ok r \<Longrightarrow> fst (snd r) \<noteq> []" "record_ok r \<Longrightarrow> stamp r \<noteq> []"
  by (auto simp: record_ok_def stamp_def line_xuid_def cut_byte_def)

lemma record_ok_lines:
  assumes "list_all record_ok rs"
  shows "scan_lines (unlines (map (\<lambda>r. fst (snd r)) rs)) = (map (\<lambda>r. fst (snd r)) rs, True)"
    and "scan_lines (unlines (map stamp rs)) = (map stamp rs, True)"
    and "filter (\<lambda>l. l \<noteq> []) (map (\<lambda>r. fst (snd r)) rs) = map (\<lambda>r. fst (snd r)) rs"
    and "filter (\<lambda>l. l \<noteq> []) (map stamp rs) = map stamp rs"
proof -
  have ok: "record_ok r" if "r \<in> set rs" for r
    using assms that by (simp add: list_all_iff)
  show "scan_lines (unlines (map (\<lambda>r. fst (snd r)) rs)) = (map (\<lambda>r. fst (snd r)) rs, True)"
    by (rule scan_unlines) (use record_okD(1) [OF ok] in force)
  show "scan_lines (unlines (map stamp rs)) = (map stamp rs, True)"
    by (rule scan_unlines) (use record_okD(2) [OF ok] in force)
  show "filter (\<lambda>l. l \<noteq> []) (map (\<lambda>r. fst (snd r)) rs) = map (\<lambda>r. fst (snd r)) rs"
    using record_okD(3) [OF ok] by (force simp: filter_id_conv)
  show "filter (\<lambda>l. l \<noteq> []) (map stamp rs) = map stamp rs"
    using record_okD(4) [OF ok] by (force simp: filter_id_conv)
qed

lemma read_lines_held:
  assumes "holds_records w d rs"
  shows "read_lines (qw_path w) d = Some (map (\<lambda>r. fst (snd r)) rs)"
    and "read_lines (seen_path (qw_path w)) d = Some (map stamp rs)"
  using assms record_ok_lines [of rs] by (auto simp: holds_records_def read_lines_def disk_file_def)

lemma prune_records_ok: "list_all record_ok rs \<Longrightarrow> list_all record_ok (prune_records now rs)"
  by (auto simp: prune_records_def list_all_iff)

lemma nothing_expired:
  assumes "list_all record_ok rs" "expired_players now (map stamp rs) = []"
  shows "prune_records now rs = rs"
proof -
  from expired_stamps [OF assms(1), of now] assms(2)
  have "{q \<in> set rs. time_sub now (time_unix (snd (snd q))) > expiry} = {}" by simp
  then have "\<not> time_sub now (time_unix (snd (snd q))) > expiry" if "q \<in> set rs" for q
    using that by blast
  then show ?thesis by (auto simp: prune_records_def filter_id_conv)
qed

lemma append_holds:
  assumes "holds_records w d rs" "record_ok (x, line, unix_of now)"
  shows "holds_records w (snd (append_player True True True now x line w d)) (rs @ [(x, line, unix_of now)])"
  using assms
  by (auto simp: holds_records_def append_player_def write_inode_def stamp_def Let_def unlines_def)

lemma reopen_held:
  assumes "holds_records w d rs"
  shows "reopen_writer True True w d = (True, w, d)"
  using assms
  by (auto simp: holds_records_def reopen_writer_def open_writer_def open_append_def)

lemma prune_expired_disk:
  assumes "holds_records w d rs" "expired_players now (map stamp rs) \<noteq> []"
  shows "prune_expired now True True (qw_path w) d =
    snd (new_inode (seen_path (qw_path w)) (unlines (map stamp (prune_records now rs)))
      (snd (new_inode (qw_path w) (unlines (map (\<lambda>r. fst (snd r)) (prune_records now rs))) d)))"
proof -
  from assms have ok: "list_all record_ok rs" by (simp add: holds_records_def)
  note rd = read_lines_held [OF assms(1)]
  let ?E = "expired_players now (map stamp rs)"
  let ?p = "qw_path w" let ?q = "seen_path (qw_path w)"
  let ?ls = "unlines (map (\<lambda>r. fst (snd r)) (prune_records now rs))"
  let ?d1 = "snd (new_inode ?p ?ls d)"
  from assms have pq: "?p \<noteq> ?q" by (auto simp: holds_records_def)
  have one: "remove_players True ?E ?p d = Some ?d1"
    by (simp add: remove_players_def rd rewrite_lines_def filter_records [OF ok])
  have "read_lines ?q ?d1 = Some (map stamp rs)"
    using rd(2) pq assms by (auto simp: read_lines_def disk_file_def new_inode_def holds_records_def)
  then have "remove_players True ?E ?q ?d1 =
      Some (snd (new_inode ?q (unlines (map stamp (prune_records now rs))) ?d1))"
    by (simp add: remove_players_def rewrite_lines_def filter_records [OF ok])
  with assms(2) one show ?thesis by (simp add: prune_expired_def rd Let_def)
qed

lemma prune_holds:
  assumes "holds_records w d rs"
  shows "case periodic_prune now w d of (w', d') \<Rightarrow> qw_path w' = qw_path w \<and> holds_records w' d' (prune_records now rs)"
proof -
  from assms have ok: "list_all record_ok rs" by (simp add: holds_records_def)
  note rd = read_lines_held [OF assms]
  let ?E = "expired_players now (map stamp rs)"
  let ?p = "qw_path w" let ?q = "seen_path (qw_path w)"
  show ?thesis
  proof (cases "?E = []")
    case True
    then have "prune_expired now True True ?p d = d"
      by (simp add: prune_expired_def rd Let_def)
    with reopen_held [OF assms] nothing_expired [OF ok True] assms show ?thesis
      by (simp add: periodic_prune_def)
  next
    case False
    let ?ls = "unlines (map (\<lambda>r. fst (snd r)) (prune_records now rs))"
    let ?ss = "unlines (map stamp (prune_records now rs))"
    let ?d1 = "snd (new_inode ?p ?ls d)"
    let ?d2 = "snd (new_inode ?q ?ss ?d1)"
    from assms have pq: "?p \<noteq> ?q" by (auto simp: holds_records_def)
    note pr = prune_expired_disk [OF assms False]
    have "reopen_writer True True w ?d2 = (True, w\<lparr>qw_f := Some (dk_next d), qw_seen := Some (Suc (dk_next d))\<rparr>, ?d2)"
      using pq by (simp add: reopen_writer_def open_writer_def open_append_def new_inode_def)
    with pr pq prune_records_ok [OF ok, of now] show ?thesis
      by (simp add: periodic_prune_def holds_records_def new_inode_def)
  qed
qed

lemma writer_step_holds:
  assumes "holds_records w d rs" "event_ok e"
  shows "case writer_step e (w, d) of (w', d') \<Rightarrow> qw_path w' = qw_path w \<and> holds_records w' d' (record_step e rs)"
  using append_holds [OF assms(1)] prune_holds [OF assms(1)] assms(2)
  by (cases e) (auto split: prod.splits)

lemma writer_run_holds:
  assumes "holds_records w d rs" "list_all event_ok es"
  shows "case fold writer_step es (w, d) of (w', d') \<Rightarrow>
    qw_path w' = qw_path w \<and> holds_records w' d' (fold record_step es rs)"
  using assms
proof (induction es arbitrary: w d rs)
  case (Cons e es)
  obtain w1 d1 where one: "writer_step e (w, d) = (w1, d1)" by (cases "writer_step e (w, d)")
  with writer_step_holds [OF Cons.prems(1), of e] Cons.prems(2)
  have "qw_path w1 = qw_path w" "holds_records w1 d1 (record_step e rs)" by auto
  with Cons.IH [of w1 d1 "record_step e rs"] Cons.prems(2) one show ?case by simp
qed simp



text \<open>A new writer on a disk that has neither file, and one more where a scraper has run before.\<close>

definition empty_disk :: disk where
  "empty_disk = \<lparr>dk_names = (\<lambda>p. None), dk_data = (\<lambda>i. ''''), dk_next = 0\<rparr>"

lemma new_writer_holds:
  assumes "seen_path path \<noteq> path"
  obtains w d where "new_queue_writer True True path empty_disk = (Some w, d)" "qw_path w = path" "holds_records w d []"
  using assms that [of "\<lparr>qw_path = path, qw_f = Some 0, qw_seen = Some 1\<rparr>"]
  by (simp add: new_queue_writer_def open_writer_def open_append_def new_inode_def empty_disk_def holds_records_def
      unlines_def)

text \<open>The players a list of packets adds, and what is recorded of them.\<close>

definition added_players :: "player_entry list option list \<Rightarrow> xuid set" where
  "added_players pks =
     {pe_xuid e | e es. Some es \<in> set pks \<and> e \<in> set es \<and> pe_add e \<and> pe_xuid e \<noteq> ''''}"

lemma record_entries_exact:
  "record_entries source seen es = (calls, seen') \<Longrightarrow>
   distinct (map fst calls) \<and> set (map fst calls) = {pe_xuid e | e. e \<in> set es \<and> pe_add e \<and> pe_xuid e \<noteq> ''''} - seen \<and>
   seen' = seen \<union> set (map fst calls) \<and> (\<forall>(x, l) \<in> set calls. \<exists>name. l = x @ '','' @ csv_field name @ '','' @ source)"
proof (induction es arbitrary: seen calls)
  case Nil
  then show ?case by simp
next
  case (Cons e es)
  show ?case
  proof (cases "\<not> pe_add e \<or> pe_xuid e = '''' \<or> pe_xuid e \<in> seen")
    case True
    with Cons.prems have "record_entries source seen es = (calls, seen')" by (auto split: if_splits)
    from Cons.IH [OF this] True show ?thesis by auto
  next
    case False
    then obtain calls1 where r: "record_entries source (insert (pe_xuid e) seen) es = (calls1, seen')"
      and c: "calls = (pe_xuid e, player_line source e) # calls1"
      using Cons.prems by (auto split: prod.splits)
    from Cons.IH [OF r] c False show ?thesis by (auto simp: player_line_def)
  qed
qed

lemma record_player_list_exact:
  "record_player_list source seen pks = (calls, seen') \<Longrightarrow>
   distinct (map fst calls) \<and> set (map fst calls) = added_players pks - seen \<and>
   seen' = seen \<union> set (map fst calls) \<and> (\<forall>(x, l) \<in> set calls. \<exists>name. l = x @ '','' @ csv_field name @ '','' @ source)"
proof (induction source seen pks arbitrary: calls seen' rule: record_player_list.induct)
  case (1 source seen)
  then show ?case by (simp add: added_players_def)
next
  case (2 source seen pks)
  then show ?case by (simp add: added_players_def)
next
  case (3 source seen entries pks)
  obtain c1 s1 where one: "record_entries source seen entries = (c1, s1)" by (cases "record_entries source seen entries")
  obtain c2 where two: "record_player_list source s1 pks = (c2, seen')" "calls = c1 @ c2"
    using 3(2) one by (auto split: prod.splits)
  note e = record_entries_exact [OF one]
  note l = 3(1) [OF one [symmetric] refl two(1)]
  have "added_players (Some entries # pks) =
      {pe_xuid e | e. e \<in> set entries \<and> pe_add e \<and> pe_xuid e \<noteq> ''''} \<union> added_players pks"
    by (auto simp: added_players_def)
  with e l two(2) show ?case by auto
qed

lemma csv_field_chars: "CHR '','' \<notin> set (csv_field s)" "newline \<notin> set (csv_field s)" "carriage_return \<notin> set (csv_field s)"
  by (auto simp: csv_field_def newline_def carriage_return_def)

lemma recorded_line_player:
  assumes "CHR '','' \<notin> set x" "f \<in> set fs" "fs \<noteq> []"
  shows "recorded_line (trim_space (csv_field f)) (x @ '','' @ csv_field name @ '','' @ join '','' (map csv_field fs)) =
    [\<lparr>at_xuid = x, at_name = csv_field name\<rparr>]"
proof -
  have "split_byte CHR '','' (join '','' (map csv_field fs)) = map csv_field fs"
    using assms(3) csv_field_chars(1) by (intro split_join_byte) auto
  then have s: "split_byte CHR '','' (x @ '','' @ csv_field name @ '','' @ join '','' (map csv_field fs)) =
      x # csv_field name # map csv_field fs"
    using assms(1) csv_field_chars(1) [of name] by simp
  have "list_ex (\<lambda>place. equal_fold (trim_space place) (trim_space (csv_field f))) (map csv_field fs)"
    using assms(2) by (auto simp: list_ex_iff equal_fold_def)
  with s assms(3) show ?thesis by (cases fs) (simp_all add: recorded_line_def Let_def)
qed

lemma demo_record: "record_ok (''5'', ''5,Al,Hive'', 7)"
proof -
  have "show_int 7 = ''7''" by code_simp
  then show ?thesis
    by (simp add: record_ok_def plain_line_def line_xuid_def cut_byte_def max_scan_token_def newline_def
        carriage_return_def in_int64_def min_int64_def max_int64_def)
qed

section \<open>Properties\<close>



text \<open>
  A player who is recorded after the daily prune has replaced the files and before they are opened
  again is in neither of them, although the write succeeds.
\<close>

theorem append_before_reopen_is_lost:
  assumes "holds_records w d rs" "expired_players now (map stamp rs) \<noteq> []"
    "append_player True True True now x line w (prune_expired now True True (qw_path w) d) = (ok, d')"
    "reopen_writer True True w d' = (opened, w'', d'')"
  shows "ok \<and> opened \<and> disk_file (qw_path w) d'' = Some (unlines (map (\<lambda>r. fst (snd r)) (prune_records now rs))) \<and>
    disk_file (seen_path (qw_path w)) d'' = Some (unlines (map stamp (prune_records now rs)))"
proof -
  let ?d = "prune_expired now True True (qw_path w) d"
  obtain i j where ij: "qw_f w = Some i" "qw_seen w = Some j" "i < dk_next d" "j < dk_next d"
    using assms(1) by (auto simp: holds_records_def)
  let ?ls = "unlines (map (\<lambda>r. fst (snd r)) (prune_records now rs))"
  let ?ss = "unlines (map stamp (prune_records now rs))"
  have pr: "?d = snd (new_inode (seen_path (qw_path w)) ?ss (snd (new_inode (qw_path w) ?ls d)))"
    and pq: "qw_path w \<noteq> seen_path (qw_path w)"
    using prune_expired_disk [OF assms(1,2)] assms(1) by (auto simp: holds_records_def)
  have d': "ok" "d' = write_inode j (x @ '','' @ show_int (unix_of now) @ [newline]) (write_inode i (line @ [newline]) ?d)"
    using assms(3) ij(1,2) by (auto simp: append_player_def Let_def)
  from assms(4) pq show ?thesis
    using d'(1) ij(3,4) unfolding d'(2) pr
    by (auto simp: reopen_writer_def open_writer_def open_append_def new_inode_def write_inode_def disk_file_def)
qed

theorem append_before_reopen_is_lost_witness:
  "\<exists>w d now. holds_records w d [(''5'', ''5,Al,Hive'', 7)] \<and>
     (\<exists>d'' w''. reopen_writer True True w (snd (append_player True True True now ''6'' ''6,Bo,Hive'' w
          (prune_expired now True True (qw_path w) d))) = (True, w'', d'') \<and> disk_file (qw_path w) d'' = Some '''')"
proof -
  have path: "seen_path ''p.txt'' \<noteq> ''p.txt''" by (simp add: seen_path_def)
  obtain w d0 where "holds_records w d0 []"
    using new_writer_holds [OF path] by metis
  from append_holds [OF this, of "''5''" "''5,Al,Hive''" "7 * second"] demo_record obtain d
    where h: "holds_records w d [(''5'', ''5,Al,Hive'', 7)]" by (auto simp: unix_of_def second_def)
  let ?rs = "[(''5'', ''5,Al,Hive'', 7)] :: player_record list" let ?now = "expiry + 8 * second"
  have old: "time_sub ?now (time_unix 7) > expiry"
    by (simp add: time_sub_def time_unix_def unix_to_internal_def wrap64_def clamp64_def expiry_def hour_def
        minute_def second_def max_int64_def min_int64_def)
  have "''5'' \<in> fst ` {q \<in> set ?rs. time_sub ?now (time_unix (snd (snd q))) > expiry}"
    by (rule image_eqI [of _ _ "(''5'', ''5,Al,Hive'', 7)"]) (simp_all add: old)
  moreover have "list_all record_ok ?rs" using demo_record by simp
  ultimately have "''5'' \<in> set (expired_players ?now (map stamp ?rs))" by (simp only: expired_stamps)
  then have e: "expired_players ?now (map stamp ?rs) \<noteq> []" by (metis empty_iff empty_set)
  obtain ok d' where a: "append_player True True True ?now ''6'' ''6,Bo,Hive'' w (prune_expired ?now True True (qw_path w) d) = (ok, d')"
    by (cases "append_player True True True ?now ''6'' ''6,Bo,Hive'' w (prune_expired ?now True True (qw_path w) d)")
  obtain opened w'' d'' where r: "reopen_writer True True w d' = (opened, w'', d'')"
    by (cases "reopen_writer True True w d'")
  have "prune_records ?now ?rs = []" using old by (simp add: prune_records_def)
  with append_before_reopen_is_lost [OF h e a r] have "opened" "disk_file (qw_path w) d'' = Some ''''"
    by (simp_all add: unlines_def)
  moreover from r a \<open>opened\<close> have "reopen_writer True True w (snd (append_player True True True ?now ''6'' ''6,Bo,Hive'' w
          (prune_expired ?now True True (qw_path w) d))) = (True, w'', d'')" by simp
  ultimately show ?thesis using h by blast
qed

text \<open>
  While the scraper reads player lists, it records each player that is added at most once, and
  records exactly those it had not seen: never one of the file it started with, nor its own account.
\<close>

theorem players_recorded_once:
  assumes "record_player_list source (initial_seen self f) pks = (calls, seen)"
  shows "distinct (map fst calls) \<and> set (map fst calls) = added_players pks - initial_seen self f \<and>
    (self \<noteq> '''' \<longrightarrow> self \<notin> set (map fst calls)) \<and> seen = initial_seen self f \<union> added_players pks"
  using record_player_list_exact [OF assms] by (auto simp: initial_seen_def)

definition demo_packets :: "player_entry list option list" where
  "demo_packets = [Some [\<lparr>pe_add = True, pe_xuid = ''5'', pe_username = ''A,l''\<rparr>, \<lparr>pe_add = True, pe_xuid = ''9'', pe_username = ''Me''\<rparr>],
     None, Some [\<lparr>pe_add = True, pe_xuid = ''5'', pe_username = ''Al''\<rparr>]]"

theorem players_recorded_once_witness:
  "\<exists>calls seen. record_player_list ''Hive'' (initial_seen ''9'' None) demo_packets = (calls, seen) \<and>
     map fst calls = [''5''] \<and> seen = {''5'', ''9''}"
proof -
  have "fst (record_player_list ''Hive'' (initial_seen ''9'' None) demo_packets) = [(''5'', ''5,Al,Hive'')]"
    by (simp add: demo_packets_def initial_seen_def load_already_seen_def player_line_def csv_field_def
        newline_def carriage_return_def)
  moreover obtain calls seen where r: "record_player_list ''Hive'' (initial_seen ''9'' None) demo_packets = (calls, seen)"
    by (cases "record_player_list ''Hive'' (initial_seen ''9'' None) demo_packets")
  ultimately show ?thesis using players_recorded_once [OF r]
    by (auto simp: initial_seen_def load_already_seen_def)
qed

text \<open>
  The friend adder of the relay reads back what the scraper recorded: for a place the players were
  seen at, whatever the case of its letters, exactly the recorded players, in order.
\<close>

theorem scraped_players_are_found:
  assumes "record_player_list (join '','' (map csv_field places)) seen pks = (calls, seen')" "place \<in> set places"
    "\<And>x line. (x, line) \<in> set calls \<Longrightarrow> CHR '','' \<notin> set x \<and> plain_line line"
  shows "map at_xuid (recorded_from [Some (unlines (map snd calls))] (trim_space (csv_field place))) = map fst calls"
proof -
  from record_player_list_exact [OF assms(1)]
  have lines: "\<And>x l. (x, l) \<in> set calls \<Longrightarrow> \<exists>name. l = x @ '','' @ csv_field name @ '','' @ join '','' (map csv_field places)"
    by blast
  have "scan_lines (unlines (map snd calls)) = (map snd calls, True)"
    using assms(3) by (intro scan_unlines) auto
  moreover have "filter (\<lambda>l. l \<noteq> []) (map snd calls) = map snd calls"
    using lines by (fastforce simp: filter_id_conv)
  ultimately have "read_nonempty_lines (Some (unlines (map snd calls))) = map snd calls"
    by (simp add: read_nonempty_lines_def)
  moreover have "map at_xuid (concat (map (recorded_line (trim_space (csv_field place))) (map snd cs))) = map fst cs"
    if "set cs \<subseteq> set calls" for cs
    using that
  proof (induction cs)
    case (Cons c cs)
    obtain x l where c: "c = (x, l)" by (cases c)
    with Cons.prems lines obtain name where "l = x @ '','' @ csv_field name @ '','' @ join '','' (map csv_field places)"
      by auto
    moreover from Cons.prems c assms(3) have "CHR '','' \<notin> set x" by auto
    moreover from assms(2) have "places \<noteq> []" by auto
    ultimately have "recorded_line (trim_space (csv_field place)) l = [\<lparr>at_xuid = x, at_name = csv_field name\<rparr>]"
      using recorded_line_player [of x place places name] assms(2) by simp
    with Cons c show ?case by simp
  qed simp
  ultimately show ?thesis by (simp add: recorded_from_def)
qed

theorem scraped_players_are_found_witness:
  "\<exists>calls seen. record_player_list (join '','' (map csv_field [''Hive''])) {} demo_packets = (calls, seen) \<and>
     map at_xuid (recorded_from [Some (unlines (map snd calls))] (trim_space (csv_field ''Hive''))) = [''5'', ''9'']"
proof -
  have r: "record_player_list (join '','' (map csv_field [''Hive''])) {} demo_packets =
      ([(''5'', ''5,Al,Hive''), (''9'', ''9,Me,Hive'')], {''5'', ''9''})"
    by (auto simp: demo_packets_def player_line_def csv_field_def newline_def carriage_return_def)
  have "map at_xuid (recorded_from [Some (unlines (map snd [(''5'', ''5,Al,Hive''), (''9'', ''9,Me,Hive'')]))]
      (trim_space (csv_field ''Hive''))) = map fst [(''5'', ''5,Al,Hive''), (''9'', ''9,Me,Hive'')]"
    by (rule scraped_players_are_found [OF r])
      (auto simp: plain_line_def max_scan_token_def newline_def carriage_return_def)
  with r show ?thesis by auto
qed

end
