(* ===== verification/Scraper.thy ===== *)
theory Scraper
  imports Player_File Xbl_Client "HOL-Library.Multiset"
begin

text \<open>
  The scraper (\<open>cmd/scraper\<close>): what it is pointed at (\<open>main.go\<close>), the worlds of the account's friends
  and the rounds through them (\<open>worlds.go\<close>), one visit to a world (\<open>scraper_friend.go\<close>), placement in
  an experience (\<open>experience.go\<close>) and the packs it has to be exempted from (\<open>packs.go\<close>). Dialling,
  spawning and the answers of the services are arguments. The files are in \<open>Player_File\<close>.
\<close>

section \<open>What to scrape\<close>

datatype scrape_mode = FriendWorlds | OneFriend xuid | Experience string | Address string

definition scrape_address :: "string \<Rightarrow> string \<Rightarrow> string list \<Rightarrow> string" where
  "scrape_address friend experience args =
     (if friend = '''' \<and> experience = '''' \<and> args \<noteq> [] then hd args else '''')"

definition resolve_friend :: "(string \<Rightarrow> xuid option) \<Rightarrow> string \<Rightarrow> xuid option" where
  "resolve_friend resolve friend =
     (if friend \<noteq> '''' \<and> parse_uint64 friend = None then resolve friend else Some friend)"

text \<open>\<open>None\<close>: the gamertag could not be resolved and the process exits.\<close>

definition scraper_mode ::
  "(string \<Rightarrow> xuid option) \<Rightarrow> string \<Rightarrow> string \<Rightarrow> string list \<Rightarrow> scrape_mode option" where
  "scraper_mode resolve friend experience args =
     (let address = scrape_address friend experience args;
          worlds = friend = '''' \<and> address = '''' \<and> experience = ''''
      in case resolve_friend resolve friend of
           None \<Rightarrow> None
         | Some x \<Rightarrow>
             Some (if worlds then FriendWorlds else if x \<noteq> '''' then OneFriend x
                   else if experience \<noteq> '''' then Experience experience else Address address))"

definition output_file :: "string \<Rightarrow> string" where
  "output_file address = (if address \<noteq> '''' then ''server_players.txt'' else ''world_players.txt'')"

section \<open>The worlds of friends\<close>

function batches :: "nat \<Rightarrow> 'a list \<Rightarrow> 'a list list" where
  "batches n xs = (if xs = [] \<or> n = 0 then [] else take n xs # batches n (drop n xs))"
  by pat_completeness auto
termination by (relation "measure (\<lambda>(n, xs). length xs)") auto

declare batches.simps [simp del]

fun collect_worlds ::
  "(xuid list \<Rightarrow> xbl_error + active_session list) \<Rightarrow> xuid list list \<Rightarrow> xbl_error + active_session list" where
  "collect_worlds lookup [] = Inr []"
| "collect_worlds lookup (b # bs) =
     (case lookup b of
        Inl e \<Rightarrow> Inl e
      | Inr part \<Rightarrow> (case collect_worlds lookup bs of Inl e \<Rightarrow> Inl e | Inr ws \<Rightarrow> Inr (part @ ws)))"

definition world_batch :: nat where "world_batch = 100"

definition busier :: "active_session \<Rightarrow> active_session \<Rightarrow> bool" where
  "busier v w \<longleftrightarrow> sc_member_count (av_custom v) > sc_member_count (av_custom w)"

text \<open>\<open>sort_slice\<close> is \<open>sort.Slice\<close>, which does not say how it orders worlds that are equally busy.\<close>

definition friend_worlds ::
  "((active_session \<Rightarrow> active_session \<Rightarrow> bool) \<Rightarrow> active_session list \<Rightarrow> active_session list) \<Rightarrow>
   xbl_error + xuid list \<Rightarrow> (xuid list \<Rightarrow> activity_handle list exchange) \<Rightarrow> xbl_error + active_session list" where
  "friend_worlds sort_slice friends query =
     (case friends of
        Inl e \<Rightarrow> Inl e
      | Inr xuids \<Rightarrow>
          (case collect_worlds (activities_for_xuids query) (batches world_batch xuids) of
             Inl e \<Rightarrow> Inl e
           | Inr ws \<Rightarrow> Inr (sort_slice busier ws)))"

datatype world_visit = SkipFull active_session | VisitWorld active_session

definition world_full :: "active_session \<Rightarrow> bool" where
  "world_full w \<longleftrightarrow> sc_max_member_count (av_custom w) > 0 \<and>
     sc_member_count (av_custom w) \<ge> sc_max_member_count (av_custom w)"

text \<open>One round through the worlds; \<open>alive\<close> says of each step whether the context was still alive.\<close>

fun visit_round :: "bool list \<Rightarrow> active_session list \<Rightarrow> world_visit list" where
  "visit_round alive [] = []"
| "visit_round alive (w # ws) =
     (if alive = [] \<or> \<not> hd alive then []
      else (if world_full w then SkipFull w else VisitWorld w) # visit_round (tl alive) ws)"

text \<open>The world to visit for one friend: the friend's own, or one of those shown that is the friend's.\<close>

definition pick_world ::
  "xuid \<Rightarrow> string \<Rightarrow> active_session list \<Rightarrow> active_session list \<Rightarrow> active_session option" where
  "pick_world friend_xuid friend_name activities worlds =
     (case activities of
        a # as \<Rightarrow> Some a
      | [] \<Rightarrow> find (\<lambda>w. sc_owner_id (av_custom w) = friend_xuid \<or>
                       equal_fold (sc_host_name (av_custom w)) friend_name) worlds)"

section \<open>One visit\<close>

datatype signaling_choice = ByMessaging string | ByWebsocket string

datatype scrape_error =
    NoConnectionId | NotJoined join_error | NonceMissing nonce_error | NoMcToken
  | NoConnectionInfo | NoUsableId | SignalingFailed | WorldUnreachable | NoSpawn | ConnectionEnded

definition choose_signaling :: "connection_info list \<Rightarrow> scrape_error + signaling_choice" where
  "choose_signaling conns =
     (if conns = [] then Inl NoConnectionInfo
      else (case find (\<lambda>c. cn_pmsg_id c \<noteq> '''') conns of
              Some c \<Rightarrow> Inr (ByMessaging (cn_pmsg_id c))
            | None \<Rightarrow>
                (case find (\<lambda>c. cn_nether_id c \<noteq> 0) conns of
                   Some c \<Rightarrow> Inr (ByWebsocket (show_nat (unat (cn_nether_id c))))
                 | None \<Rightarrow> Inl NoUsableId)))"

fun network_id :: "signaling_choice \<Rightarrow> string" where
  "network_id (ByMessaging i) = i"
| "network_id (ByWebsocket i) = i"

definition dial_friend_signaling ::
  "bool \<Rightarrow> connection_info list \<Rightarrow> scrape_error + signaling_choice" where
  "dial_friend_signaling dialled conns =
     (case choose_signaling conns of
        Inl e \<Rightarrow> Inl e
      | Inr choice \<Rightarrow> if dialled then Inr choice else Inl SignalingFailed)"

text \<open>
  What a visit meets: the RTA connection id, the answer to the join, the polls for the nonce, and
  whether the token, the signaling, the dial and the spawn succeed; at the end, whether the context
  and the planned stay were over.
\<close>

record scrape_env =
  se_connection_id :: "string option"
  se_join :: "string exchange"
  se_polls :: "(session_custom exchange \<times> bool) list"
  se_token :: bool
  se_signaling :: bool
  se_world :: bool
  se_spawn :: bool
  se_cancelled :: bool
  se_stay_over :: bool

datatype scrape_action =
    ConnectRta | JoinHandle string | DialSignaling signaling_choice | DialWorld string string
  | RecordPlayers string | CloseWorld | CloseSignaling | LeaveSession string | CancelRta

definition stay_result :: "scrape_env \<Rightarrow> duration \<Rightarrow> scrape_error option" where
  "stay_result env stay =
     (if stay \<le> 0 then Some ConnectionEnded
      else if \<not> se_cancelled env \<and> se_stay_over env then None else Some ConnectionEnded)"

text \<open>From the nonce on, with the deferred closes in the order they run.\<close>

definition scrape_joined ::
  "scrape_env \<Rightarrow> duration \<Rightarrow> string \<Rightarrow> session_custom \<Rightarrow> scrape_action list \<times> scrape_error option" where
  "scrape_joined env stay nonce custom =
     (if \<not> se_token env then ([], Some NoMcToken)
      else (case dial_friend_signaling (se_signaling env) (sc_connections custom) of
              Inl e \<Rightarrow> ([], Some e)
            | Inr choice \<Rightarrow>
                (if \<not> se_world env
                 then ([DialSignaling choice, DialWorld nonce (network_id choice), CloseSignaling], Some WorldUnreachable)
                 else if \<not> se_spawn env
                 then ([DialSignaling choice, DialWorld nonce (network_id choice), CloseWorld, CloseSignaling], Some NoSpawn)
                 else ([DialSignaling choice, DialWorld nonce (network_id choice),
                        RecordPlayers (csv_field (sc_world_name custom) @ '','' @ csv_field (sc_host_name custom)),
                        CloseWorld, CloseSignaling], stay_result env stay))))"

text \<open>\<open>None\<close>: the visit still waits for the nonce.\<close>

definition scrape_world ::
  "scrape_env \<Rightarrow> xuid \<Rightarrow> active_session \<Rightarrow> duration \<Rightarrow> (scrape_action list \<times> scrape_error option) option" where
  "scrape_world env self activity stay =
     (case se_connection_id env of
        None \<Rightarrow> Some ([ConnectRta, CancelRta], Some NoConnectionId)
      | Some c \<Rightarrow>
          (case join_session (se_join env) of
             Inl e \<Rightarrow> Some ([ConnectRta, JoinHandle (av_handle_id activity), CancelRta], Some (NotJoined e))
           | Inr url \<Rightarrow>
               (case wait_nonce self (se_polls env) of
                  None \<Rightarrow> None
                | Some (Inl e) \<Rightarrow>
                    Some ([ConnectRta, JoinHandle (av_handle_id activity), LeaveSession url, CancelRta], Some (NonceMissing e))
                | Some (Inr (nonce, custom)) \<Rightarrow>
                    (let custom = (if sc_connections custom = [] then av_custom activity else custom);
                         (as, err) = scrape_joined env stay nonce custom
                     in Some ([ConnectRta, JoinHandle (av_handle_id activity)] @ as @ [LeaveSession url, CancelRta], err)))))"

section \<open>Packs and experiences\<close>

definition hex_or_dash :: "char \<Rightarrow> bool" where
  "hex_or_dash c \<longleftrightarrow> c \<in> set ''0123456789abcdefABCDEF-''"

text \<open>The expression \<open>missingPack\<close>, at the start of a text and at the leftmost place it matches.\<close>

definition match_pack :: "string \<Rightarrow> (string \<times> string) option" where
  "match_pack s =
     (case cut_prefix s ''pack (UUID='' of
        None \<Rightarrow> None
      | Some r \<Rightarrow>
          (let u = takeWhile hex_or_dash r
           in if u = '''' then None
              else (case cut_prefix (dropWhile hex_or_dash r) '', version='' of
                      None \<Rightarrow> None
                    | Some r \<Rightarrow>
                        (let v = takeWhile (\<lambda>c. c \<noteq> CHR '')'') r
                         in if v = '''' then None
                            else (case cut_prefix (dropWhile (\<lambda>c. c \<noteq> CHR '')'') r) '') not downloaded'' of
                                    None \<Rightarrow> None
                                  | Some r \<Rightarrow> Some (u, v))))))"

fun find_pack :: "string \<Rightarrow> (string \<times> string) option" where
  "find_pack [] = match_pack []"
| "find_pack (c # s) = (case match_pack (c # s) of Some p \<Rightarrow> Some p | None \<Rightarrow> find_pack s)"

definition exempt_missing_pack :: "string option \<Rightarrow> (string \<times> string) list \<Rightarrow> bool \<times> (string \<times> string) list" where
  "exempt_missing_pack err packs =
     (case err of
        None \<Rightarrow> (False, packs)
      | Some text \<Rightarrow>
          (case find_pack text of
             None \<Rightarrow> (False, packs)
           | Some p \<Rightarrow> if p \<in> set packs then (False, packs) else (True, packs @ [p])))"

text \<open>
  The loop of \<open>main\<close> in an experience: after each attempt, with its error, the scraper rejoins at
  once or pauses; the result says which, and the packs that are exempt then.
\<close>

datatype next_step = RejoinNow | Pause

fun experience_loop :: "string option list \<Rightarrow> (string \<times> string) list \<Rightarrow> next_step list \<times> (string \<times> string) list" where
  "experience_loop [] packs = ([], packs)"
| "experience_loop (err # errs) packs =
     (let (exempted, packs) = exempt_missing_pack err packs;
          (steps, packs) = experience_loop errs packs
      in ((if exempted then RejoinNow else Pause) # steps, packs))"

datatype experience_error =
    DiscoveryFailed | NoGatherings | NoServiceToken | JoinRequestFailed | JoinStatus int | NoAddressInReply

text \<open>\<open>discovery\<close>: the decoded answer, as the map from services and environments to their URI.\<close>

definition gatherings_uri :: "(string \<Rightarrow> string \<Rightarrow> string) option \<Rightarrow> experience_error + string" where
  "gatherings_uri discovery =
     (case discovery of
        None \<Rightarrow> Inl DiscoveryFailed
      | Some services \<Rightarrow>
          (let uri = services ''gatherings'' ''prod'' in if uri = '''' then Inl NoGatherings else Inr uri))"

definition join_host_port :: "string \<Rightarrow> string \<Rightarrow> string" where
  "join_host_port host port =
     (if CHR '':'' \<in> set host then ''['' @ host @ '']:'' @ port else host @ '':'' @ port)"

definition experience_address ::
  "(string \<Rightarrow> string \<Rightarrow> string) option \<Rightarrow> bool \<Rightarrow> (string \<times> int) exchange \<Rightarrow> experience_error + string" where
  "experience_address discovery token answer =
     (case gatherings_uri discovery of
        Inl e \<Rightarrow> Inl e
      | Inr uri \<Rightarrow>
          (if \<not> token then Inl NoServiceToken
           else (case answer of
                   Answer status body \<Rightarrow>
                     (if status \<noteq> 200 then Inl (JoinStatus status)
                      else (case body of
                              None \<Rightarrow> Inl NoAddressInReply
                            | Some (ip, port) \<Rightarrow>
                                (if ip = '''' \<or> port = 0 then Inl NoAddressInReply
                                 else Inr (join_host_port ip (show_int port)))))
                 | _ \<Rightarrow> Inl JoinRequestFailed)))"

section \<open>Busiest first\<close>

text \<open>Worlds by their number of players, the busiest least: the order of the list.\<close>

datatype world_rank = Rank int

instantiation world_rank :: linorder
begin

fun less_eq_world_rank :: "world_rank \<Rightarrow> world_rank \<Rightarrow> bool" where
  "less_eq_world_rank (Rank a) (Rank b) \<longleftrightarrow> b \<le> a"

fun less_world_rank :: "world_rank \<Rightarrow> world_rank \<Rightarrow> bool" where
  "less_world_rank (Rank a) (Rank b) \<longleftrightarrow> b < a"

instance
proof
  fix x y z :: world_rank
  show "x < y \<longleftrightarrow> x \<le> y \<and> \<not> y \<le> x" by (cases x; cases y) auto
  show "x \<le> x" by (cases x) simp
  show "x \<le> y \<Longrightarrow> y \<le> z \<Longrightarrow> x \<le> z" by (cases x; cases y; cases z) simp
  show "x \<le> y \<Longrightarrow> y \<le> x \<Longrightarrow> x = y" by (cases x; cases y) simp
  show "x \<le> y \<or> y \<le> x" by (cases x; cases y) auto
qed

end

definition rank_of :: "active_session \<Rightarrow> world_rank" where
  "rank_of w = Rank (sc_member_count (av_custom w))"

lemma busier_rank: "busier v w \<longleftrightarrow> rank_of v < rank_of w"
  by (simp add: busier_def rank_of_def)

text \<open>What \<open>sort.Slice\<close> documents.\<close>

definition sorts :: "(('a \<Rightarrow> 'a \<Rightarrow> bool) \<Rightarrow> 'a list \<Rightarrow> 'a list) \<Rightarrow> ('a \<Rightarrow> 'a \<Rightarrow> bool) \<Rightarrow> bool" where
  "sorts sort_slice lt \<longleftrightarrow>
     (\<forall>xs. mset (sort_slice lt xs) = mset xs \<and> sorted_wrt (\<lambda>a b. \<not> lt b a) (sort_slice lt xs))"

lemma sort_key_sorts: "sorts (\<lambda>less. sort_key rank_of) busier"
  using sorted_sort_key [of rank_of] by (simp add: sorts_def busier_rank not_less sorted_map)

lemma concat_batches: "0 < n \<Longrightarrow> concat (batches n xs) = xs"
  by (induction n xs rule: batches.induct) (subst batches.simps, simp)

lemma batches_sizes: "b \<in> set (batches n xs) \<Longrightarrow> b \<noteq> [] \<and> length b \<le> n"
proof (induction n xs rule: batches.induct)
  case (1 n xs)
  from 1(2) have "\<not> (xs = [] \<or> n = 0)" by (subst (asm) batches.simps) (auto split: if_splits)
  moreover from 1(2) this have "b = take n xs \<or> b \<in> set (batches n (drop n xs))"
    by (subst (asm) batches.simps) auto
  ultimately show ?case using 1(1) by auto
qed

lemma collect_worlds_parts:
  "collect_worlds lookup bs = Inr ws \<Longrightarrow> \<exists>parts. list_all2 (\<lambda>b part. lookup b = Inr part) bs parts \<and> ws = concat parts"
proof (induction bs arbitrary: ws)
  case (Cons b bs)
  then obtain part ws1 where p: "lookup b = Inr part" "collect_worlds lookup bs = Inr ws1" "ws = part @ ws1"
    by (auto split: sum.splits)
  from Cons.IH [OF p(2)] obtain parts where "list_all2 (\<lambda>b part. lookup b = Inr part) bs parts" "ws1 = concat parts"
    by blast
  with p show ?case by (intro exI [of _ "part # parts"]) simp
qed simp

lemma scrape_joined_actions:
  "scrape_joined env stay nonce custom = (as, err) \<Longrightarrow>
   (\<forall>url. LeaveSession url \<notin> set as) \<and> (\<forall>n i. DialWorld n i \<in> set as \<longrightarrow> n = nonce)"
  by (auto simp: scrape_joined_def split: if_splits sum.splits)

lemma exempt_missing_pack_steps:
  "exempt_missing_pack err packs = (b, packs') \<Longrightarrow>
   (b \<longrightarrow> (\<exists>text p. err = Some text \<and> find_pack text = Some p \<and> p \<notin> set packs \<and> packs' = packs @ [p])) \<and>
   (\<not> b \<longrightarrow> packs' = packs)"
  by (auto simp: exempt_missing_pack_def split: option.splits if_splits)

definition named_packs :: "string option list \<Rightarrow> (string \<times> string) set" where
  "named_packs errs = {p. \<exists>text. Some text \<in> set errs \<and> find_pack text = Some p}"

lemma experience_loop_packs:
  "experience_loop errs packs = (steps, packs') \<Longrightarrow> distinct packs \<Longrightarrow>
   distinct packs' \<and> set packs' \<subseteq> set packs \<union> named_packs errs \<and>
   length packs' = length packs + length (filter (\<lambda>s. s = RejoinNow) steps) \<and> length steps = length errs"
proof (induction errs arbitrary: packs steps)
  case Nil
  then show ?case by simp
next
  case (Cons err errs)
  obtain b packs1 where one: "exempt_missing_pack err packs = (b, packs1)" by (cases "exempt_missing_pack err packs")
  obtain steps1 where two: "experience_loop errs packs1 = (steps1, packs')"
    "steps = (if b then RejoinNow else Pause) # steps1"
    using Cons.prems(1) one by (auto split: prod.splits)
  note e = exempt_missing_pack_steps [OF one]
  have named: "named_packs errs \<subseteq> named_packs (err # errs)" by (auto simp: named_packs_def)
  from e Cons.prems(2) have "distinct packs1" by (cases b) auto
  from Cons.IH [OF two(1) this] have ih: "distinct packs'" "set packs' \<subseteq> set packs1 \<union> named_packs errs"
    "length packs' = length packs1 + length (filter (\<lambda>s. s = RejoinNow) steps1)" "length steps1 = length errs" by auto
  show ?case
  proof (cases b)
    case True
    with e obtain t p where p: "err = Some t" "find_pack t = Some p" "packs1 = packs @ [p]" by blast
    then have "p \<in> named_packs (err # errs)" by (auto simp: named_packs_def)
    with ih p True two(2) named show ?thesis by auto
  next
    case False
    with e ih two(2) named show ?thesis by auto
  qed
qed

section \<open>Properties\<close>

text \<open>
  A listing of the friends' worlds asks about every friend exactly once, in batches of at most a
  hundred, and gives all the worlds of all the answers, the busiest first.
\<close>

theorem friend_worlds_complete:
  assumes "sorts sort_slice busier" "friend_worlds sort_slice (Inr xuids) query = Inr ws"
  shows "concat (batches world_batch xuids) = xuids \<and> (\<forall>b \<in> set (batches world_batch xuids). length b \<le> 100) \<and>
    (\<exists>parts. list_all2 (\<lambda>b part. activities_for_xuids query b = Inr part) (batches world_batch xuids) parts \<and>
       mset ws = mset (concat parts)) \<and>
    sorted_wrt (\<lambda>v w. sc_member_count (av_custom w) \<le> sc_member_count (av_custom v)) ws"
proof -
  obtain us where us: "collect_worlds (activities_for_xuids query) (batches world_batch xuids) = Inr us"
    "ws = sort_slice busier us"
    using assms(2) by (auto simp: friend_worlds_def split: sum.splits)
  from assms(1) us(2) have "mset ws = mset us" "sorted_wrt (\<lambda>a b. \<not> busier b a) ws" by (simp_all add: sorts_def)
  with collect_worlds_parts [OF us(1)] concat_batches [of world_batch xuids] batches_sizes [of _ world_batch xuids]
  show ?thesis by (auto simp: world_batch_def busier_def not_less)
qed

definition demo_world :: "xuid \<Rightarrow> int \<Rightarrow> activity_handle" where
  "demo_world x n = \<lparr>ah_id = x, ah_owner_xuid = x, ah_ref = \<lparr>sr_scid = '''', sr_template = '''', sr_name = x\<rparr>,
     ah_custom = no_custom\<lparr>sc_member_count := n, sc_owner_id := x\<rparr>\<rparr>"

theorem friend_worlds_complete_witness:
  "\<exists>ws. friend_worlds (\<lambda>less. sort_key rank_of) (Inr [''1'', ''2'']) (\<lambda>b. Answer 200 (Some [demo_world ''1'' 3, demo_world ''2'' 8])) = Inr ws \<and>
     sorted_wrt (\<lambda>v w. sc_member_count (av_custom w) \<le> sc_member_count (av_custom v)) ws"
proof -
  have "\<exists>ws. friend_worlds (\<lambda>less. sort_key rank_of) (Inr [''1'', ''2'']) (\<lambda>b. Answer 200 (Some [demo_world ''1'' 3, demo_world ''2'' 8])) = Inr ws"
    by (simp add: friend_worlds_def world_batch_def batches.simps activities_for_xuids_def expect_def)
  then obtain ws where ws: "friend_worlds (\<lambda>less. sort_key rank_of) (Inr [''1'', ''2''])
      (\<lambda>b. Answer 200 (Some [demo_world ''1'' 3, demo_world ''2'' 8])) = Inr ws" by blast
  from friend_worlds_complete [OF sort_key_sorts ws] ws show ?thesis by blast
qed

text \<open>
  C26: a visit that ends leaves a session exactly when it has joined one, as its last step but for the
  RTA connection, and dials the world only with the nonce that the host had issued for the account.
\<close>

theorem visit_leaves_what_it_joined:
  assumes "scrape_world env self activity stay = Some (as, err)"
  shows "(case se_connection_id env of
       None \<Rightarrow> \<forall>u. LeaveSession u \<notin> set as
     | Some c \<Rightarrow>
         (case join_session (se_join env) of
            Inl e \<Rightarrow> \<forall>u. LeaveSession u \<notin> set as
          | Inr url \<Rightarrow> (\<exists>bs. as = bs @ [LeaveSession url, CancelRta] \<and> (\<forall>u. LeaveSession u \<notin> set bs)))) \<and>
    (\<forall>n i. DialWorld n i \<in> set as \<longrightarrow>
       n \<noteq> '''' \<and> (\<exists>answer time_up custom. (answer, time_up) \<in> set (se_polls env) \<and>
          read_custom answer = Inr custom \<and> n = sc_nonces custom self))"
proof (cases "\<exists>c url n custom. se_connection_id env = Some c \<and> join_session (se_join env) = Inr url \<and>
    wait_nonce self (se_polls env) = Some (Inr (n, custom))")
  case False
  with assms show ?thesis by (auto simp: scrape_world_def split: option.splits sum.splits)
next
  case True
  then obtain c url n custom where t: "se_connection_id env = Some c" "join_session (se_join env) = Inr url"
    "wait_nonce self (se_polls env) = Some (Inr (n, custom))" by blast
  let ?custom = "if sc_connections custom = [] then av_custom activity else custom"
  obtain bs e where bs: "scrape_joined env stay n ?custom = (bs, e)" by (cases "scrape_joined env stay n ?custom")
  from assms t bs have as: "as = ([ConnectRta, JoinHandle (av_handle_id activity)] @ bs) @ [LeaveSession url, CancelRta]"
    by (auto simp: scrape_world_def Let_def split: prod.splits)
  from wait_nonce_first [OF t(3)] obtain answer time_up
    where "(answer, time_up) \<in> set (se_polls env)" "read_custom answer = Inr custom" "n = sc_nonces custom self" "n \<noteq> ''''"
    by fastforce
  then have issued: "n \<noteq> '''' \<and> (\<exists>answer time_up custom. (answer, time_up) \<in> set (se_polls env) \<and>
      read_custom answer = Inr custom \<and> n = sc_nonces custom self)" by blast
  from scrape_joined_actions [OF bs] as have "\<forall>m i. DialWorld m i \<in> set as \<longrightarrow> m = n" by auto
  with issued have "\<forall>m i. DialWorld m i \<in> set as \<longrightarrow> m \<noteq> '''' \<and> (\<exists>answer time_up custom.
      (answer, time_up) \<in> set (se_polls env) \<and> read_custom answer = Inr custom \<and> m = sc_nonces custom self)"
    by (intro allI impI) simp
  moreover have "\<exists>cs. as = cs @ [LeaveSession url, CancelRta] \<and> (\<forall>u. LeaveSession u \<notin> set cs)"
    by (rule exI [of _ "[ConnectRta, JoinHandle (av_handle_id activity)] @ bs"])
      (use scrape_joined_actions [OF bs] as in auto)
  ultimately show ?thesis using t(1,2) by simp
qed

definition demo_env :: scrape_env where
  "demo_env = \<lparr>se_connection_id = Some ''c'', se_join = Answer 200 (Some ''/s''),
     se_polls = [(NoAnswer, False), (Answer 200 (Some (no_custom\<lparr>sc_nonces := (\<lambda>x. ''n''),
       sc_connections := [\<lparr>cn_type = 7, cn_host_ip = '''', cn_host_port = 0, cn_nether_id = 4, cn_pmsg_id = ''p''\<rparr>]\<rparr>)), False)],
     se_token = True, se_signaling = True, se_world = True, se_spawn = True, se_cancelled = False, se_stay_over = True\<rparr>"

theorem visit_leaves_what_it_joined_witness:
  "\<exists>as. scrape_world demo_env ''1'' (active_session_of (demo_world ''2'' 3)) 20 = Some (as, None) \<and>
     DialWorld ''n'' ''p'' \<in> set as \<and> (\<exists>bs. as = bs @ [LeaveSession (session_directory @ ''/s''), CancelRta])"
proof -
  have "\<exists>as. scrape_world demo_env ''1'' (active_session_of (demo_world ''2'' 3)) 20 = Some (as, None) \<and> DialWorld ''n'' ''p'' \<in> set as"
    by (simp add: scrape_world_def demo_env_def join_session_def expect_def has_prefix_def read_custom_def scrape_joined_def
        dial_friend_signaling_def choose_signaling_def stay_result_def)
  then obtain as where as: "scrape_world demo_env ''1'' (active_session_of (demo_world ''2'' 3)) 20 = Some (as, None)"
    "DialWorld ''n'' ''p'' \<in> set as" by blast
  have "join_session (se_join demo_env) = Inr (session_directory @ ''/s'')" "se_connection_id demo_env = Some ''c''"
    by (simp_all add: demo_env_def join_session_def expect_def has_prefix_def)
  with visit_leaves_what_it_joined [OF as(1)] as show ?thesis by auto
qed

text \<open>
  In an experience the scraper rejoins without a pause at most once for each pack that an error has
  named: it never spins on a pack that is already exempt.
\<close>

theorem rejoins_are_bounded:
  assumes "experience_loop errs [] = (steps, packs)"
  shows "distinct packs \<and> set packs \<subseteq> named_packs errs \<and>
    length (filter (\<lambda>s. s = RejoinNow) steps) = length packs"
  using experience_loop_packs [OF assms] by simp

theorem rejoins_are_bounded_witness:
  "\<exists>packs. experience_loop [Some ''x'', None] [] = ([Pause, Pause], packs) \<and> packs = []"
proof -
  have f: "find_pack ''x'' = None" by code_simp
  have "experience_loop [Some ''x'', None] [] = ([Pause, Pause], [])"
    by (simp add: exempt_missing_pack_def f del: find_pack.simps)
  with rejoins_are_bounded [OF this] show ?thesis by auto
qed

end
