(* ===== verification/Tools.thy ===== *)
theory Tools
  imports Xbl_Client Scraper
begin

text \<open>
  The operator's tools under \<open>cmd\<close> that decide something: removing inactive friends
  (\<open>cmd/friends/pruneinactive\<close>) and listed ones (\<open>cmd/unfriend\<close>), accepting one request
  (\<open>cmd/acceptfriend\<close>), listing worlds (\<open>cmd/lsworlds\<close>), checking a signed offer (\<open>cmd/vident\<close>) and
  editing command blocks (\<open>cmd/cbedit\<close>). HTTP answers, the game connection and the cryptographic
  library are arguments.
\<close>

section \<open>Removing inactive friends\<close>

definition remove_friend :: "unit exchange \<Rightarrow> xbl_error option" where
  "remove_friend e =
     (case e of
        NoToken \<Rightarrow> Some TokenFailed
      | NoAnswer \<Rightarrow> Some RequestFailed
      | Answer status body \<Rightarrow> if status \<ge> 300 then Some (BadStatus status) else None)"

text \<open>The loop: each friend with the answer to its removal; the store and who was removed.\<close>

fun prune_loop :: "(xuid \<Rightarrow> unit exchange) \<Rightarrow> activity list \<Rightarrow> store \<Rightarrow> store \<times> xuid list" where
  "prune_loop delete [] s = (s, [])"
| "prune_loop delete (r # rs) s =
     (case remove_friend (delete (act_xuid r)) of
        Some e \<Rightarrow> prune_loop delete rs s
      | None \<Rightarrow> apsnd (Cons (act_xuid r)) (prune_loop delete rs (forget True (act_xuid r) s)))"

definition joined_before :: "activity \<Rightarrow> activity \<Rightarrow> bool" where
  "joined_before r q \<longleftrightarrow> last_join r < last_join q"

text \<open>The listing, the store and the removed friends; \<open>None\<close> when signing in fails.\<close>

definition prune_inactive ::
  "((activity \<Rightarrow> activity \<Rightarrow> bool) \<Rightarrow> activity list \<Rightarrow> activity list) \<Rightarrow> instant \<Rightarrow> duration \<Rightarrow> bool \<Rightarrow> bool \<Rightarrow>
   (xuid \<Rightarrow> unit exchange) \<Rightarrow> store \<Rightarrow> activity list \<times> (store \<times> xuid list) option" where
  "prune_inactive sort_slice now window del signed_in delete s =
     (let listed = stale now window s
      in if listed = [] then ([], Some (s, []))
         else (let listed = sort_slice joined_before listed
               in if \<not> del then (listed, Some (s, []))
                  else if \<not> signed_in then (listed, None)
                  else (listed, Some (prune_loop delete listed s))))"

section \<open>Removing listed friends\<close>

datatype unfriend_reply = RequestError | Reply int string

definition unfriend_wait :: "string \<Rightarrow> int" where
  "unfriend_wait retry_after = max (case parse_int64 retry_after of None \<Rightarrow> 0 | Some w \<Rightarrow> w) 5"

text \<open>
  The attempts for one person, \<open>left\<close> of them left: whether it was removed, and the pauses in seconds.
  \<open>replies\<close> gives the reply to each attempt.
\<close>

fun unfriend_attempts :: "nat \<Rightarrow> unfriend_reply list \<Rightarrow> bool \<times> int list" where
  "unfriend_attempts 0 replies = (False, [])"
| "unfriend_attempts (Suc left) [] = (False, [])"
| "unfriend_attempts (Suc left) (r # replies) =
     (case r of
        RequestError \<Rightarrow> (False, [])
      | Reply status retry_after \<Rightarrow>
          (if status = 429 then apsnd (Cons (unfriend_wait retry_after)) (unfriend_attempts left replies)
           else (200 \<le> status \<and> status < 300, [])))"

definition unfriend_list :: "(xuid \<Rightarrow> unfriend_reply list) \<Rightarrow> xuid list \<Rightarrow> nat" where
  "unfriend_list replies xs = length (filter (\<lambda>x. fst (unfriend_attempts 5 (replies x))) xs)"

section \<open>Accepting one request, listing worlds\<close>

definition find_request :: "string \<Rightarrow> (xuid \<times> string) list \<Rightarrow> xuid option" where
  "find_request gamertag people =
     (case find (\<lambda>p. snd p = gamertag) people of
        None \<Rightarrow> None
      | Some (x, g) \<Rightarrow> if x = '''' then None else Some x)"

definition world_note :: "xuid set \<Rightarrow> active_session \<Rightarrow> string" where
  "world_note friends w =
     (let via = (if av_owner_xuid w \<noteq> sc_owner_id (av_custom w)
                 then ''a friend is playing in it ('' @ av_owner_xuid w @ '')'' else ''hosted by a friend'')
      in if sc_owner_id (av_custom w) \<notin> friends then via @ '', host NOT a friend'' else via)"

section \<open>Checking a signed offer\<close>

text \<open>The identity and the fingerprint of an SDP: the last ones, whichever section they are in.\<close>

fun identity_and_fingerprint :: "string list \<Rightarrow> string \<times> string \<times> string \<Rightarrow> string \<times> string \<times> string" where
  "identity_and_fingerprint [] found = found"
| "identity_and_fingerprint (line # ls) (identity, algorithm, digest) =
     (let identity = (case cut_prefix line ''a=identity:'' of Some v \<Rightarrow> v | None \<Rightarrow> identity);
          (algorithm, digest) =
            (case cut_prefix line ''a=fingerprint:'' of
               Some v \<Rightarrow> (let (alg, dig, ok) = cut_byte CHR '' '' v in if ok then (alg, dig) else (algorithm, digest))
             | None \<Rightarrow> (algorithm, digest))
      in identity_and_fingerprint ls (identity, algorithm, digest))"

text \<open>
  Whether the assertion verifies for one of the three casings of the digest. \<open>quote\<close> is
  \<open>strconv.Quote\<close>, \<open>upper\<close> and \<open>lower\<close> the case mappings, \<open>verifies\<close> the check of a detached JWS.
\<close>

definition assertion_verifies ::
  "(string \<Rightarrow> string) \<Rightarrow> (string \<Rightarrow> string) \<Rightarrow> (string \<Rightarrow> string) \<Rightarrow> (string \<Rightarrow> bool) \<Rightarrow> string \<Rightarrow> string \<Rightarrow> bool" where
  "assertion_verifies quote upper lower verifies algorithm digest \<longleftrightarrow>
     list_ex (\<lambda>d. verifies (''{\"fingerprint\":[{\"algorithm\":'' @ quote algorithm @ '',\"digest\":'' @ quote d @ ''}]}''))
       [digest, upper digest, lower digest]"

section \<open>Editing command blocks\<close>

record block_edit =
  ed_pos :: "32 word \<times> 32 word \<times> 32 word"
  ed_mode :: string
  ed_conditional :: bool
  ed_needs_redstone :: bool
  ed_delay :: "32 word"
  ed_command :: string
  ed_name :: string
  ed_track_output :: "bool option"

datatype block_mode = ImpulseBlock | RepeatingBlock | ChainBlock

definition mode_of :: "string \<Rightarrow> block_mode option" where
  "mode_of m = map_of [(''impulse'', ImpulseBlock), (''repeat'', RepeatingBlock), (''chain'', ChainBlock)] m"

record block_update =
  bu_pos :: "32 word \<times> 32 word \<times> 32 word"
  bu_mode :: block_mode
  bu_conditional :: bool
  bu_needs_redstone :: bool
  bu_delay :: "32 word"
  bu_command :: string
  bu_name :: string
  bu_track_output :: bool

definition update_of :: "block_edit \<Rightarrow> block_update option" where
  "update_of e =
     (case mode_of (ed_mode e) of
        None \<Rightarrow> None
      | Some m \<Rightarrow>
          Some \<lparr>bu_pos = ed_pos e, bu_mode = m, bu_conditional = ed_conditional e,
                bu_needs_redstone = ed_needs_redstone e, bu_delay = ed_delay e, bu_command = ed_command e,
                bu_name = ed_name e,
                bu_track_output = (case ed_track_output e of None \<Rightarrow> True | Some t \<Rightarrow> t)\<rparr>)"

datatype edit_result = UnknownMode | NotReady | SendFailed nat | SentAll

text \<open>
  \<open>waitFor\<close>: polls of the file with the clock after each, until it is there or sixty seconds have
  passed since \<open>start\<close>; \<open>None\<close> when the polls are used up.
\<close>

fun wait_for :: "instant \<Rightarrow> (bool \<times> instant) list \<Rightarrow> bool option" where
  "wait_for start [] = None"
| "wait_for start ((there, now) # polls) =
     (if there then Some True else if now > start + 60 * second then Some False else wait_for start polls)"

text \<open>What is sent, in order, and how it ends; \<open>write_ok\<close> says of each packet whether it was written.\<close>

fun send_updates :: "(nat \<Rightarrow> bool) \<Rightarrow> nat \<Rightarrow> block_update list \<Rightarrow> block_update list \<times> edit_result" where
  "send_updates write_ok i [] = ([], SentAll)"
| "send_updates write_ok i (u # us) =
     (if write_ok i then apfst (Cons u) (send_updates write_ok (Suc i) us) else ([], SendFailed i))"

definition apply_edits ::
  "bool \<Rightarrow> (nat \<Rightarrow> bool) \<Rightarrow> block_edit list \<Rightarrow> block_update list \<times> edit_result" where
  "apply_edits ready write_ok edits =
     (if \<exists>e \<in> set edits. mode_of (ed_mode e) = None then ([], UnknownMode)
      else if \<not> ready then ([], NotReady)
      else send_updates write_ok 0 (map (\<lambda>e. the (update_of e)) edits))"

section \<open>Lemmas\<close>

lemma prune_loop_exact:
  assumes "good_store (records s)" "good_file (act_file s)" "prune_loop delete rs s = (s', removed)"
  shows "set removed = {act_xuid r | r. r \<in> set rs \<and> remove_friend (delete (act_xuid r)) = None} \<and>
    good_store (records s') \<and> good_file (act_file s') \<and>
    (\<forall>y. y \<notin> set removed \<longrightarrow> store_last_join s y \<noteq> None \<longrightarrow> store_last_join s' y \<noteq> None) \<and>
    (removed = [] \<longrightarrow> s' = s)"
  using assms
proof (induction rs arbitrary: s s' removed)
  case Nil
  then show ?case by simp
next
  case (Cons r rs)
  let ?x = "act_xuid r"
  show ?case
  proof (cases "remove_friend (delete ?x)")
    case (Some e)
    with Cons.prems(3) have "prune_loop delete rs s = (s', removed)" by simp
    from Cons.IH [OF Cons.prems(1,2) this] Some show ?thesis by auto
  next
    case None
    obtain removed1 where r1: "prune_loop delete rs (forget True ?x s) = (s', removed1)" "removed = ?x # removed1"
      using Cons.prems(3) None by (cases "prune_loop delete rs (forget True ?x s)") auto
    have s: "\<lparr>records = records s, act_file = act_file s\<rparr> = s" by simp
    note fg = forget_exact [OF Cons.prems(1,2), unfolded s]
    from Cons.IH [OF fg(3,4) r1(1)] have ih:
      "set removed1 = {act_xuid r | r. r \<in> set rs \<and> remove_friend (delete (act_xuid r)) = None}"
      "good_store (records s')" "good_file (act_file s')"
      "\<forall>y. y \<notin> set removed1 \<longrightarrow> store_last_join (forget True ?x s) y \<noteq> None \<longrightarrow> store_last_join s' y \<noteq> None" by auto
    have "store_last_join s' y \<noteq> None" if "y \<notin> set removed" "store_last_join s y \<noteq> None" for y
      using that ih(4) r1(2) fg(1) [of ?x y] merge_keeps_known [of s y] by auto
    with ih r1(2) None show ?thesis by auto
  qed
qed

text \<open>Whoever was removed last is gone, and stays gone while others are forgotten.\<close>

lemma prune_loop_gone:
  assumes "good_store (records s)" "good_file (act_file s)" "prune_loop delete rs s = (s', removed)"
    "store_last_join s x = None" "file_last_join (act_file s) x = None"
  shows "store_last_join s' x = None \<and> file_last_join (act_file s') x = None"
  using assms
proof (induction rs arbitrary: s s' removed)
  case Nil
  then show ?case by simp
next
  case (Cons r rs)
  let ?x = "act_xuid r"
  show ?case
  proof (cases "remove_friend (delete ?x)")
    case (Some e)
    with Cons show ?thesis by simp
  next
    case None
    obtain removed1 where r1: "prune_loop delete rs (forget True ?x s) = (s', removed1)"
      using Cons.prems(3) None by (cases "prune_loop delete rs (forget True ?x s)") auto
    have s: "\<lparr>records = records s, act_file = act_file s\<rparr> = s" by simp
    note fg = forget_exact [OF Cons.prems(1,2), unfolded s]
    from forget_unknown [OF Cons.prems(1,2,4,5), of ?x]
    have "store_last_join (forget True ?x s) x = None" "file_last_join (act_file (forget True ?x s)) x = None" by auto
    from Cons.IH [OF fg(3,4) r1 this] show ?thesis .
  qed
qed

lemma prune_loop_removed:
  assumes "good_store (records s)" "good_file (act_file s)" "prune_loop delete rs s = (s', removed)" "x \<in> set removed"
  shows "store_last_join s' x = None \<and> file_last_join (act_file s') x = None"
  using assms
proof (induction rs arbitrary: s s' removed)
  case Nil
  then show ?case by simp
next
  case (Cons r rs)
  let ?x = "act_xuid r"
  show ?case
  proof (cases "remove_friend (delete ?x)")
    case (Some e)
    with Cons show ?thesis by simp
  next
    case None
    obtain removed1 where r1: "prune_loop delete rs (forget True ?x s) = (s', removed1)" "removed = ?x # removed1"
      using Cons.prems(3) None by (cases "prune_loop delete rs (forget True ?x s)") auto
    have s: "\<lparr>records = records s, act_file = act_file s\<rparr> = s" by simp
    note fg = forget_exact [OF Cons.prems(1,2), unfolded s]
    show ?thesis
    proof (cases "x \<in> set removed1")
      case True
      from Cons.IH [OF fg(3,4) r1(1) True] show ?thesis .
    next
      case False
      with r1(2) Cons.prems(4) have "x = ?x" by simp
      with prune_loop_gone [OF fg(3,4) r1(1), of x] fg(1) [of ?x x] fg(2) [of ?x] show ?thesis by simp
    qed
  qed
qed

lemma sorts_set: "sorts sort_slice lt \<Longrightarrow> set (sort_slice lt xs) = set xs"
  unfolding sorts_def by (metis set_mset_mset)

lemma unfriend_attempts_bounds: "length (snd (unfriend_attempts n rs)) \<le> n \<and> list_all (\<lambda>w. 5 \<le> w) (snd (unfriend_attempts n rs))"
proof (induction n rs rule: unfriend_attempts.induct)
  case (3 n r rs)
  then show ?case
    by (cases r) (auto simp: unfriend_wait_def)
qed simp_all

section \<open>Properties\<close>

text \<open>
  Removing inactive friends removes only players whose last recorded join is older than the
  window, and only when it was asked to; whoever was removed is gone from the store and its file, and
  every other player that was known still is.
\<close>

theorem prune_inactive_exact:
  assumes "good_store (records s)" "good_file (act_file s)" "sorts sort_slice joined_before" "in_int64 (- window)"
    "prune_inactive sort_slice now window del signed_in delete s = (listed, Some (s', removed))"
  shows "(\<forall>x \<in> set removed. del \<and> remove_friend (delete x) = None \<and>
       (\<exists>r \<in> set (map snd (records s)). act_xuid r = x \<and> last_join r < now - window) \<and>
       store_last_join s' x = None \<and> file_last_join (act_file s') x = None) \<and>
    (\<forall>y. y \<notin> set removed \<longrightarrow> store_last_join s y \<noteq> None \<longrightarrow> store_last_join s' y \<noteq> None)"
proof (cases "del \<and> stale now window s \<noteq> []")
  case False
  with assms(5) have "removed = []" "s' = s"
    by (auto simp: prune_inactive_def Let_def split: if_splits)
  then show ?thesis by simp
next
  case True
  with assms(5) have loop: "prune_loop delete (sort_slice joined_before (stale now window s)) s = (s', removed)"
    by (auto simp: prune_inactive_def Let_def split: if_splits)
  have "set (sort_slice joined_before (stale now window s)) = {r \<in> set (map snd (records s)). last_join r < now - window}"
    unfolding sorts_set [OF assms(3)] by (simp add: stale_def wrap64_id [OF assms(4)])
  with prune_loop_exact [OF assms(1,2) loop] prune_loop_removed [OF assms(1,2) loop] True show ?thesis by auto
qed

lemma insort_sorts: "sorts (\<lambda>lt. sort_key last_join) joined_before"
  using sorted_sort_key [of "last_join :: activity \<Rightarrow> int"]
  by (simp add: sorts_def joined_before_def not_less sorted_map)

theorem prune_inactive_exact_witness:
  "\<exists>listed s' removed. prune_inactive (\<lambda>lt. sort_key last_join) (9 * second) second True True (\<lambda>x. Answer 204 None)
     \<lparr>records = [(''13'', \<lparr>act_xuid = ''13'', display_name = ''Bo'', last_join = 5 * second + 1\<rparr>)], act_file = Missing\<rparr> =
       (listed, Some (s', removed)) \<and> removed = [''13''] \<and> store_last_join s' ''13'' = None"
proof -
  let ?s = "\<lparr>records = [(''13'', \<lparr>act_xuid = ''13'', display_name = ''Bo'', last_join = 5 * second + 1\<rparr>)], act_file = Missing\<rparr>"
  have g: "good_store (records ?s)" "good_file (act_file ?s)"
    using good_activity_example by (simp_all add: good_store_def good_file_def)
  have w: "in_int64 (- second)" by code_simp
  have st: "stale (9 * second) second ?s = [\<lparr>act_xuid = ''13'', display_name = ''Bo'', last_join = 5 * second + 1\<rparr>]"
    unfolding stale_def wrap64_id [OF w] by (simp add: second_def mset_single_iff [THEN iffD1])
  have "\<exists>s'. prune_inactive (\<lambda>lt. sort_key last_join) (9 * second) second True True (\<lambda>x. Answer 204 None) ?s =
      ([\<lparr>act_xuid = ''13'', display_name = ''Bo'', last_join = 5 * second + 1\<rparr>], Some (s', [''13'']))"
    by (simp add: prune_inactive_def st remove_friend_def)
  then obtain s' where s': "prune_inactive (\<lambda>lt. sort_key last_join) (9 * second) second True True (\<lambda>x. Answer 204 None) ?s =
      ([\<lparr>act_xuid = ''13'', display_name = ''Bo'', last_join = 5 * second + 1\<rparr>], Some (s', [''13'']))" by blast
  from prune_inactive_exact [OF g insort_sorts w s'] s' show ?thesis by simp
qed

text \<open>Each person costs at most five requests, and every pause after a refusal is at least five seconds.\<close>

theorem unfriend_is_polite:
  "length (snd (unfriend_attempts 5 (replies x))) \<le> 5 \<and> list_all (\<lambda>w. 5 \<le> w) (snd (unfriend_attempts 5 (replies x)))"
  by (rule unfriend_attempts_bounds)

lemma send_updates_prefix: "send_updates write_ok i us = (out, res) \<Longrightarrow> \<exists>rest. us = out @ rest \<and> (res = SentAll \<longrightarrow> rest = [])"
proof (induction us arbitrary: i out)
  case Nil
  then show ?case by simp
next
  case (Cons u us)
  show ?case
  proof (cases "write_ok i")
    case True
    obtain out1 where o1: "send_updates write_ok (Suc i) us = (out1, res)" "out = u # out1"
      using Cons.prems True by (cases "send_updates write_ok (Suc i) us") auto
    from Cons.IH [OF o1(1)] o1(2) show ?thesis by auto
  next
    case False
    with Cons.prems show ?thesis by auto
  qed
qed

text \<open>
  Editing command blocks sends nothing unless every edit names a known mode; what it sends are the
  edits in order, all of them when no write fails.
\<close>

theorem edits_all_known:
  assumes "apply_edits ready write_ok edits = (out, res)"
  shows "(out \<noteq> [] \<longrightarrow> ready \<and> (\<forall>e \<in> set edits. mode_of (ed_mode e) \<noteq> None)) \<and>
    (res = SentAll \<longrightarrow> map Some out = map update_of edits) \<and>
    (\<exists>n. map Some out = map update_of (take n edits))"
proof (cases "ready \<and> (\<forall>e \<in> set edits. mode_of (ed_mode e) \<noteq> None)")
  case False
  with assms show ?thesis by (auto simp: apply_edits_def split: if_splits intro: exI [of _ 0])
next
  case True
  then have some: "map Some (map (\<lambda>e. the (update_of e)) es) = map update_of es" if "set es \<subseteq> set edits" for es
    using that by (auto simp: update_of_def split: option.split)
  from True assms have "send_updates write_ok 0 (map (\<lambda>e. the (update_of e)) edits) = (out, res)"
    by (auto simp: apply_edits_def split: if_splits)
  from send_updates_prefix [OF this] obtain rest where r: "map (\<lambda>e. the (update_of e)) edits = out @ rest"
    "res = SentAll \<longrightarrow> rest = []" by blast
  then have "out = map (\<lambda>e. the (update_of e)) (take (length out) edits)"
    by (metis append_eq_conv_conj take_map)
  with some [of "take (length out) edits"] have "map Some out = map update_of (take (length out) edits)"
    using set_take_subset by metis
  moreover have "res = SentAll \<longrightarrow> map Some out = map update_of edits" using r some [of edits] by auto
  ultimately show ?thesis using True by blast
qed

theorem edits_all_known_witness:
  "\<exists>out. apply_edits True (\<lambda>i. True) [\<lparr>ed_pos = (1, 2, 3), ed_mode = ''chain'', ed_conditional = False,
     ed_needs_redstone = False, ed_delay = 0, ed_command = ''say'', ed_name = '''', ed_track_output = None\<rparr>] = (out, SentAll) \<and>
     length out = 1"
proof -
  let ?e = "\<lparr>ed_pos = (1, 2, 3), ed_mode = ''chain'', ed_conditional = False, ed_needs_redstone = False, ed_delay = 0,
    ed_command = ''say'', ed_name = '''', ed_track_output = None\<rparr>"
  have "\<exists>out. apply_edits True (\<lambda>i. True) [?e] = (out, SentAll)"
    by (simp add: apply_edits_def mode_of_def)
  then obtain out where s: "apply_edits True (\<lambda>i. True) [?e] = (out, SentAll)" by blast
  from edits_all_known [OF this] have "map Some out = map update_of [?e]" by blast
  then have "length out = 1" by (metis length_map length_Cons list.size(3) One_nat_def)
  with s show ?thesis by blast
qed

end
