(* ===== verification/Sign_In.thy ===== *)
theory Sign_In
  imports Go_Strings Session_Tokens
begin

text \<open>
  Signing in with a Microsoft account: \<open>tokenSource\<close> and \<open>cachingTokenSource\<close> of \<open>main.go\<close>, which
  keep the token of an account in a file, and what \<open>session/session.go\<close> derives from a session
  beside its Minecraft token. The JSON encoding of a token, the OAuth library and the services are arguments.
\<close>

section \<open>Token files\<close>

text \<open>\<open>path.Clean\<close> on the elements of a path, the innermost directory first.\<close>

fun clean_elements :: "bool \<Rightarrow> string list \<Rightarrow> string list \<Rightarrow> string list" where
  "clean_elements rooted dirs [] = rev dirs"
| "clean_elements rooted dirs (e # es) =
     (if e = '''' \<or> e = ''.'' then clean_elements rooted dirs es
      else if e = ''..'' then
        (case dirs of
           d # ds \<Rightarrow> (if d = ''..'' then clean_elements rooted (e # dirs) es else clean_elements rooted ds es)
         | [] \<Rightarrow> (if rooted then clean_elements rooted [] es else clean_elements rooted [e] es))
      else clean_elements rooted (e # dirs) es)"

definition path_clean :: "string \<Rightarrow> string" where
  "path_clean p =
     (let rooted = has_prefix p ''/'';
          s = (if rooted then ''/'' else '''') @ join ''/'' (clean_elements rooted [] (split_byte (CHR ''/'') p))
      in if s = '''' then ''.'' else s)"

text \<open>\<open>filepath.Join(".", file)\<close>.\<close>

definition token_path :: "string \<Rightarrow> string" where
  "token_path file = path_clean (if file = '''' then ''.'' else ''./'' @ file)"

text \<open>An absolute name is taken relative to the run directory like any other.\<close>

lemma token_path_absolute: "token_path (CHR ''/'' # file) = token_path file"
  by (cases "file = ''''") (simp_all add: token_path_def path_clean_def has_prefix_def Let_def)

text \<open>A plain file name is its own path.\<close>

lemma token_path_plain:
  assumes "CHR ''/'' \<notin> set file" "file \<noteq> ''''" "file \<noteq> ''.''" "file \<noteq> ''..''"
  shows "token_path file = file"
  using assms by (simp add: token_path_def path_clean_def has_prefix_def Let_def)

text \<open>
  The files of the run directory. \<open>os.WriteFile\<close> truncates and writes; it may fail before it opens
  the file or in the middle of writing.
\<close>

type_synonym token_disk = "string \<rightharpoonup> string"

datatype write_result = Stored | NotOpened | Torn nat

fun write_file :: "write_result \<Rightarrow> string \<Rightarrow> string \<Rightarrow> token_disk \<Rightarrow> token_disk" where
  "write_file Stored path b disk = disk(path \<mapsto> b)"
| "write_file NotOpened path b disk = disk"
| "write_file (Torn n) path b disk = disk(path \<mapsto> take n b)"

record token_codec =
  tc_marshal :: "live_token \<Rightarrow> string option"
  tc_unmarshal :: "string \<Rightarrow> live_token option"

section \<open>A token source that keeps its token in a file\<close>

text \<open>
  An OAuth token source stands for the token it holds; \<open>refresh\<close> is what it answers to one call of
  \<open>Token\<close>, the token itself while it is valid and otherwise a new one or an error. It holds what it
  answered last.
\<close>

record caching_source =
  cs_token :: live_token
  cs_path :: string

definition source_token :: "(live_token \<Rightarrow> live_token option) \<Rightarrow> live_token \<Rightarrow> live_token \<times> live_token option" where
  "source_token refresh t = (case refresh t of None \<Rightarrow> (t, None) | Some t' \<Rightarrow> (t', Some t'))"

definition caching_token ::
  "token_codec \<Rightarrow> (live_token \<Rightarrow> live_token option) \<Rightarrow> write_result \<Rightarrow> caching_source \<Rightarrow> token_disk \<Rightarrow>
   caching_source \<times> token_disk \<times> live_token option" where
  "caching_token codec refresh wr src disk =
     (case source_token refresh (cs_token src) of
        (t, None) \<Rightarrow> (src\<lparr>cs_token := t\<rparr>, disk, None)
      | (t, Some tok) \<Rightarrow>
          (src\<lparr>cs_token := t\<rparr>,
           (case tc_marshal codec tok of Some b \<Rightarrow> write_file wr (cs_path src) b disk | None \<Rightarrow> disk),
           Some tok))"

text \<open>
  \<open>tokenSource\<close>: the cached token if it still gives one, otherwise a sign-in with a device code, whose
  prompt the operator has to answer. \<open>device_code\<close> is the token that comes of it.
\<close>

datatype sign_in = Reused caching_source | SignedIn caching_source | SignInFailed

definition token_source ::
  "token_codec \<Rightarrow> (live_token \<Rightarrow> live_token option) \<Rightarrow> live_token option \<Rightarrow> token_disk \<Rightarrow> string \<Rightarrow> sign_in" where
  "token_source codec refresh device_code disk file =
     (let path = token_path file;
          cached = (case disk path of
             None \<Rightarrow> None
           | Some b \<Rightarrow>
               (case tc_unmarshal codec b of
                  None \<Rightarrow> None
                | Some tok \<Rightarrow>
                    (case source_token refresh tok of
                       (t, Some tok') \<Rightarrow> Some \<lparr>cs_token = t, cs_path = path\<rparr>
                     | (t, None) \<Rightarrow> None)))
      in case cached of
           Some src \<Rightarrow> Reused src
         | None \<Rightarrow>
             (case device_code of
                None \<Rightarrow> SignInFailed
              | Some tok \<Rightarrow> SignedIn \<lparr>cs_token = tok, cs_path = path\<rparr>))"

definition source_of :: "sign_in \<Rightarrow> caching_source option" where
  "source_of r = (case r of Reused src \<Rightarrow> Some src | SignedIn src \<Rightarrow> Some src | SignInFailed \<Rightarrow> None)"

definition prompted :: "sign_in \<Rightarrow> bool" where
  "prompted r \<longleftrightarrow> (case r of Reused src \<Rightarrow> False | _ \<Rightarrow> True)"

section \<open>The sessions of a process and their token files\<close>

text \<open>
  \<open>Session.Token\<close> over a caching source: \<open>token_locked\<close> with the source's answer, which is asked for
  only when the session's own token is no longer valid. The accounts of a process share the disk.
\<close>

record account =
  ac_session :: auth_session
  ac_source :: caching_source

definition session_token ::
  "token_codec \<Rightarrow> (live_token \<Rightarrow> bool) \<Rightarrow> (live_token \<Rightarrow> live_token option) \<Rightarrow> write_result \<Rightarrow> services \<Rightarrow>
   account \<Rightarrow> token_disk \<Rightarrow> account \<times> token_disk \<times> live_token option" where
  "session_token codec live_valid refresh wr sv a disk =
     (if (case as_tok (ac_session a) of None \<Rightarrow> False | Some t \<Rightarrow> live_valid t)
      then (a, disk, as_tok (ac_session a))
      else (let (src, disk, tok) = caching_token codec refresh wr (ac_source a) disk;
                (s, tok) = token_locked live_valid (sv\<lparr>sv_live := tok\<rparr>) (ac_session a)
            in (\<lparr>ac_session = s, ac_source = src\<rparr>, disk, tok)))"

type_synonym token_request = "string \<times> (live_token \<Rightarrow> live_token option) \<times> write_result \<times> services"

definition accounts_step ::
  "token_codec \<Rightarrow> (live_token \<Rightarrow> bool) \<Rightarrow> (string \<rightharpoonup> account) \<times> token_disk \<Rightarrow> token_request \<Rightarrow>
   (string \<rightharpoonup> account) \<times> token_disk" where
  "accounts_step codec live_valid st rq =
     (case (st, rq) of
        ((accounts, disk), (name, refresh, wr, sv)) \<Rightarrow>
          (case accounts name of
             None \<Rightarrow> (accounts, disk)
           | Some a \<Rightarrow>
               (let (a, disk, tok) = session_token codec live_valid refresh wr sv a disk
                in (accounts(name \<mapsto> a), disk))))"

definition accounts_run ::
  "token_codec \<Rightarrow> (live_token \<Rightarrow> bool) \<Rightarrow> token_request list \<Rightarrow> (string \<rightharpoonup> account) \<times> token_disk \<Rightarrow>
   (string \<rightharpoonup> account) \<times> token_disk" where
  "accounts_run codec live_valid rqs st = foldl (accounts_step codec live_valid) st rqs"

definition account_saved :: "token_codec \<Rightarrow> token_disk \<Rightarrow> account \<Rightarrow> bool" where
  "account_saved codec disk a \<longleftrightarrow>
     (case as_tok (ac_session a) of
        None \<Rightarrow> True
      | Some t \<Rightarrow> cs_token (ac_source a) = t \<and> disk (cs_path (ac_source a)) = tc_marshal codec t)"

definition accounts_saved :: "token_codec \<Rightarrow> (string \<rightharpoonup> account) \<times> token_disk \<Rightarrow> bool" where
  "accounts_saved codec st \<longleftrightarrow>
     (\<forall>t. tc_marshal codec t \<noteq> None) \<and>
     inj_on (\<lambda>n. map_option (cs_path \<circ> ac_source) (fst st n)) (dom (fst st)) \<and>
     (\<forall>n a. fst st n = Some a \<longrightarrow> account_saved codec (snd st) a)"

definition writes_stored :: "token_request list \<Rightarrow> bool" where
  "writes_stored rqs \<longleftrightarrow> list_all (\<lambda>(name, refresh, wr, sv). wr = Stored) rqs"

lemma session_token_path [simp]:
  "cs_path (ac_source (fst (session_token codec live_valid refresh wr sv a disk))) = cs_path (ac_source a)"
  by (auto simp: session_token_def caching_token_def source_token_def Let_def split: option.splits prod.splits)

lemma session_token_other_files:
  "p \<noteq> cs_path (ac_source a) \<Longrightarrow> fst (snd (session_token codec live_valid refresh wr sv a disk)) p = disk p"
  by (cases wr) (auto simp: session_token_def caching_token_def source_token_def Let_def split: option.splits prod.splits)

lemma session_token_saved:
  assumes "\<And>t. tc_marshal codec t \<noteq> None"
  assumes "account_saved codec disk a"
  shows "account_saved codec (fst (snd (session_token codec live_valid refresh Stored sv a disk)))
           (fst (session_token codec live_valid refresh Stored sv a disk))"
proof -
  have m: False if "tc_marshal codec t = None" for t using assms(1) that by blast
  show ?thesis
    using assms(2)
    by (auto simp: session_token_def caching_token_def source_token_def token_locked_def account_saved_def Let_def
        split: option.splits dest: m)
qed

lemma accounts_step_saved:
  assumes "accounts_saved codec st" "writes_stored [rq]"
  shows "accounts_saved codec (accounts_step codec live_valid st rq)"
proof -
  obtain accounts disk where st: "st = (accounts, disk)" by (cases st)
  obtain name refresh wr sv where rq: "rq = (name, refresh, wr, sv)" by (cases rq)
  have wr: "wr = Stored" using assms(2) by (simp add: rq writes_stored_def)
  show ?thesis
  proof (cases "accounts name")
    case None
    then show ?thesis using assms(1) by (simp add: st rq accounts_step_def)
  next
    case (Some a)
    let ?r = "session_token codec live_valid refresh Stored sv a disk"
    have step: "accounts_step codec live_valid st rq = (accounts(name \<mapsto> fst ?r), fst (snd ?r))"
      by (simp add: st rq wr Some accounts_step_def case_prod_beta Let_def)
    have marshal: "\<And>t. tc_marshal codec t \<noteq> None"
      and inj: "inj_on (\<lambda>n. map_option (cs_path \<circ> ac_source) (accounts n)) (dom accounts)"
      and saved: "\<And>n b. accounts n = Some b \<Longrightarrow> account_saved codec disk b"
      using assms(1) by (auto simp: accounts_saved_def st)
    have paths: "map_option (cs_path \<circ> ac_source) ((accounts(name \<mapsto> fst ?r)) n) =
        map_option (cs_path \<circ> ac_source) (accounts n)" for n
      by (simp add: Some)
    have others: "account_saved codec (fst (snd ?r)) b" if "accounts n = Some b" "n \<noteq> name" for n b
    proof -
      have "cs_path (ac_source b) \<noteq> cs_path (ac_source a)"
        using inj that Some by (auto simp: inj_on_def dom_def)
      then show ?thesis
        using saved [OF that(1)] by (simp add: account_saved_def session_token_other_files split: option.splits)
    qed
    have "account_saved codec (fst (snd ?r)) (fst ?r)"
      using session_token_saved [OF marshal saved [OF Some]] .
    moreover have "dom (accounts(name \<mapsto> fst ?r)) = dom accounts" using Some by auto
    ultimately show ?thesis
      using marshal inj others unfolding step accounts_saved_def fst_conv snd_conv paths by auto
  qed
qed

text \<open>With every write stored, what the files hold is an invariant of every run.\<close>

definition stored_request :: "string \<times> (live_token \<Rightarrow> live_token option) \<times> services \<Rightarrow> token_request" where
  "stored_request rq = (case rq of (name, refresh, sv) \<Rightarrow> (name, refresh, Stored, sv))"

lemma stored_requests:
  "writes_stored rqs \<Longrightarrow> \<exists>ss. rqs = map stored_request ss"
proof (induction rqs)
  case (Cons rq rqs)
  then obtain ss where "rqs = map stored_request ss" by (auto simp: writes_stored_def)
  moreover obtain name refresh wr sv where "rq = (name, refresh, wr, sv)" by (cases rq)
  ultimately have "rq # rqs = map stored_request ((name, refresh, sv) # ss)"
    using Cons.prems by (simp add: writes_stored_def stored_request_def)
  then show ?case by (rule exI)
qed simp

interpretation sign_ins: invariant_machine
  "\<lambda>st rq. accounts_step codec live_valid st (stored_request rq)" "accounts_saved codec" for codec live_valid
  by unfold_locales
    (auto intro!: accounts_step_saved simp: writes_stored_def stored_request_def split: prod.splits)

lemma accounts_run_saved:
  assumes "accounts_saved codec st" "writes_stored rqs"
  shows "accounts_saved codec (accounts_run codec live_valid rqs st)"
proof -
  obtain ss where "rqs = map stored_request ss" using stored_requests [OF assms(2)] by blast
  then show ?thesis
    using sign_ins.run_keeps [OF assms(1)] by (simp add: accounts_run_def foldl_map)
qed

lemma fresh_accounts_saved:
  assumes "\<And>t. tc_marshal codec t \<noteq> None"
    and "inj_on (\<lambda>n. map_option (cs_path \<circ> ac_source) (accounts n)) (dom accounts)"
    and "\<And>n a. accounts n = Some a \<Longrightarrow> as_tok (ac_session a) = None"
  shows "accounts_saved codec (accounts, disk)"
  using assms by (simp add: accounts_saved_def account_saved_def)

lemma saved_token_reused:
  assumes "disk (token_path file) = Some b" "tc_unmarshal codec b = Some t" "refresh t = Some t'"
  shows "token_source codec refresh device_code disk file = Reused \<lparr>cs_token = t', cs_path = token_path file\<rparr>"
  using assms by (simp add: token_source_def source_token_def)

text \<open>
  C11: Accounts of one process with token files of their own start without a token and ask for tokens in any order.
  When every write of a token file succeeds and the encoding can be read back, then each account
  whose session holds a token can be started again from its file without a sign-in, as long as that token
  can still be refreshed.
\<close>

theorem restart_needs_no_sign_in:
  assumes "\<And>t. tc_marshal codec t \<noteq> None"
    and "\<And>t b. tc_marshal codec t = Some b \<Longrightarrow> tc_unmarshal codec b = Some t"
    and "inj_on (\<lambda>n. map_option (cs_path \<circ> ac_source) (accounts n)) (dom accounts)"
    and "\<And>n a. accounts n = Some a \<Longrightarrow> as_tok (ac_session a) = None"
    and "writes_stored rqs"
    and "accounts_run codec live_valid rqs (accounts, disk) = (accounts', disk')"
    and "accounts' n = Some a" "as_tok (ac_session a) = Some t" "cs_path (ac_source a) = token_path file"
    and "refresh t = Some t'"
  shows "token_source codec refresh device_code disk' file = Reused \<lparr>cs_token = t', cs_path = token_path file\<rparr>"
proof -
  have "accounts_saved codec (accounts', disk')"
    using accounts_run_saved [where live_valid = live_valid, OF fresh_accounts_saved [where disk = disk, OF assms(1,3,4)] assms(5)]
      assms(6) by simp
  then have "account_saved codec disk' a" using assms(7) by (simp add: accounts_saved_def)
  then have "disk' (token_path file) = tc_marshal codec t" using assms(8,9) by (simp add: account_saved_def)
  moreover obtain b where "tc_marshal codec t = Some b" using assms(1) by blast
  ultimately show ?thesis
    using assms(2,10) by (intro saved_token_reused) auto
qed

text \<open>An encoding to evaluate with: the sign and the seconds in unary, then the access token.\<close>

definition unary_marshal :: "live_token \<Rightarrow> string" where
  "unary_marshal t =
     (if lt_expiry t < 0 then CHR ''-'' else CHR ''+'') #
     replicate (nat (abs (lt_expiry t))) (CHR ''1'') @ CHR '' '' # lt_access t"

fun unary_unmarshal :: "string \<Rightarrow> live_token option" where
  "unary_unmarshal [] = None"
| "unary_unmarshal (c # s) =
     (let n = int (length (takeWhile (\<lambda>d. d = CHR ''1'') s))
      in Some \<lparr>lt_access = tl (dropWhile (\<lambda>d. d = CHR ''1'') s), lt_expiry = (if c = CHR ''-'' then - n else n)\<rparr>)"

definition unary_codec :: token_codec where
  "unary_codec = \<lparr>tc_marshal = (\<lambda>t. Some (unary_marshal t)), tc_unmarshal = unary_unmarshal\<rparr>"

lemma takeWhile_replicate: "takeWhile (\<lambda>d. d = c) (replicate n c @ s) = replicate n c @ takeWhile (\<lambda>d. d = c) s"
  by (induction n) auto

lemma dropWhile_replicate: "dropWhile (\<lambda>d. d = c) (replicate n c @ s) = dropWhile (\<lambda>d. d = c) s"
  by (induction n) auto

lemma unary_round_trip: "unary_unmarshal (unary_marshal t) = Some t"
  by (cases t) (simp add: unary_marshal_def takeWhile_replicate dropWhile_replicate)

definition demo_account :: account where
  "demo_account =
     \<lparr>ac_session = no_session,
      ac_source = \<lparr>cs_token = \<lparr>lt_access = ''a'', lt_expiry = 5\<rparr>, cs_path = ''token.json''\<rparr>\<rparr>"

definition demo_renewed :: live_token where
  "demo_renewed = \<lparr>lt_access = ''b'', lt_expiry = 9\<rparr>"

definition demo_request :: token_request where
  "demo_request = (''primary'', (\<lambda>t. Some demo_renewed), Stored, example_services)"

definition demo_signed_in :: account where
  "demo_signed_in =
     \<lparr>ac_session = no_session\<lparr>as_tok := Some demo_renewed\<rparr>,
      ac_source = \<lparr>cs_token = demo_renewed, cs_path = ''token.json''\<rparr>\<rparr>"

lemma demo_accounts_run:
  "accounts_run unary_codec (\<lambda>t. True) [demo_request] ([''primary'' \<mapsto> demo_account], Map.empty) =
     ([''primary'' \<mapsto> demo_signed_in], [''token.json'' \<mapsto> unary_marshal demo_renewed])"
  by (simp add: accounts_run_def accounts_step_def demo_request_def demo_account_def session_token_def
      no_session_def caching_token_def source_token_def unary_codec_def token_locked_def demo_signed_in_def)

theorem restart_needs_no_sign_in_witness:
  "token_source unary_codec Some None [''token.json'' \<mapsto> unary_marshal demo_renewed] ''token.json'' =
     Reused \<lparr>cs_token = demo_renewed, cs_path = token_path ''token.json''\<rparr>"
proof (rule restart_needs_no_sign_in [where accounts = "[''primary'' \<mapsto> demo_account]" and disk = Map.empty
      and live_valid = "\<lambda>t. True" and rqs = "[demo_request]" and a = demo_signed_in and n = "''primary''"
      and accounts' = "[''primary'' \<mapsto> demo_signed_in]" and t = demo_renewed and refresh = Some])
  show "accounts_run unary_codec (\<lambda>t. True) [demo_request] ([''primary'' \<mapsto> demo_account], Map.empty) =
     ([''primary'' \<mapsto> demo_signed_in], [''token.json'' \<mapsto> unary_marshal demo_renewed])"
    by (rule demo_accounts_run)
  show "cs_path (ac_source demo_signed_in) = token_path ''token.json''"
    by (simp add: demo_signed_in_def token_path_plain)
qed (auto simp: unary_codec_def unary_round_trip demo_account_def no_session_def demo_request_def
    writes_stored_def demo_signed_in_def split: if_splits)

section \<open>What a session gives beside its Minecraft token\<close>

text \<open>
  \<open>request_xbl\<close> is \<open>auth.RequestXBLToken\<close> with the session's token cache, for a live token and a
  relying party.
\<close>

definition request_xbl_token ::
  "(live_token \<Rightarrow> bool) \<Rightarrow> (live_token \<Rightarrow> string \<Rightarrow> 'x option) \<Rightarrow> services \<Rightarrow> string \<Rightarrow> auth_session \<Rightarrow> auth_session \<times> 'x option" where
  "request_xbl_token live_valid request_xbl sv party s =
     (case token_locked live_valid sv s of
        (s, None) \<Rightarrow> (s, None)
      | (s, Some t) \<Rightarrow> (s, request_xbl t party))"

definition legacy_multiplayer_xbl ::
  "(live_token \<Rightarrow> bool) \<Rightarrow> (live_token \<Rightarrow> string \<Rightarrow> 'x option) \<Rightarrow> services \<Rightarrow> auth_session \<Rightarrow> auth_session \<times> 'x option" where
  "legacy_multiplayer_xbl live_valid request_xbl sv s =
     request_xbl_token live_valid request_xbl sv ''https://multiplayer.minecraft.net/'' s"

text \<open>\<open>PlayfabIdentity\<close>, and the URI of the authorization service that discovery found.\<close>

definition playfab_identity_call ::
  "(live_token \<Rightarrow> bool) \<Rightarrow> instant \<Rightarrow> services \<Rightarrow> auth_session \<Rightarrow> auth_session \<times> playfab_identity option outcome" where
  "playfab_identity_call live_valid now sv s = playfab_identity_locked live_valid now sv s"

definition authorization_service_uri :: "string option \<Rightarrow> string" where
  "authorization_service_uri uri = (case uri of None \<Rightarrow> '''' | Some u \<Rightarrow> u)"

text \<open>\<open>issue token key\<close> is the authorization service's answer to a multiplayer token for a public key.\<close>

definition multiplayer_token ::
  "(live_token \<Rightarrow> bool) \<Rightarrow> (service_token \<Rightarrow> 'k \<Rightarrow> string option) \<Rightarrow> instant \<Rightarrow> services \<Rightarrow> 'k \<Rightarrow> auth_session \<Rightarrow>
   auth_session \<times> string outcome" where
  "multiplayer_token live_valid issue now sv key s =
     (case mc_token live_valid now sv s of
        (s, Panics) \<Rightarrow> (s, Panics)
      | (s, Fails) \<Rightarrow> (s, Fails)
      | (s, Returns t) \<Rightarrow> (s, case issue t key of None \<Rightarrow> Fails | Some jwt \<Rightarrow> Returns jwt))"

text \<open>\<open>VerifyMultiplayerToken\<close>: a verifier, its verdict on the token, and the claims of what it verified.\<close>

definition verify_multiplayer_token ::
  "('v option) \<Rightarrow> ('v \<Rightarrow> string \<Rightarrow> 'i option) \<Rightarrow> ('i \<Rightarrow> 'c option) \<Rightarrow> string \<Rightarrow> 'c option" where
  "verify_multiplayer_token verifier verify claims token =
     (case verifier of
        None \<Rightarrow> None
      | Some v \<Rightarrow> (case verify v token of None \<Rightarrow> None | Some i \<Rightarrow> claims i))"

text \<open>The XSTS token of \<open>xblTokenSource\<close>: its claims are the first of the list, which panics when there is none.\<close>

record user_info =
  ui_gamertag :: string
  ui_xuid :: string
  ui_hash :: string

definition xbl_source_token ::
  "(live_token \<Rightarrow> bool) \<Rightarrow> (live_token \<Rightarrow> string \<Rightarrow> 'x option) \<Rightarrow> services \<Rightarrow> string \<Rightarrow> auth_session \<Rightarrow> auth_session \<times> 'x option" where
  "xbl_source_token live_valid request_xbl sv party s =
     (case token_locked live_valid sv s of
        (s, None) \<Rightarrow> (s, None)
      | (s, Some t) \<Rightarrow> (s, request_xbl t party))"

definition display_claims :: "user_info list \<Rightarrow> user_info outcome" where
  "display_claims infos = (case infos of [] \<Rightarrow> Panics | i # is \<Rightarrow> Returns i)"

definition xsts_string :: "user_info list \<Rightarrow> string \<Rightarrow> string outcome" where
  "xsts_string infos token =
     (case infos of [] \<Rightarrow> Panics | i # is \<Rightarrow> Returns (''XBL3.0 x='' @ ui_hash i @ '';'' @ token))"

text \<open>
  \<open>NewClientIdentity\<close> of \<open>bridge/nnendpoint.go\<close>: \<open>key\<close> is the generated key pair, \<open>public\<close> its
  public half.
\<close>

record 'k client_identity =
  ci_private_key :: 'k
  ci_token :: string
  ci_domain :: string

definition new_client_identity ::
  "(live_token \<Rightarrow> bool) \<Rightarrow> (service_token \<Rightarrow> 'p \<Rightarrow> string option) \<Rightarrow> ('k \<Rightarrow> 'p) \<Rightarrow> 'k option \<Rightarrow> string option \<Rightarrow>
   instant \<Rightarrow> services \<Rightarrow> auth_session \<Rightarrow> auth_session \<times> 'k client_identity outcome" where
  "new_client_identity live_valid issue public key uri now sv s =
     (case key of
        None \<Rightarrow> (s, Fails)
      | Some k \<Rightarrow>
          (case multiplayer_token live_valid issue now sv (public k) s of
             (s, Panics) \<Rightarrow> (s, Panics)
           | (s, Fails) \<Rightarrow> (s, Fails)
           | (s, Returns token) \<Rightarrow>
               (let domain = authorization_service_uri uri
                in if domain = '''' then (s, Fails)
                   else (s, Returns \<lparr>ci_private_key = k, ci_token = token, ci_domain = domain\<rparr>))))"

text \<open>The token of an identity was issued for the key it carries, and its issuer is named.\<close>

theorem identity_token_fits_key:
  "new_client_identity live_valid issue public key uri now sv s = (s', Returns i) \<Longrightarrow>
   \<exists>t. issue t (public (ci_private_key i)) = Some (ci_token i) \<and> ci_domain i \<noteq> '''' \<and> uri = Some (ci_domain i)"
  by (auto simp: new_client_identity_def multiplayer_token_def authorization_service_uri_def Let_def
      split: option.splits prod.splits outcome.splits if_splits)

text \<open>A call that gives no valid live token gives no other token either.\<close>

lemma xbl_needs_live_token:
  assumes "request_xbl_token live_valid request_xbl sv party s = (s', Some x)"
  shows "\<exists>t. as_tok s' = Some t \<and> request_xbl t party = Some x"
  using assms by (auto simp: request_xbl_token_def token_locked_def split: option.splits if_splits)

end
