(* ===== verification/Tool_Runs.thy ===== *)
theory Tool_Runs
  imports Tools Sign_In Friend_Manager Http_Signaling Identity
begin

text \<open>
  The operator's tools under \<open>cmd\<close> as whole runs: what each does with the token file of the relay,
  what it asks the services for, how it ends. \<open>Tools\<close> has the decisions inside them. The services,
  the JSON and signature libraries and the game connection are arguments.
\<close>

section \<open>How a tool ends\<close>

text \<open>A tool runs to its end, exits with a status, or panics.\<close>

datatype 'a run_end = Ends 'a | ExitsWith nat | PanicsOut

fun tool_then :: "'a run_end \<Rightarrow> ('a \<Rightarrow> 'b run_end) \<Rightarrow> 'b run_end" where
  "tool_then (Ends a) f = f a"
| "tool_then (ExitsWith n) f = ExitsWith n"
| "tool_then PanicsOut f = PanicsOut"

definition or_exit :: "'a option \<Rightarrow> 'a run_end" where
  "or_exit x = (case x of None \<Rightarrow> ExitsWith 1 | Some a \<Rightarrow> Ends a)"

definition or_panic :: "'a option \<Rightarrow> 'a run_end" where
  "or_panic x = (case x of None \<Rightarrow> PanicsOut | Some a \<Rightarrow> Ends a)"

lemma or_simps [simp]:
  "or_exit None = ExitsWith 1" "or_exit (Some a) = Ends a" "or_panic None = PanicsOut" "or_panic (Some a) = Ends a"
  by (simp_all add: or_exit_def or_panic_def)

lemma tool_then_Ends [simp]: "tool_then r f = Ends b \<longleftrightarrow> (\<exists>a. r = Ends a \<and> f a = Ends b)"
  by (cases r) auto

lemma or_Ends [simp]: "or_exit x = Ends a \<longleftrightarrow> x = Some a" "or_panic x = Ends a \<longleftrightarrow> x = Some a"
  by (simp_all add: or_exit_def or_panic_def split: option.split)

section \<open>The token file\<close>

definition read_token :: "(string \<Rightarrow> live_token option) \<Rightarrow> token_disk \<Rightarrow> string \<Rightarrow> live_token option" where
  "read_token decode disk path = (case disk path of None \<Rightarrow> None | Some b \<Rightarrow> decode b)"

definition relay_token_file :: string where
  "relay_token_file = ''/root/mcjava/n2r/nether2rak/token.json''"

text \<open>
  Three tools take the token as it is and give up when it has expired: \<open>decode\<close> is the JSON decoder on
  the open file.
\<close>

definition strict_token ::
  "(string \<Rightarrow> live_token option) \<Rightarrow> (live_token \<Rightarrow> bool) \<Rightarrow> token_disk \<Rightarrow> live_token run_end" where
  "strict_token decode live_valid disk =
     tool_then (or_panic (read_token decode disk relay_token_file))
       (\<lambda>t. if live_valid t then Ends t else ExitsWith 1)"

text \<open>
  The others start a session from a source that refreshes the token it has read. \<open>refresh\<close> answers
  to \<open>Token\<close> on that source, as in \<open>Sign_In\<close>.
\<close>

definition read_session ::
  "(string \<Rightarrow> live_token option) \<Rightarrow> (live_token \<Rightarrow> live_token option) \<Rightarrow> (live_token \<Rightarrow> bool) \<Rightarrow> instant \<Rightarrow> services \<Rightarrow>
   token_disk \<Rightarrow> string \<Rightarrow> auth_session outcome" where
  "read_session decode refresh live_valid now sv disk path =
     (case read_token decode disk path of
        None \<Rightarrow> Fails
      | Some t \<Rightarrow> session_from_token_source live_valid now (sv\<lparr>sv_live := snd (source_token refresh t)\<rparr>))"

text \<open>The session for a tool that exits on an error (1) and for one that panics (2).\<close>

definition session_or_exit :: "'a outcome \<Rightarrow> 'a run_end" where
  "session_or_exit r = (case r of Returns a \<Rightarrow> Ends a | Fails \<Rightarrow> ExitsWith 1 | Panics \<Rightarrow> PanicsOut)"

definition session_or_panic :: "'a outcome \<Rightarrow> 'a run_end" where
  "session_or_panic r = (case r of Returns a \<Rightarrow> Ends a | Fails \<Rightarrow> PanicsOut | Panics \<Rightarrow> PanicsOut)"

lemma session_or_Ends [simp]:
  "session_or_exit r = Ends a \<longleftrightarrow> r = Returns a" "session_or_panic r = Ends a \<longleftrightarrow> r = Returns a"
  by (simp_all add: session_or_exit_def session_or_panic_def split: outcome.split)

text \<open>
  \<open>cbedit\<close> writes back what its source answers, the first time before it goes on; an error of the write
  is ignored.
\<close>

definition write_back_token ::
  "token_codec \<Rightarrow> (live_token \<Rightarrow> live_token option) \<Rightarrow> write_result \<Rightarrow> caching_source \<Rightarrow> token_disk \<Rightarrow>
   caching_source \<times> token_disk \<times> live_token option" where
  "write_back_token codec refresh wr src disk =
     (case source_token refresh (cs_token src) of
        (t, None) \<Rightarrow> (src, disk, None)
      | (t, Some tok) \<Rightarrow>
          (src\<lparr>cs_token := t\<rparr>,
           (case tc_marshal codec tok of None \<Rightarrow> disk | Some b \<Rightarrow> write_file wr (cs_path src) b disk),
           Some tok))"

definition cached_token_source ::
  "token_codec \<Rightarrow> (live_token \<Rightarrow> live_token option) \<Rightarrow> write_result \<Rightarrow> string \<Rightarrow> token_disk \<Rightarrow>
   token_disk \<times> caching_source option" where
  "cached_token_source codec refresh wr path disk =
     (case read_token (tc_unmarshal codec) disk path of
        None \<Rightarrow> (disk, None)
      | Some t \<Rightarrow>
          (case write_back_token codec refresh wr \<lparr>cs_token = t, cs_path = path\<rparr> disk of
             (src, disk, None) \<Rightarrow> (disk, None)
           | (src, disk, Some tok) \<Rightarrow> (disk, Some src)))"

section \<open>Friends of the account: friends, removefriend, rel\<close>

record hub_person =
  hp_xuid :: xuid
  hp_gamertag :: string
  hp_favorite :: bool
  hp_follows_us :: bool
  hp_followed :: bool

text \<open>
  \<open>friends\<close> tries relying parties in order. \<open>xsts\<close> gives the gamertags and XUIDs of the token for a party,
  \<open>hub\<close> the answer of peoplehub to a request with that token: its status and its decoded people.
\<close>

definition relying_parties :: "string list" where
  "relying_parties =
     [''http://xboxlive.com'', ''http://xboxlive.com/'', ''http://peoplehub.xboxlive.com/'', ''http://social.xboxlive.com/'']"

fun first_party ::
  "(string \<Rightarrow> (string \<times> xuid) list option) \<Rightarrow> (string \<Rightarrow> (int \<times> hub_person list option) option) \<Rightarrow> string list \<Rightarrow>
   (string \<times> hub_person list option) run_end" where
  "first_party xsts hub [] = ExitsWith 1"
| "first_party xsts hub (rp # rps) =
     (case xsts rp of
        None \<Rightarrow> first_party xsts hub rps
      | Some [] \<Rightarrow> PanicsOut
      | Some (me # others) \<Rightarrow>
          (case hub rp of
             None \<Rightarrow> first_party xsts hub rps
           | Some (status, people) \<Rightarrow> if status = 200 then Ends (rp, people) else first_party xsts hub rps))"

text \<open>Go compares strings byte by byte.\<close>

fun string_less :: "string \<Rightarrow> string \<Rightarrow> bool" where
  "string_less s [] = False"
| "string_less [] (d # t) = True"
| "string_less (c # s) (d # t) =
     ((of_char c :: nat) < of_char d \<or> c = d \<and> string_less s t)"

definition before_gamertag :: "(string \<Rightarrow> string) \<Rightarrow> hub_person \<Rightarrow> hub_person \<Rightarrow> bool" where
  "before_gamertag lower p q \<longleftrightarrow> string_less (lower (hp_gamertag p)) (lower (hp_gamertag q))"

definition people_run ::
  "(string \<Rightarrow> string) \<Rightarrow> ((hub_person \<Rightarrow> hub_person \<Rightarrow> bool) \<Rightarrow> hub_person list \<Rightarrow> hub_person list) \<Rightarrow>
   (string \<Rightarrow> live_token option) \<Rightarrow> (live_token \<Rightarrow> bool) \<Rightarrow> token_disk \<Rightarrow>
   (live_token \<Rightarrow> string \<Rightarrow> (string \<times> xuid) list option) \<Rightarrow>
   (live_token \<Rightarrow> string \<Rightarrow> (int \<times> hub_person list option) option) \<Rightarrow> hub_person list run_end" where
  "people_run lower sort_slice decode live_valid disk xsts hub =
     tool_then (strict_token decode live_valid disk) (\<lambda>t.
     tool_then (first_party (xsts t) (hub t) relying_parties) (\<lambda>(rp, people).
     tool_then (or_panic people) (\<lambda>people.
       Ends (sort_slice (before_gamertag lower) people))))"

text \<open>\<open>removefriend\<close>: one fixed XUID; the status of the answer is printed whatever it is.\<close>

definition removed_xuid :: xuid where "removed_xuid = ''2535470912054074''"

definition removefriend_run ::
  "(string \<Rightarrow> live_token option) \<Rightarrow> (live_token \<Rightarrow> bool) \<Rightarrow> token_disk \<Rightarrow> (live_token \<Rightarrow> string option) \<Rightarrow>
   (xuid \<Rightarrow> int option) \<Rightarrow> int run_end" where
  "removefriend_run decode live_valid disk xsts delete =
     tool_then (strict_token decode live_valid disk) (\<lambda>t.
     tool_then (or_panic (xsts t)) (\<lambda>x. or_panic (delete removed_xuid)))"

text \<open>
  \<open>rel\<close>: \<open>lookup\<close> gives the ids a profile look-up decodes to (nothing when it does not decode), \<open>batch\<close> the status
  and the decoded people of the relationship query. The result: they added us, we added them, favourite.
\<close>

definition rel_run ::
  "string list \<Rightarrow> (string \<Rightarrow> live_token option) \<Rightarrow> (live_token \<Rightarrow> bool) \<Rightarrow> token_disk \<Rightarrow>
   (live_token \<Rightarrow> (string \<times> xuid) list option) \<Rightarrow> (string \<Rightarrow> xuid list option) \<Rightarrow>
   (xuid \<Rightarrow> (int \<times> hub_person list) option) \<Rightarrow> (bool \<times> bool \<times> bool) option run_end" where
  "rel_run args decode live_valid disk xsts lookup batch =
     (case args of
        [] \<Rightarrow> PanicsOut
      | target # rest \<Rightarrow>
          tool_then (strict_token decode live_valid disk) (\<lambda>t.
          tool_then (or_panic (xsts t)) (\<lambda>info.
          if info = [] then PanicsOut
          else
          tool_then (or_panic (lookup target)) (\<lambda>ids.
          (case ids of
             [] \<Rightarrow> ExitsWith 1
           | x # xs \<Rightarrow>
               tool_then (or_panic (batch x)) (\<lambda>(status, people).
               if status \<noteq> 200 then ExitsWith 1
               else (case people of
                       [] \<Rightarrow> Ends None
                     | p # ps \<Rightarrow> Ends (Some (hp_follows_us p, hp_followed p, hp_favorite p)))))))))"

section \<open>Accepting one request\<close>

text \<open>
  \<open>acceptfriend\<close>. \<open>info\<close> are the gamertags in the token of the account, \<open>header\<close> tells whether the two later
  tokens come, \<open>pending\<close> is the answer to the query of requests, whatever its status, \<open>accept\<close> that to the
  acceptance: its decoded flag, \<open>False\<close> when it does not decode. The result: whom it asked to accept,
  and how it ended.
\<close>

definition accept_run ::
  "string list \<Rightarrow> auth_session outcome \<Rightarrow> string list option \<Rightarrow> bool \<times> bool \<Rightarrow> (xuid \<times> string) list option option \<Rightarrow>
   (xuid \<Rightarrow> bool option) \<Rightarrow> xuid option \<times> unit run_end" where
  "accept_run args session info header pending accept =
     (case args of
        [] \<Rightarrow> (None, ExitsWith 1)
      | target # rest \<Rightarrow>
          (case tool_then (session_or_exit session) (\<lambda>s.
                tool_then (or_exit info) (\<lambda>tags.
                if tags = [] then PanicsOut
                else if \<not> fst header then ExitsWith 1
                else
                tool_then (or_exit pending) (\<lambda>body.
                tool_then (or_exit body) (\<lambda>people.
                tool_then (or_exit (find_request target people)) (\<lambda>x.
                if \<not> snd header then ExitsWith 1 else Ends x))))) of
             Ends x \<Rightarrow>
               (Some x, tool_then (or_exit (accept x)) (\<lambda>friend. if friend then Ends () else ExitsWith 1))
           | ExitsWith n \<Rightarrow> (None, ExitsWith n)
           | PanicsOut \<Rightarrow> (None, PanicsOut)))"

section \<open>Listing and auditing friends\<close>

text \<open>
  \<open>lsworlds\<close>: \<open>friends\<close> is \<open>ListFriends\<close>, \<open>query\<close> the look-up of one batch. A row: players, limit, world, host and how the
  world is related to the account.
\<close>

definition lsworlds_run ::
  "((active_session \<Rightarrow> active_session \<Rightarrow> bool) \<Rightarrow> active_session list \<Rightarrow> active_session list) \<Rightarrow> auth_session outcome \<Rightarrow>
   xbl_error + friend_info list \<Rightarrow> (xuid list \<Rightarrow> activity_handle list exchange) \<Rightarrow>
   (nat \<times> (int \<times> int \<times> string \<times> string \<times> string) list) run_end" where
  "lsworlds_run sort_slice session friends query =
     tool_then (session_or_panic session) (\<lambda>s.
     (case friends of
        Inl e \<Rightarrow> PanicsOut
      | Inr fs \<Rightarrow>
          (case friend_worlds sort_slice (Inr (map fi_xuid fs)) query of
             Inl e \<Rightarrow> PanicsOut
           | Inr ws \<Rightarrow>
               Ends (length fs, map (\<lambda>w. (sc_member_count (av_custom w), sc_max_member_count (av_custom w),
                 sc_world_name (av_custom w), sc_host_name (av_custom w), world_note (set (map fi_xuid fs)) w)) ws))))"

text \<open>
  \<open>friendaudit\<close>: the details of the friends in batches of a hundred, as the raw JSON the service gave for each.
\<close>

definition audit_batch :: nat where "audit_batch = 100"

fun audit_pages :: "(xuid list \<Rightarrow> (int \<times> 'p list option) option) \<Rightarrow> xuid list list \<Rightarrow> 'p list run_end" where
  "audit_pages query [] = Ends []"
| "audit_pages query (b # bs) =
     tool_then (or_panic (query b)) (\<lambda>(status, body).
     if status \<noteq> 200 then ExitsWith 1
     else tool_then (or_panic body) (\<lambda>people. tool_then (audit_pages query bs) (\<lambda>rest. Ends (people @ rest))))"

definition audit_run ::
  "auth_session outcome \<Rightarrow> bool \<Rightarrow> xbl_error + friend_info list \<Rightarrow> (xuid list \<Rightarrow> (int \<times> 'p list option) option) \<Rightarrow>
   ('p list \<times> nat) run_end" where
  "audit_run session xsts friends query =
     tool_then (session_or_panic session) (\<lambda>s.
     if \<not> xsts then PanicsOut
     else (case friends of
             Inl e \<Rightarrow> PanicsOut
           | Inr fs \<Rightarrow>
               tool_then (audit_pages query (batches audit_batch (map fi_xuid fs))) (\<lambda>people. Ends (people, length fs))))"

section \<open>Removing listed friends\<close>

text \<open>\<open>unfriend\<close>: how many it removed, and how many friends there are then if that could be asked.\<close>

definition unfriend_run ::
  "xuid list option \<Rightarrow> auth_session outcome \<Rightarrow> bool \<Rightarrow> (xuid \<Rightarrow> unfriend_reply list) \<Rightarrow> xbl_error + friend_info list \<Rightarrow>
   (nat \<times> nat option) run_end" where
  "unfriend_run listed session xsts answers friends =
     tool_then (or_panic listed) (\<lambda>xs.
     tool_then (session_or_panic session) (\<lambda>s.
     if \<not> xsts then PanicsOut
     else Ends (unfriend_list answers xs, (case friends of Inl e \<Rightarrow> None | Inr fs \<Rightarrow> Some (length fs)))))"

section \<open>Dialling a backend: nntest\<close>

text \<open>
  \<open>dial\<close> is the dial of the NetherNet library to a normalized address, with an identity or anonymously;
  both it and the probe see only normalized addresses.
\<close>

definition dial_nethernet_backend ::
  "(string \<Rightarrow> url option) \<Rightarrow> (string \<Rightarrow> 'k client_identity option \<Rightarrow> 'c option) \<Rightarrow> string \<Rightarrow> 'k client_identity option \<Rightarrow>
   'c option" where
  "dial_nethernet_backend url_parse dial address identity =
     (case normalize_nethernet_address url_parse address of Inl e \<Rightarrow> None | Inr a \<Rightarrow> dial a identity)"

definition probe_nethernet_backend ::
  "(string \<Rightarrow> url option) \<Rightarrow> (string \<Rightarrow> http_response) \<Rightarrow> string \<Rightarrow> bool" where
  "probe_nethernet_backend url_parse get address \<longleftrightarrow>
     (case normalize_nethernet_address url_parse address of
        Inl e \<Rightarrow> False
      | Inr a \<Rightarrow> probe_supported url_parse a (get a))"

text \<open>What \<open>nntest\<close> does on the network, in order.\<close>

datatype 'k test_step = Probed | SignedInAs auth_session | MintedIdentity "'k client_identity" | Dialled "'k client_identity option"

definition load_session ::
  "(string \<Rightarrow> live_token option) \<Rightarrow> (live_token \<Rightarrow> live_token option) \<Rightarrow> (live_token \<Rightarrow> bool) \<Rightarrow> instant \<Rightarrow> services \<Rightarrow>
   token_disk \<Rightarrow> auth_session outcome" where
  "load_session decode refresh live_valid now sv disk =
     read_session decode refresh live_valid now sv disk ''token.json''"

text \<open>\<open>config\<close>: what \<open>config.json\<close> gives as the address, nothing when it cannot be read.\<close>

definition nntest_address :: "string \<Rightarrow> string option \<Rightarrow> string option" where
  "nntest_address arg config = (if arg = '''' then config else Some arg)"

definition nntest_run ::
  "bool \<Rightarrow> string \<Rightarrow> string option \<Rightarrow> (string \<Rightarrow> url option) \<Rightarrow> (string \<Rightarrow> http_response) \<Rightarrow> auth_session outcome \<Rightarrow>
   (auth_session \<Rightarrow> 'k client_identity outcome) \<Rightarrow> (string \<Rightarrow> 'k client_identity option \<Rightarrow> 'c option) \<Rightarrow>
   'k test_step list \<times> 'c run_end" where
  "nntest_run anon arg config url_parse get session mint dial =
     (case nntest_address arg config of
        None \<Rightarrow> ([], ExitsWith 1)
      | Some address \<Rightarrow>
          (case normalize_nethernet_address url_parse address of
             Inl e \<Rightarrow> ([], ExitsWith 1)
           | Inr a \<Rightarrow>
               (if \<not> probe_nethernet_backend url_parse get a then ([Probed], ExitsWith 1)
                else if anon then ([Probed, Dialled None], or_exit (dial_nethernet_backend url_parse dial a None))
                else (case session of
                        Fails \<Rightarrow> ([Probed], ExitsWith 1)
                      | Panics \<Rightarrow> ([Probed], PanicsOut)
                      | Returns s \<Rightarrow>
                          (case mint s of
                             Fails \<Rightarrow> ([Probed, SignedInAs s], ExitsWith 1)
                           | Panics \<Rightarrow> ([Probed, SignedInAs s], PanicsOut)
                           | Returns i \<Rightarrow>
                               ([Probed, SignedInAs s, MintedIdentity i, Dialled (Some i)],
                                or_exit (dial_nethernet_backend url_parse dial a (Some i))))))))"

section \<open>Random credentials\<close>

text \<open>\<open>randomString\<close> of \<open>cbedit\<close> and \<open>randomICEString\<close> of \<open>bridge/listener.go\<close>: \<open>pick\<close> is \<open>rand.IntN\<close> of the alphabet's size.\<close>

definition ice_alphabet :: string where
  "ice_alphabet = ''abcdefghijklmnopqrstuvwxyzABCDEFGHIJKLMNOPQRSTUVWXYZ0123456789''"

definition random_string :: "(nat \<Rightarrow> nat) \<Rightarrow> nat \<Rightarrow> string" where
  "random_string pick n = map (\<lambda>i. ice_alphabet ! pick i) [0..<n]"

definition random_ice_string :: "(nat \<Rightarrow> nat) \<Rightarrow> nat \<Rightarrow> string" where
  "random_ice_string pick n = map (\<lambda>i. ice_alphabet ! pick i) [0..<n]"

section \<open>Editing command blocks\<close>

datatype cbedit_end = BadUsage | NoEdits | BadMode | NoCachedToken | NoJoin | NoSpawn | ReadyTimeout | EditFailed | LeaveTimeout | EditsDone

text \<open>
  \<open>cbedit\<close> from its arguments to its end: \<open>edits\<close> are the decoded edits, \<open>ready\<close> and \<open>leave\<close> whether the files
  appeared in time. The disk comes back because of the token.
\<close>

definition cbedit_run ::
  "string list \<Rightarrow> (string \<Rightarrow> block_edit list option) \<Rightarrow> token_codec \<Rightarrow> (live_token \<Rightarrow> live_token option) \<Rightarrow> write_result \<Rightarrow>
   string \<Rightarrow> token_disk \<Rightarrow> bool \<Rightarrow> bool \<Rightarrow> bool \<Rightarrow> (nat \<Rightarrow> bool) \<Rightarrow> bool \<Rightarrow>
   token_disk \<times> block_update list \<times> cbedit_end" where
  "cbedit_run args edits codec refresh wr path disk joins spawns ready write_ok leave =
     (case args of
        [file] \<Rightarrow>
          (case edits file of
             None \<Rightarrow> (disk, [], NoEdits)
           | Some es \<Rightarrow>
               (if list_ex (\<lambda>e. mode_of (ed_mode e) = None) es then (disk, [], BadMode)
                else (case cached_token_source codec refresh wr path disk of
                        (disk, None) \<Rightarrow> (disk, [], NoCachedToken)
                      | (disk, Some src) \<Rightarrow>
                          (if \<not> joins then (disk, [], NoJoin)
                           else if \<not> spawns then (disk, [], NoSpawn)
                           else (case apply_edits ready write_ok es of
                                   (out, NotReady) \<Rightarrow> (disk, out, ReadyTimeout)
                                 | (out, SendFailed i) \<Rightarrow> (disk, out, EditFailed)
                                 | (out, UnknownMode) \<Rightarrow> (disk, out, BadMode)
                                 | (out, SentAll) \<Rightarrow> (disk, out, if leave then EditsDone else LeaveTimeout))))))
      | _ \<Rightarrow> (disk, [], BadUsage))"

section \<open>Checking a signed description\<close>

text \<open>
  \<open>vident\<close>. The regular expression's matches in the log, \<open>strconv.Unquote\<close> and the decoders are arguments; \<open>identity\<close>
  gives the assertion of an identity, \<open>assertion\<close> its fingerprints and its token, \<open>claims\<close> the \<open>cpk\<close>
  claim, which has to be a string. \<open>verifies\<close> is the check of a detached signature under a key.
\<close>

record 'k vident_lib =
  vl_dumps :: "string \<Rightarrow> string \<Rightarrow> string list"
  vl_unquote :: "string \<Rightarrow> string option"
  vl_b64 :: "string \<Rightarrow> string option"
  vl_raw_url :: "string \<Rightarrow> string option"
  vl_identity :: "string \<Rightarrow> string option"
  vl_assertion :: "string \<Rightarrow> (string \<times> string) option"
  vl_claims :: "string \<Rightarrow> string option"
  vl_pkix :: "string \<Rightarrow> 'k any_key option"
  vl_quote :: "string \<Rightarrow> string"
  vl_upper :: "string \<Rightarrow> string"
  vl_lower :: "string \<Rightarrow> string"
  vl_verifies :: "'k \<Rightarrow> string \<Rightarrow> string \<Rightarrow> bool"

text \<open>\<open>strings.Split(sdp, "\r\n")\<close>.\<close>

fun split_crlf :: "string \<Rightarrow> string list" where
  "split_crlf [] = [[]]"
| "split_crlf [c] = [[c]]"
| "split_crlf (c # d # s) =
     (if c = carriage_return \<and> d = newline then [] # split_crlf s
      else (case split_crlf (d # s) of [] \<Rightarrow> [[c]] | w # ws \<Rightarrow> (c # w) # ws))"

text \<open>The key that the token of an assertion names.\<close>

definition token_key :: "'k vident_lib \<Rightarrow> string \<Rightarrow> 'k option" where
  "token_key lib token =
     (case split_byte CHR ''.'' token of
        [header, payload, signature] \<Rightarrow>
          (case vl_raw_url lib payload of
             None \<Rightarrow> None
           | Some raw \<Rightarrow>
               (case vl_claims lib raw of
                  None \<Rightarrow> None
                | Some cpk \<Rightarrow>
                    (case vl_b64 lib cpk of
                       None \<Rightarrow> None
                     | Some der \<Rightarrow> (case vl_pkix lib der of Some (Ecdsa k) \<Rightarrow> Some k | _ \<Rightarrow> None))))
      | _ \<Rightarrow> None)"

definition vident_check :: "'k vident_lib \<Rightarrow> string \<Rightarrow> bool run_end" where
  "vident_check lib sdp =
     (let (identity, algorithm, digest) = identity_and_fingerprint (split_crlf sdp) ('''', '''', '''')
      in if identity = '''' then ExitsWith 1
         else tool_then (or_exit (vl_b64 lib identity)) (\<lambda>json.
              tool_then (or_exit (vl_identity lib json)) (\<lambda>assertion.
              tool_then (or_exit (vl_assertion lib assertion)) (\<lambda>(fingerprints, token).
              tool_then (or_exit (token_key lib token)) (\<lambda>k.
                Ends (assertion_verifies (vl_quote lib) (vl_upper lib) (vl_lower lib)
                        (vl_verifies lib k fingerprints) algorithm digest))))))"

definition vident_run :: "'k vident_lib \<Rightarrow> string list \<Rightarrow> (string \<Rightarrow> string option) \<Rightarrow> bool run_end" where
  "vident_run lib args read =
     (case args of
        file # which # rest \<Rightarrow>
          tool_then (or_panic (read file)) (\<lambda>log.
          (let dumps = vl_dumps lib which log
           in if dumps = [] then ExitsWith 1
              else tool_then (or_panic (vl_unquote lib (List.last dumps))) (vident_check lib)))
      | _ \<Rightarrow> ExitsWith 2)"

text \<open>
  \<open>cpkcheck\<close>: whether the key in a freshly generated identity is a JWK object; what does not decode is
  decoded up to the error, which \<open>decode\<close> gives.
\<close>

definition cpk_check :: "(string \<Rightarrow> string) \<Rightarrow> string option \<Rightarrow> bool run_end" where
  "cpk_check decode token =
     tool_then (or_panic token) (\<lambda>t.
     (case split_byte CHR ''.'' t of
        header # payload # rest \<Rightarrow> Ends (contains (decode payload) (''\"cpk\":{''))
      | _ \<Rightarrow> PanicsOut))"

section \<open>The token file between the tools and the relay\<close>

text \<open>
  What a run of a tool does with the token file: take the token only while it is valid, refresh it in
  memory, or refresh it and write it back.
\<close>

datatype token_use = OnlyWhileValid | InMemory | WritesBack write_result

datatype operator_tool =
    Friends | RemoveFriend | Rel | AcceptFriend | PruneInactive | Unfriend | LsWorlds | FriendAudit | NnTest
  | CbEdit write_result

fun tool_use :: "operator_tool \<Rightarrow> token_use" where
  "tool_use (CbEdit wr) = WritesBack wr"
| "tool_use Friends = OnlyWhileValid"
| "tool_use RemoveFriend = OnlyWhileValid"
| "tool_use Rel = OnlyWhileValid"
| "tool_use other = InMemory"

text \<open>
  The token service with a state \<open>'s\<close> that \<open>exchange\<close> changes: it is \<open>Token\<close> on a source that holds the given token.
  A run on the file at \<open>path\<close> changes the service and the disk.
\<close>

definition use_token_file ::
  "token_codec \<Rightarrow> ('s \<Rightarrow> live_token \<Rightarrow> 's \<times> live_token option) \<Rightarrow> string \<Rightarrow> 's \<times> token_disk \<Rightarrow> token_use \<Rightarrow>
   's \<times> token_disk" where
  "use_token_file codec exchange path st u =
     (let (s, disk) = st
      in (case read_token (tc_unmarshal codec) disk path of
            None \<Rightarrow> (s, disk)
          | Some t \<Rightarrow>
              (case u of
                 OnlyWhileValid \<Rightarrow> (s, disk)
               | InMemory \<Rightarrow> (fst (exchange s t), disk)
               | WritesBack wr \<Rightarrow>
                   (fst (exchange s t), fst (cached_token_source codec (\<lambda>t. snd (exchange s t)) wr path disk)))))"

text \<open>The token in the file is one that the service takes.\<close>

definition file_usable ::
  "token_codec \<Rightarrow> ('s \<Rightarrow> live_token \<Rightarrow> 's \<times> live_token option) \<Rightarrow> string \<Rightarrow> 's \<times> token_disk \<Rightarrow> bool" where
  "file_usable codec exchange path st \<longleftrightarrow>
     (\<exists>t t'. read_token (tc_unmarshal codec) (snd st) path = Some t \<and> snd (exchange (fst st) t) = Some t')"

definition codec_faithful :: "token_codec \<Rightarrow> bool" where
  "codec_faithful codec \<longleftrightarrow> (\<forall>t. \<exists>b. tc_marshal codec t = Some b \<and> tc_unmarshal codec b = Some t)"

definition accepts_its_own :: "('s \<Rightarrow> live_token \<Rightarrow> 's \<times> live_token option) \<Rightarrow> bool" where
  "accepts_its_own exchange \<longleftrightarrow> (\<forall>s t s' t'. exchange s t = (s', Some t') \<longrightarrow> snd (exchange s' t') \<noteq> None)"

lemma cached_token_source_stored:
  assumes "read_token (tc_unmarshal codec) disk path = Some t" "refresh t = Some t'" "tc_marshal codec t' = Some b"
  shows "cached_token_source codec refresh Stored path disk =
    (disk(path \<mapsto> b), Some \<lparr>cs_token = t', cs_path = path\<rparr>)"
  using assms by (simp add: cached_token_source_def write_back_token_def source_token_def)

lemma use_token_file_usable:
  assumes "codec_faithful codec" "accepts_its_own exchange" "file_usable codec exchange path st"
    and "u \<noteq> InMemory" "\<And>wr. u = WritesBack wr \<Longrightarrow> wr = Stored"
  shows "file_usable codec exchange path (use_token_file codec exchange path st u)"
proof -
  obtain s disk where st: "st = (s, disk)" by (cases st)
  obtain t t' where t: "read_token (tc_unmarshal codec) disk path = Some t" "snd (exchange s t) = Some t'"
    using assms(3) by (auto simp: file_usable_def st)
  show ?thesis
  proof (cases u)
    case (WritesBack wr)
    obtain b where b: "tc_marshal codec t' = Some b" "tc_unmarshal codec b = Some t'"
      using assms(1) by (auto simp: codec_faithful_def)
    have "exchange s t = (fst (exchange s t), Some t')" using t(2) by (metis prod.collapse)
    then have "snd (exchange (fst (exchange s t)) t') \<noteq> None" using assms(2) by (auto simp: accepts_its_own_def)
    then show ?thesis
      using WritesBack assms(5) [OF WritesBack] t b
      by (auto simp: use_token_file_def file_usable_def st cached_token_source_stored [OF t(1), of "\<lambda>t. snd (exchange s t)"]
          read_token_def)
  qed (use assms(3,4) t in \<open>auto simp: use_token_file_def st\<close>)
qed

definition saving_use :: "bool \<Rightarrow> token_use" where
  "saving_use strict = (if strict then OnlyWhileValid else WritesBack Stored)"

interpretation saving_uses: invariant_machine
  "\<lambda>st strict. use_token_file codec exchange path st (saving_use strict)"
  "\<lambda>st. codec_faithful codec \<and> accepts_its_own exchange \<and> file_usable codec exchange path st"
  for codec exchange path
  by unfold_locales (auto intro!: use_token_file_usable simp: saving_use_def split: if_splits)

lemma saving_uses_strict:
  assumes "list_all (\<lambda>u. u \<noteq> InMemory \<and> (\<forall>wr. u = WritesBack wr \<longrightarrow> wr = Stored)) us"
  shows "us = map saving_use (map (\<lambda>u. u = OnlyWhileValid) us)"
proof -
  have "saving_use (u = OnlyWhileValid) = u" if "u \<in> set us" for u
  proof -
    have "u \<noteq> InMemory" "\<And>wr. u = WritesBack wr \<Longrightarrow> wr = Stored" using that assms by (simp_all add: list_all_iff)
    then show ?thesis by (cases rule: token_use.exhaust [of u]) (auto simp: saving_use_def)
  qed
  then show ?thesis by (simp add: map_idI)
qed

text \<open>
  Any sequence of runs of the tools that do not refresh the token, and of \<open>cbedit\<close> with its writes stored,
  leaves the relay a token file from which it starts without a sign-in, given a service that takes the
  token it gave out last.
\<close>

theorem saving_tools_keep_sign_in:
  assumes "codec_faithful codec" "accepts_its_own exchange" "file_usable codec exchange (token_path file) st"
    and "list_all (\<lambda>tool. tool_use tool \<noteq> InMemory \<and> (\<forall>wr. tool = CbEdit wr \<longrightarrow> wr = Stored)) tools"
    and "foldl (use_token_file codec exchange (token_path file)) st (map tool_use tools) = (s', disk')"
  shows "\<not> prompted (token_source codec (\<lambda>t. snd (exchange s' t)) device_code disk' file)"
proof -
  have "list_all (\<lambda>u. u \<noteq> InMemory \<and> (\<forall>wr. u = WritesBack wr \<longrightarrow> wr = Stored)) (map tool_use tools)"
    unfolding list_all_iff
  proof
    fix u assume "u \<in> set (map tool_use tools)"
    then obtain tool where "tool \<in> set tools" "u = tool_use tool" by auto
    with assms(4) show "u \<noteq> InMemory \<and> (\<forall>wr. u = WritesBack wr \<longrightarrow> wr = Stored)"
      by (cases tool) (auto simp: list_all_iff)
  qed
  from saving_uses_strict [OF this] obtain bs where bs: "map tool_use tools = map saving_use bs" by blast
  have "codec_faithful codec \<and> accepts_its_own exchange \<and> file_usable codec exchange (token_path file) (s', disk')"
    using saving_uses.run_keeps [where s = st and es = bs, of codec exchange "token_path file"] assms(1,2,3,5)
    unfolding bs foldl_map by (metis)
  then obtain t t' where "read_token (tc_unmarshal codec) disk' (token_path file) = Some t" "snd (exchange s' t) = Some t'"
    by (auto simp: file_usable_def)
  then show ?thesis
    by (auto simp: read_token_def token_source_def source_token_def prompted_def split: option.splits)
qed

text \<open>
  The tools that refresh the token without writing it back, \<open>lsworlds\<close> among them, leave the relay an unusable one where a
  refresh invalidates the token it was made from: a relay that starts from the file has to be signed in
  again, and one that runs with the token gets no other.
\<close>

theorem unsaved_refresh_costs_sign_in:
  assumes "tool_use tool = InMemory"
    and "read_token (tc_unmarshal codec) disk (token_path file) = Some t"
    and "exchange s t = (s', Some t')" "snd (exchange s' t) = None"
    and "use_token_file codec exchange (token_path file) (s, disk) (tool_use tool) = (s'', disk'')"
  shows "prompted (token_source codec (\<lambda>t. snd (exchange s'' t)) device_code disk'' file) \<and>
    snd (snd (caching_token codec (\<lambda>t. snd (exchange s'' t)) wr \<lparr>cs_token = t, cs_path = path\<rparr> disk'')) = None"
proof -
  have "s'' = s'" "disk'' = disk" using assms(1,2,3,5) by (auto simp: use_token_file_def)
  with assms(2,4) show ?thesis
    by (auto simp: read_token_def token_source_def source_token_def prompted_def caching_token_def
        split: option.splits)
qed

text \<open>A service to evaluate with: its state counts the tokens it gave out, and it takes the last one only.\<close>

definition rotating :: "nat \<Rightarrow> live_token \<Rightarrow> nat \<times> live_token option" where
  "rotating n t =
     (if lt_expiry t = int n then (Suc n, Some \<lparr>lt_access = ''a'', lt_expiry = int (Suc n)\<rparr>) else (n, None))"

lemma unary_codec_faithful: "codec_faithful unary_codec"
  by (simp add: codec_faithful_def unary_codec_def unary_round_trip)

lemma rotating_accepts: "accepts_its_own rotating"
  by (auto simp: accepts_its_own_def rotating_def split: if_splits)

definition rotated_disk :: token_disk where
  "rotated_disk = [''token.json'' \<mapsto> unary_marshal \<lparr>lt_access = ''a'', lt_expiry = 0\<rparr>]"

lemma rotated_disk_token:
  "read_token (tc_unmarshal unary_codec) rotated_disk (token_path ''token.json'') = Some \<lparr>lt_access = ''a'', lt_expiry = 0\<rparr>"
  by (simp add: read_token_def rotated_disk_def token_path_plain unary_codec_def unary_round_trip)

theorem saving_tools_keep_sign_in_witness:
  "\<exists>s' disk'. foldl (use_token_file unary_codec rotating (token_path ''token.json'')) (0, rotated_disk)
       (map tool_use [CbEdit Stored, Rel]) = (s', disk') \<and>
     \<not> prompted (token_source unary_codec (\<lambda>t. snd (rotating s' t)) None disk' ''token.json'')"
proof -
  obtain s' disk' where r: "foldl (use_token_file unary_codec rotating (token_path ''token.json'')) (0, rotated_disk)
       (map tool_use [CbEdit Stored, Rel]) = (s', disk')" by (meson surj_pair)
  have "file_usable unary_codec rotating (token_path ''token.json'') (0, rotated_disk)"
    by (simp add: file_usable_def rotated_disk_token rotating_def)
  from saving_tools_keep_sign_in [OF unary_codec_faithful rotating_accepts this _ r] r show ?thesis by auto
qed

theorem unsaved_refresh_costs_sign_in_witness:
  "\<exists>s' disk'. use_token_file unary_codec rotating (token_path ''token.json'') (0, rotated_disk) (tool_use LsWorlds) = (s', disk') \<and>
     prompted (token_source unary_codec (\<lambda>t. snd (rotating s' t)) None disk' ''token.json'')"
proof -
  obtain s' disk' where r: "use_token_file unary_codec rotating (token_path ''token.json'') (0, rotated_disk)
      (tool_use LsWorlds) = (s', disk')" by (meson surj_pair)
  have "prompted (token_source unary_codec (\<lambda>t. snd (rotating s' t)) None disk' ''token.json'') \<and>
    snd (snd (caching_token unary_codec (\<lambda>t. snd (rotating s' t)) Stored
      \<lparr>cs_token = \<lparr>lt_access = ''a'', lt_expiry = 0\<rparr>, cs_path = ''token.json''\<rparr> disk')) = None"
    by (rule unsaved_refresh_costs_sign_in [OF _ rotated_disk_token _ _ r, where s' = "Suc 0"
          and t' = "\<lparr>lt_access = ''a'', lt_expiry = int (Suc 0)\<rparr>"]) (simp_all add: rotating_def)
  with r show ?thesis by blast
qed

section \<open>What the runs guarantee\<close>

text \<open>
  Where the service gives the details of each asked friend, the audit's batches give what one query about
  all friends would: every friend's details, in the order of the list, and the number of friends.
\<close>

theorem audit_equals_single_query:
  assumes "\<And>xs. length xs \<le> 100 \<Longrightarrow> query xs = Some (200, Some (concat (map details xs)))"
  shows "audit_run (Returns s) True (Inr fs) query = Ends (concat (map (\<lambda>f. details (fi_xuid f)) fs), length fs)"
proof -
  have "audit_pages query bs = Ends (concat (map details (concat bs)))" if "list_all (\<lambda>b. length b \<le> 100) bs" for bs
    using that by (induction bs) (simp_all add: assms)
  moreover have "list_all (\<lambda>b. length b \<le> 100) (batches audit_batch (map fi_xuid fs))"
    using batches_sizes by (auto simp: list_all_iff audit_batch_def)
  ultimately show ?thesis
    by (simp add: audit_run_def session_or_panic_def audit_batch_def concat_batches comp_def)
qed

theorem audit_equals_single_query_witness:
  "audit_run (Returns no_session) True (Inr [\<lparr>fi_xuid = ''1'', fi_mutual = True\<rparr>, \<lparr>fi_xuid = ''2'', fi_mutual = False\<rparr>])
     (\<lambda>xs. Some (200, Some (concat (map (\<lambda>x. [x]) xs)))) = Ends ([''1'', ''2''], 2)"
  using audit_equals_single_query [where query = "\<lambda>xs. Some (200, Some (concat (map (\<lambda>x. [x]) xs)))" and
      details = "\<lambda>x. [x]" and s = no_session and
      fs = "[\<lparr>fi_xuid = ''1'', fi_mutual = True\<rparr>, \<lparr>fi_xuid = ''2'', fi_mutual = False\<rparr>]"]
  by simp

text \<open>
  \<open>acceptfriend\<close> accepts no request but the first pending one whose gamertag it was given, and ends well exactly
  when that made a friendship.
\<close>

theorem accepts_only_asked:
  assumes "accept_run args session info header pending accept = (asked, r)"
  shows "(asked = Some x \<longrightarrow> (\<exists>people g. pending = Some (Some people) \<and> (x, g) \<in> set people \<and> args \<noteq> [] \<and> g = hd args)) \<and>
    (r = Ends () \<longleftrightarrow> (\<exists>y. asked = Some y \<and> accept y = Some True))"
proof (cases args)
  case Nil
  with assms show ?thesis by (auto simp: accept_run_def)
next
  case (Cons target rest)
  let ?pre = "tool_then (session_or_exit session) (\<lambda>s. tool_then (or_exit info) (\<lambda>tags.
    if tags = [] then PanicsOut else if \<not> fst header then ExitsWith 1 else
    tool_then (or_exit pending) (\<lambda>body. tool_then (or_exit body) (\<lambda>people.
    tool_then (or_exit (find_request target people)) (\<lambda>x. if \<not> snd header then ExitsWith 1 else Ends x)))))"
  have run: "accept_run args session info header pending accept =
      (case ?pre of
         Ends x \<Rightarrow> (Some x, tool_then (or_exit (accept x)) (\<lambda>friend. if friend then Ends () else ExitsWith 1))
       | ExitsWith n \<Rightarrow> (None, ExitsWith n)
       | PanicsOut \<Rightarrow> (None, PanicsOut))"
    by (simp add: accept_run_def Cons)
  show ?thesis
  proof (cases ?pre)
    case (Ends y)
    have pair: "(asked, r) = (Some y, tool_then (or_exit (accept y)) (\<lambda>friend. if friend then Ends () else ExitsWith 1))"
      using assms unfolding run Ends by simp
    then have answer: "asked = Some y" "r = Ends () \<longleftrightarrow> accept y = Some True"
      using pair by (cases "accept y"; simp)+
    from Ends obtain people where people: "pending = Some (Some people)" "find_request target people = Some y"
      by (auto split: if_splits)
    then obtain g where "find (\<lambda>p. snd p = target) people = Some (y, g)"
      by (auto simp: find_request_def split: option.splits prod.splits if_splits)
    then obtain i where i: "i < length people" "snd (people ! i) = target" "(y, g) = people ! i"
      unfolding find_Some_iff by blast
    then have "(y, target) \<in> set people" using nth_mem [OF i(1)] by (metis snd_conv)
    with people answer Cons show ?thesis by auto
  next
    case (ExitsWith n)
    with assms show ?thesis unfolding run by auto
  next
    case PanicsOut
    with assms show ?thesis unfolding run by auto
  qed
qed

text \<open>
  \<open>nntest\<close> dials a backend only after the probe was answered, and unless told to be anonymous only
  with an identity that the session it signed in gave it; nothing comes after a dial.
\<close>

theorem nntest_dials_last:
  assumes "nntest_run anon arg config url_parse get session mint dial = (steps, r)" "Dialled i \<in> set steps"
  shows "List.last steps = Dialled i \<and> hd steps = Probed \<and>
    (\<exists>a. probe_nethernet_backend url_parse get a) \<and>
    (case i of None \<Rightarrow> anon | Some k \<Rightarrow> \<not> anon \<and> (\<exists>s. session = Returns s \<and> mint s = Returns k))"
  using assms by (auto simp: nntest_run_def split: option.splits sum.splits outcome.splits if_splits)

text \<open>What \<open>friends\<close> prints are the people of the first relying party whose answer is OK, by gamertag.\<close>

lemma first_party_Ends:
  "first_party xsts hub rps = Ends (rp, people) \<Longrightarrow>
   rp \<in> set rps \<and> hub rp = Some (200, people) \<and> xsts rp \<noteq> None \<and>
   (\<forall>q \<in> set (takeWhile (\<lambda>q. q \<noteq> rp) rps). xsts q = None \<or> (\<forall>b. hub q \<noteq> Some (200, b)))"
proof (induction rps)
  case (Cons q rps)
  show ?case
  proof (cases "\<exists>me others people. xsts q = Some (me # others) \<and> hub q = Some (200, people)")
    case True
    with Cons.prems show ?thesis by auto
  next
    case False
    then have "first_party xsts hub rps = Ends (rp, people)" "xsts q = None \<or> (\<forall>b. hub q \<noteq> Some (200, b))"
      using Cons.prems by (auto split: option.splits list.splits if_splits)
    with Cons.IH show ?thesis by auto
  qed
qed simp

theorem friends_come_from_first_party:
  assumes "sorts sort_slice (before_gamertag lower)" "people_run lower sort_slice decode live_valid disk xsts hub = Ends rows"
  shows "\<exists>t rp people. read_token decode disk relay_token_file = Some t \<and> live_valid t \<and> rp \<in> set relying_parties \<and>
    hub t rp = Some (200, Some people) \<and> mset rows = mset people \<and>
    sorted_wrt (\<lambda>p q. \<not> before_gamertag lower q p) rows"
proof -
  from assms(2) obtain t rp people where p: "strict_token decode live_valid disk = Ends t"
    "first_party (xsts t) (hub t) relying_parties = Ends (rp, Some people)"
    "rows = sort_slice (before_gamertag lower) people"
    by (auto simp: people_run_def)
  moreover have "read_token decode disk relay_token_file = Some t" "live_valid t"
    using p(1) by (auto simp: strict_token_def split: if_splits)
  ultimately show ?thesis
    using first_party_Ends [OF p(2)] assms(1) by (auto simp: sorts_def)
qed

text \<open>Random credentials have the asked length and only letters and digits.\<close>

theorem random_strings_fit:
  assumes "\<And>i. pick i < length ice_alphabet"
  shows "length (random_string pick n) = n \<and> set (random_string pick n) \<subseteq> set ice_alphabet \<and>
    random_ice_string pick n = random_string pick n"
  using assms by (auto simp: random_string_def random_ice_string_def)

text \<open>What \<open>cbedit\<close> sends was in the edits, and only after a token came from the cache.\<close>

theorem cbedit_sends_edits:
  assumes "cbedit_run args edits codec refresh wr path disk joins spawns ready write_ok leave = (disk', out, e)" "out \<noteq> []"
  shows "\<exists>f es n. args = [f] \<and> edits f = Some es \<and> map Some out = map update_of (take n es) \<and> joins \<and> spawns \<and>
    snd (cached_token_source codec refresh wr path disk) \<noteq> None"
proof -
  obtain f where f: "args = [f]"
    using assms by (auto simp: cbedit_run_def split: list.splits)
  obtain es where es: "edits f = Some es"
    using assms by (auto simp: cbedit_run_def f split: option.splits)
  obtain d c where c: "cached_token_source codec refresh wr path disk = (d, c)" by (meson surj_pair)
  have "c \<noteq> None" "joins" "spawns"
    using assms by (auto simp: cbedit_run_def f es c split: option.splits if_splits)
  moreover obtain out1 res where a: "apply_edits ready write_ok es = (out1, res)" by (meson surj_pair)
  moreover have "out = out1"
    using assms calculation by (cases res) (auto simp: cbedit_run_def f es c split: option.splits if_splits)
  ultimately show ?thesis using edits_all_known [OF a] f es c by auto
qed

end
