(* ===== verification/Program.thy ===== *)
theory Program
  imports Session_Life Friend_Activity Sign_In
begin

text \<open>
  The process as a whole: the direct-IP door (\<open>StartDirectIP\<close>) and the accept loops of
  \<open>Listener.Serve\<close> in \<open>src/bridge\<close>, and the start of the process, \<open>main\<close> with its \<open>-login\<close> form
  and the extra broadcasts. Each start is a function from what the outside answers to the actions it
  took, in order, and either the reason for which the process ended or the broadcasts that run.
\<close>

section \<open>Accepting connections\<close>

datatype 'c accept_result = AcceptError | NetherNetConn 'c | OtherConn 'c

datatype 'c accept_action = HandleConnection 'c | CloseConnection 'c

text \<open>The accept loop of the direct-IP door; it ends with the first error.\<close>

fun door_accept :: "'c accept_result list \<Rightarrow> 'c accept_action list" where
  "door_accept [] = []"
| "door_accept (AcceptError # rs) = []"
| "door_accept (NetherNetConn c # rs) = HandleConnection c # door_accept rs"
| "door_accept (OtherConn c # rs) = CloseConnection c # door_accept rs"

datatype door_error = NoListenAddress | ListenerFailed | AddressInUse

datatype door_action = OpenListener | CloseListener | BindAddress string | ServeDoor

definition start_direct_ip :: "string \<Rightarrow> bool \<Rightarrow> bool \<Rightarrow> door_action list \<times> door_error option" where
  "start_direct_ip address listener_ok bind_ok =
     (if address = '''' then ([], Some NoListenAddress)
      else if \<not> listener_ok then ([], Some ListenerFailed)
      else if \<not> bind_ok then ([OpenListener, CloseListener], Some AddressInUse)
      else ([OpenListener, BindAddress address, ServeDoor], None))"

text \<open>
  \<open>Listener.Serve\<close>: one goroutine for each transport, of a broker when there are brokers and otherwise
  of a listener. \<open>Serve\<close> returns the first of them that stops (\<open>sv_result\<close>); the other goes on.
\<close>

record serve_state =
  sv_running :: "string set"
  sv_accepts :: bool
  sv_result :: "string option"

datatype 'c serve_event = AcceptReturns string "'c accept_result" | BrokerStops string

definition serve_init :: "transports \<Rightarrow> serve_state" where
  "serve_init t =
     (if tr_brokers t \<noteq> [] then \<lparr>sv_running = set (tr_brokers t), sv_accepts = False, sv_result = None\<rparr>
      else \<lparr>sv_running = (if tr_ws_listener t then {''websocket''} else {}) \<union>
                         (if tr_msg_listener t then {''messaging''} else {}),
            sv_accepts = True, sv_result = None\<rparr>)"

definition serve_stops :: "string \<Rightarrow> serve_state \<Rightarrow> serve_state" where
  "serve_stops name s =
     s\<lparr>sv_running := sv_running s - {name},
       sv_result := (case sv_result s of None \<Rightarrow> Some name | Some n \<Rightarrow> Some n)\<rparr>"

fun serve_step :: "'c serve_event \<Rightarrow> serve_state \<Rightarrow> serve_state \<times> (string \<times> 'c) list" where
  "serve_step (AcceptReturns name r) s =
     (if name \<in> sv_running s \<and> sv_accepts s
      then (case r of
              AcceptError \<Rightarrow> (serve_stops name s, [])
            | NetherNetConn c \<Rightarrow> (s, [(name, c)])
            | OtherConn c \<Rightarrow> (s, []))
      else (s, []))"
| "serve_step (BrokerStops name) s =
     (if name \<in> sv_running s \<and> \<not> sv_accepts s then (serve_stops name s, []) else (s, []))"

fun serve_run :: "'c serve_event list \<Rightarrow> serve_state \<Rightarrow> serve_state \<times> (string \<times> 'c) list" where
  "serve_run [] s = (s, [])"
| "serve_run (e # es) s =
     (let (s, cs) = serve_step e s; (s, ds) = serve_run es s in (s, cs @ ds))"

text \<open>What one transport's own accepts give up to its first error.\<close>

fun answers_of :: "string \<Rightarrow> 'c serve_event list \<Rightarrow> 'c accept_result list" where
  "answers_of name [] = []"
| "answers_of name (AcceptReturns n r # es) = (if n = name then r # answers_of name es else answers_of name es)"
| "answers_of name (BrokerStops n # es) = answers_of name es"

fun accepted_before_error :: "'c accept_result list \<Rightarrow> 'c list" where
  "accepted_before_error [] = []"
| "accepted_before_error (AcceptError # rs) = []"
| "accepted_before_error (NetherNetConn c # rs) = c # accepted_before_error rs"
| "accepted_before_error (OtherConn c # rs) = accepted_before_error rs"

definition handled_by :: "string \<Rightarrow> (string \<times> 'c) list \<Rightarrow> 'c list" where
  "handled_by name cs = map snd (filter (\<lambda>(n, c). n = name) cs)"

lemma handled_by_simps [simp]:
  "handled_by name [] = []"
  "handled_by name (p # cs) = (if fst p = name then snd p # handled_by name cs else handled_by name cs)"
  by (auto simp: handled_by_def)

lemma serve_stops_simps [simp]:
  "sv_running (serve_stops n s) = sv_running s - {n}" "sv_accepts (serve_stops n s) = sv_accepts s"
  by (simp_all add: serve_stops_def)

lemma serve_run_handled:
  "handled_by name (snd (serve_run es s)) =
     (if name \<in> sv_running s \<and> sv_accepts s then accepted_before_error (answers_of name es) else [])"
proof (induction es arbitrary: s)
  case (Cons e es)
  show ?case
  proof (cases e)
    case (AcceptReturns n r)
    then show ?thesis
      by (cases r) (simp_all add: Cons.IH case_prod_beta)
  next
    case (BrokerStops n)
    then show ?thesis
      by (simp add: Cons.IH case_prod_beta)
  qed
qed simp

text \<open>The first transport to stop, in the order of the events.\<close>

fun first_stop :: "bool \<Rightarrow> string set \<Rightarrow> 'c serve_event list \<Rightarrow> string option" where
  "first_stop accepts running [] = None"
| "first_stop accepts running (AcceptReturns n AcceptError # es) =
     (if accepts \<and> n \<in> running then Some n else first_stop accepts running es)"
| "first_stop accepts running (AcceptReturns n (NetherNetConn c) # es) = first_stop accepts running es"
| "first_stop accepts running (AcceptReturns n (OtherConn c) # es) = first_stop accepts running es"
| "first_stop accepts running (BrokerStops n # es) =
     (if \<not> accepts \<and> n \<in> running then Some n else first_stop accepts running es)"

lemma serve_step_result_kept:
  "sv_result s = Some n \<Longrightarrow> sv_result (fst (serve_step e s)) = Some n"
  by (cases e; cases s) (auto simp: serve_stops_def split: accept_result.splits)

lemma serve_run_result_kept: "sv_result s = Some n \<Longrightarrow> sv_result (fst (serve_run es s)) = Some n"
  by (induction es arbitrary: s) (auto simp: case_prod_beta serve_step_result_kept)

lemma serve_run_result:
  "sv_result s = None \<Longrightarrow> sv_result (fst (serve_run es s)) = first_stop (sv_accepts s) (sv_running s) es"
proof (induction es arbitrary: s)
  case (Cons e es)
  have stopped: "sv_result (fst (serve_run es (serve_stops n s))) = Some n" for n
    using Cons.prems by (intro serve_run_result_kept) (simp add: serve_stops_def)
  show ?case
  proof (cases e)
    case (AcceptReturns n r)
    then show ?thesis
      using Cons.prems by (cases r) (simp_all add: Cons.IH case_prod_beta stopped)
  next
    case (BrokerStops n)
    then show ?thesis
      using Cons.prems by (simp add: Cons.IH case_prod_beta stopped)
  qed
qed simp

text \<open>
  Each listening transport hands on exactly the NetherNet connections it accepts before its own first
  error, in order and whatever becomes of the other transport; with brokers no connection is handed
  on. \<open>Serve\<close> returns with the transport that stops first.
\<close>

theorem serve_accepts_until_own_error:
  "handled_by name (snd (serve_run es (serve_init t))) =
     (if tr_brokers t = [] \<and> (name = ''websocket'' \<and> tr_ws_listener t \<or> name = ''messaging'' \<and> tr_msg_listener t)
      then accepted_before_error (answers_of name es) else []) \<and>
   sv_result (fst (serve_run es (serve_init t))) =
     first_stop (tr_brokers t = []) (sv_running (serve_init t)) es"
proof -
  have "sv_result (serve_init t) = None" "sv_accepts (serve_init t) = (tr_brokers t = [])"
    by (simp_all add: serve_init_def)
  moreover have "name \<in> sv_running (serve_init t) \<and> sv_accepts (serve_init t) \<longleftrightarrow>
      tr_brokers t = [] \<and> (name = ''websocket'' \<and> tr_ws_listener t \<or> name = ''messaging'' \<and> tr_msg_listener t)"
    by (auto simp: serve_init_def)
  ultimately show ?thesis
    by (simp add: serve_run_handled serve_run_result)
qed

text \<open>A door that does not open leaves no listener behind.\<close>

theorem failed_door_is_closed:
  "snd (start_direct_ip address listener_ok bind_ok) \<noteq> None \<Longrightarrow>
   count_list (fst (start_direct_ip address listener_ok bind_ok)) OpenListener =
   count_list (fst (start_direct_ip address listener_ok bind_ok)) CloseListener"
  by (auto simp: start_direct_ip_def split: if_splits)

theorem failed_door_is_closed_witness:
  "count_list (fst (start_direct_ip ''0.0.0.0:19132'' True False)) OpenListener =
   count_list (fst (start_direct_ip ''0.0.0.0:19132'' True False)) CloseListener"
  by (rule failed_door_is_closed) (simp add: start_direct_ip_def)

section \<open>Signing in an account\<close>

text \<open>
  What the outside answers while the process starts, for each token file where it depends on the
  account: the OAuth library (\<open>st_refresh\<close>, and \<open>st_device_code\<close> for the device-code sign-in), the
  services behind a session, and the outcome of writing the token file.
\<close>

record start_env =
  st_now :: instant
  st_codec :: token_codec
  st_live_valid :: "live_token \<Rightarrow> bool"
  st_refresh :: "string \<Rightarrow> live_token \<Rightarrow> live_token option"
  st_device_code :: "string \<Rightarrow> live_token option"
  st_services :: "string \<Rightarrow> services"
  st_write :: "string \<Rightarrow> write_result"
  st_unmarshal :: "string \<Rightarrow> file_config \<Rightarrow> file_config option"
  st_json_keys :: "string \<Rightarrow> string set"
  st_url_parse :: "string \<Rightarrow> url option"
  st_config :: file_view
  st_activity :: file_view
  st_dir :: "string list"
  st_control :: bool
  st_door_listener :: bool
  st_door_bind :: bool

datatype account_error = SignInRefused | SessionRefused | SessionPanicked

text \<open>\<open>tokenSource\<close> and \<open>SessionFromTokenSource\<close>, with whether the operator was asked to sign in.\<close>

definition open_account ::
  "start_env \<Rightarrow> token_disk \<Rightarrow> string \<Rightarrow> bool \<times> token_disk \<times> (account_error + account)" where
  "open_account env disk file =
     (let signed = token_source (st_codec env) (st_refresh env file) (st_device_code env file) disk file
      in case source_of signed of
           None \<Rightarrow> (True, disk, Inl SignInRefused)
         | Some src \<Rightarrow>
             (let sv = st_services env file;
                  (a, disk, tok) = session_token (st_codec env) (st_live_valid env) (st_refresh env file)
                     (st_write env file) sv \<lparr>ac_session = no_session, ac_source = src\<rparr> disk
              in (prompted signed, disk,
                  case session_from_token_source (st_live_valid env) (st_now env) (sv\<lparr>sv_live := tok\<rparr>) of
                    Panics \<Rightarrow> Inl SessionPanicked
                  | Fails \<Rightarrow> Inl SessionRefused
                  | Returns s \<Rightarrow> Inr \<lparr>ac_session = s, ac_source = ac_source a\<rparr>)))"

section \<open>The start of the process\<close>

datatype exit_reason =
    ConfigFailed config_error
  | ActivityFailed
  | AccountFailed account_error
  | BackendRefused transport_check
  | DoorFailed door_error

datatype start_action =
    WriteConfig file_config
  | AskSignIn string string
  | OpenControl int
  | ProbeBackend string
  | OpenDoor string
  | StartBroadcast string

text \<open>A broadcast that is started: its name, its token file and its configuration.\<close>

record task =
  tk_name :: string
  tk_file :: string
  tk_config :: file_config

record program =
  pg_allow :: "(xuid \<Rightarrow> bool) option"
  pg_compression :: "packet_compression \<times> int"
  pg_tasks :: "task list"

definition primary_task :: "file_config \<Rightarrow> task" where
  "primary_task cfg =
     \<lparr>tk_name = ''primary'', tk_file = token_cache_file, tk_config = cfg\<lparr>extra_broadcasts := []\<rparr>\<rparr>"

definition extra_task :: "file_config \<Rightarrow> broadcast_config \<Rightarrow> task" where
  "extra_task cfg b = \<lparr>tk_name = bc_name b, tk_file = bc_token_file b, tk_config = for_broadcast b cfg\<rparr>"

text \<open>The transports that are probed at the start; the answer of the probe is only logged.\<close>

definition probe_actions :: "transport_check \<Rightarrow> start_action list" where
  "probe_actions c =
     (case c of RelayNethernet address \<Rightarrow> [ProbeBackend address] | NoRelay address \<Rightarrow> [ProbeBackend address] | _ \<Rightarrow> [])"

text \<open>\<open>main\<close> behind the sign-in of the primary account: control port, compression, transport, door, broadcasts.\<close>

definition main_running :: "start_env \<Rightarrow> file_config \<Rightarrow> start_action list \<times> (exit_reason + program)" where
  "main_running env cfg =
     (let control = (if st_control env then [OpenControl (control_port cfg)] else []);
          (algorithm, known, threshold) = choose_compression cfg;
          check = check_transport (st_url_parse env) cfg;
          extras = fst (resolve_broadcasts cfg);
          prog = \<lparr>pg_allow = allow_xuid cfg, pg_compression = (algorithm, threshold),
                  pg_tasks = map (extra_task cfg) extras @ [primary_task cfg]\<rparr>
      in if \<not> startup_ok check then (control, Inl (BackendRefused check))
         else if relay_direct_ip cfg
         then (let address = relay_direct_ip_listen_address cfg
               in case start_direct_ip address (st_door_listener env) (st_door_bind env) of
                    (as, Some e) \<Rightarrow> (control @ probe_actions check, Inl (DoorFailed e))
                  | (as, None) \<Rightarrow>
                      (control @ probe_actions check @ [OpenDoor address] @
                         map (StartBroadcast \<circ> tk_name) (pg_tasks prog), Inr prog))
         else (control @ probe_actions check @ map (StartBroadcast \<circ> tk_name) (pg_tasks prog), Inr prog))"

definition config_actions :: "file_config option \<Rightarrow> start_action list" where
  "config_actions written = (case written of None \<Rightarrow> [] | Some cfg \<Rightarrow> [WriteConfig cfg])"

definition main_start :: "start_env \<Rightarrow> token_disk \<Rightarrow> start_action list \<times> (exit_reason + program)" where
  "main_start env disk =
     (case load_config (st_unmarshal env) (st_json_keys env) (st_config env) of
        (Inl e, written) \<Rightarrow> (config_actions written, Inl (ConfigFailed e))
      | (Inr cfg, written) \<Rightarrow>
          (if open_store (st_activity env) = None then (config_actions written, Inl ActivityFailed)
           else (case open_account env disk token_cache_file of
                   (asked, disk, Inl e) \<Rightarrow>
                     (config_actions written @ (if asked then [AskSignIn ''primary'' token_cache_file] else []),
                      Inl (AccountFailed e))
                 | (asked, disk, Inr a) \<Rightarrow>
                     (let (as, r) = main_running env cfg
                      in (config_actions written @
                          (if asked then [AskSignIn ''primary'' token_cache_file] else []) @ as, r)))))"

text \<open>\<open>runLoginBroadcast\<close>: one broadcast, named after its token file, with the backend of the configuration.\<close>

definition login_name :: "string \<Rightarrow> string" where
  "login_name file = trim_suffix (trim_suffix file ''.json'') ''-token''"

definition login_task :: "file_config \<Rightarrow> string \<Rightarrow> bool \<Rightarrow> task" where
  "login_task cfg file no_accept =
     \<lparr>tk_name = login_name file, tk_file = file,
      tk_config = for_broadcast
        \<lparr>bc_name = login_name file, bc_token_file = file, bc_host_name = host_name cfg,
         bc_world_name = world_name cfg, bc_invites = False, bc_invite_port = 0,
         bc_no_friend_accept = no_accept\<rparr> cfg\<rparr>"

definition login_start ::
  "start_env \<Rightarrow> token_disk \<Rightarrow> string \<Rightarrow> bool \<Rightarrow> start_action list \<times> (exit_reason + program)" where
  "login_start env disk file no_accept =
     (case load_config (st_unmarshal env) (st_json_keys env) (st_config env) of
        (Inl e, written) \<Rightarrow> (config_actions written, Inl (ConfigFailed e))
      | (Inr cfg, written) \<Rightarrow>
          (if open_store (st_activity env) = None then (config_actions written, Inl ActivityFailed)
           else (case open_account env disk file of
                   (asked, disk, Inl e) \<Rightarrow>
                     (config_actions written @ (if asked then [AskSignIn (login_name file) file] else []),
                      Inl (AccountFailed e))
                 | (asked, disk, Inr a) \<Rightarrow>
                     (config_actions written @ (if asked then [AskSignIn (login_name file) file] else []) @
                        [StartBroadcast (login_name file)],
                      Inr \<lparr>pg_allow = allow_xuid cfg, pg_compression = (SnappyCompression, 256),
                           pg_tasks = [login_task cfg file no_accept]\<rparr>))))"

text \<open>The command line: \<open>-login\<close> with a file, or with the next token file that is not used, or \<open>main\<close>.\<close>

definition program_start ::
  "start_env \<Rightarrow> token_disk \<Rightarrow> string list \<Rightarrow> (start_action list \<times> (exit_reason + program)) option" where
  "program_start env disk args =
     (case login_file args of
        None \<Rightarrow> Some (main_start env disk)
      | Some given \<Rightarrow>
          (case (case given of Some file \<Rightarrow> Some file | None \<Rightarrow> next_token_file (st_dir env)) of
             None \<Rightarrow> None
           | Some file \<Rightarrow> Some (login_start env disk file (no_friend_accept_flag args))))"

section \<open>The broadcasts of a process\<close>

text \<open>
  What one broadcast meets: the answer to its request for an Xbox Live identity, whether the first RTA
  connection id arrived, the player count at its start, and its generations.
\<close>

record broadcast_env =
  bn_xuid :: "xuid option"
  bn_connected :: bool
  bn_players :: player_state
  bn_generations :: "(session_env \<times> rta \<times> bool \<times> bool) list"

definition run_broadcast ::
  "(string \<Rightarrow> url option) \<Rightarrow> (string \<Rightarrow> string) \<Rightarrow> broadcast_env \<Rightarrow> string \<Rightarrow> file_config \<Rightarrow> (xuid \<rightharpoonup> string) \<Rightarrow>
   (xuid \<rightharpoonup> string) \<times> (start_error + live_action list \<times> bool)" where
  "run_broadcast url_parse level b name cfg owners =
     (let cfg = cfg\<lparr>broadcast_name := name\<rparr>
      in case start_broadcast name cfg (bn_xuid b) (bn_connected b) owners of
           (owners, Inl e) \<Rightarrow> (owners, Inl e)
         | (owners, Inr accepts) \<Rightarrow>
             (owners, Inr (broadcast_run url_parse level (the (bn_xuid b)) cfg (bn_generations b) loop_init (bn_players b))))"

text \<open>
  \<open>runExtraBroadcast\<close>: an account that cannot sign in ends this broadcast alone.
\<close>

definition run_extra ::
  "start_env \<Rightarrow> (string \<Rightarrow> string) \<Rightarrow> broadcast_env \<Rightarrow> file_config \<Rightarrow> broadcast_config \<Rightarrow> token_disk \<Rightarrow> (xuid \<rightharpoonup> string) \<Rightarrow>
   token_disk \<times> (xuid \<rightharpoonup> string) \<times> ((account_error + start_error) + live_action list \<times> bool)" where
  "run_extra env level b cfg entry disk owners =
     (case open_account env disk (bc_token_file entry) of
        (asked, disk, Inl e) \<Rightarrow> (disk, owners, Inl (Inl e))
      | (asked, disk, Inr a) \<Rightarrow>
          (case run_broadcast (st_url_parse env) level b (bc_name entry) (for_broadcast entry cfg) owners of
             (owners, Inl e) \<Rightarrow> (disk, owners, Inl (Inr e))
           | (owners, Inr r) \<Rightarrow> (disk, owners, Inr r)))"

text \<open>
  The goroutines of \<open>main\<close> reach their claims in some order, \<open>bs\<close>: the primary broadcast, which has
  signed in before, and the extra ones. The result is what each of them put, in that order.
\<close>

datatype broadcaster = Primary | Extra broadcast_config

definition documents :: "'e + live_action list \<times> bool \<Rightarrow> live_action list" where
  "documents r = (case r of Inl e \<Rightarrow> [] | Inr (as, panics) \<Rightarrow> as)"

definition run_broadcaster ::
  "start_env \<Rightarrow> (string \<Rightarrow> string) \<Rightarrow> file_config \<Rightarrow> broadcaster \<Rightarrow> broadcast_env \<Rightarrow> token_disk \<Rightarrow> (xuid \<rightharpoonup> string) \<Rightarrow>
   token_disk \<times> (xuid \<rightharpoonup> string) \<times> live_action list" where
  "run_broadcaster env level cfg who b disk owners =
     (case who of
        Primary \<Rightarrow>
          (let (owners, r) = run_broadcast (st_url_parse env) level b ''primary'' (cfg\<lparr>extra_broadcasts := []\<rparr>) owners
           in (disk, owners, documents r))
      | Extra entry \<Rightarrow>
          (let (disk, owners, r) = run_extra env level b cfg entry disk owners
           in (disk, owners, documents r)))"

fun run_all ::
  "start_env \<Rightarrow> (string \<Rightarrow> string) \<Rightarrow> file_config \<Rightarrow> (broadcaster \<times> broadcast_env) list \<Rightarrow> token_disk \<Rightarrow>
   (xuid \<rightharpoonup> string) \<Rightarrow> live_action list list" where
  "run_all env level cfg [] disk owners = []"
| "run_all env level cfg ((who, b) # bs) disk owners =
     (case run_broadcaster env level cfg who b disk owners of
        (disk, owners, as) \<Rightarrow> as # run_all env level cfg bs disk owners)"

section \<open>Lemmas\<close>

definition broadcast_env_ok :: "broadcast_env \<Rightarrow> bool" where
  "broadcast_env_ok b \<longleftrightarrow> players_ok (bn_players b) \<and>
     list_all (\<lambda>(env, r, e, w). se_uuid env \<noteq> '''') (bn_generations b)"

definition owned_by :: "live_action list \<Rightarrow> xuid \<Rightarrow> bool" where
  "owned_by as x \<longleftrightarrow> (\<forall>rq. PutSession rq \<in> set as \<longrightarrow> rq_owner_id rq = x)"

lemma run_broadcast_claims:
  assumes "run_broadcast url_parse level b name cfg owners = (owners', r)" "broadcast_env_ok b"
  shows "owners \<subseteq>\<^sub>m owners' \<and>
    (documents r = [] \<or> (\<exists>x. owners x = None \<and> owners' x \<noteq> None \<and> owned_by (documents r) x))"
proof (cases "\<exists>x. bn_xuid b = Some x \<and> owners x = None \<and> bn_connected b")
  case True
  then obtain x where x: "bn_xuid b = Some x" "owners x = None" "bn_connected b" by blast
  obtain as panics where run: "broadcast_run url_parse level x (cfg\<lparr>broadcast_name := name\<rparr>) (bn_generations b)
      loop_init (bn_players b) = (as, panics)"
    by (meson surj_pair)
  have "r = Inr (as, panics)" "owners' = owners(x \<mapsto> name)"
    using assms(1) x run by (simp_all add: run_broadcast_def start_broadcast_def claim_xuid_def Let_def)
  moreover have "owned_by as x"
    using broadcast_puts [OF run] assms(2)
    by (auto simp: broadcast_env_ok_def owned_by_def list_all_iff puts_for_def)
  ultimately show ?thesis using x by (auto simp: documents_def map_le_def)
next
  case False
  then have "documents r = [] \<and> owners \<subseteq>\<^sub>m owners'"
    using assms(1)
    by (auto simp: run_broadcast_def start_broadcast_def claim_xuid_def documents_def Let_def map_le_def
        split: option.splits if_splits)
  then show ?thesis by blast
qed

lemma run_extra_claims:
  assumes "run_extra env level b cfg entry disk owners = (disk', owners', r)" "broadcast_env_ok b"
  shows "owners \<subseteq>\<^sub>m owners' \<and>
    (documents r = [] \<or> (\<exists>x. owners x = None \<and> owners' x \<noteq> None \<and> owned_by (documents r) x))"
proof -
  obtain o' q where q: "run_broadcast (st_url_parse env) level b (bc_name entry) (for_broadcast entry cfg) owners = (o', q)"
    by (meson surj_pair)
  show ?thesis
    using assms(1) run_broadcast_claims [OF q assms(2)]
    by (auto simp: run_extra_def q documents_def split: prod.splits sum.splits)
qed

lemma run_broadcaster_claims:
  assumes "run_broadcaster env level cfg who b disk owners = (disk', owners', as)" "broadcast_env_ok b"
  shows "owners \<subseteq>\<^sub>m owners' \<and> (as = [] \<or> (\<exists>x. owners x = None \<and> owners' x \<noteq> None \<and> owned_by as x))"
proof (cases who)
  case Primary
  obtain o' q where q: "run_broadcast (st_url_parse env) level b ''primary'' (cfg\<lparr>extra_broadcasts := []\<rparr>) owners = (o', q)"
    by (meson surj_pair)
  show ?thesis using assms(1) run_broadcast_claims [OF q assms(2)] by (simp add: run_broadcaster_def Primary q)
next
  case (Extra entry)
  obtain d' o' q where q: "run_extra env level b cfg entry disk owners = (d', o', q)"
    by (metis prod_cases3)
  show ?thesis using assms(1) run_extra_claims [OF q assms(2)] by (simp add: run_broadcaster_def Extra q)
qed

lemma run_all_owners:
  assumes "list_all (\<lambda>(who, b). broadcast_env_ok b) bs"
    and "as \<in> set (run_all env level cfg bs disk owners)" "PutSession rq \<in> set as"
  shows "owners (rq_owner_id rq) = None"
  using assms
proof (induction bs arbitrary: disk owners)
  case (Cons p bs)
  obtain who b where p: "p = (who, b)" by (cases p)
  obtain d' o' ds where r: "run_broadcaster env level cfg who b disk owners = (d', o', ds)"
    by (metis prod_cases3)
  have c: "owners \<subseteq>\<^sub>m o' \<and> (ds = [] \<or> (\<exists>x. owners x = None \<and> o' x \<noteq> None \<and> owned_by ds x))"
    using run_broadcaster_claims [OF r] Cons.prems(1) by (simp add: p)
  from Cons.prems(2) consider "as = ds" | "as \<in> set (run_all env level cfg bs d' o')"
    by (auto simp: p r)
  then show ?case
  proof cases
    case 1
    with c Cons.prems(3) show ?thesis by (auto simp: owned_by_def)
  next
    case 2
    with Cons.IH [of d' o'] Cons.prems(1,3) have "o' (rq_owner_id rq) = None" by simp
    with c show ?thesis by (auto simp: map_le_def dom_def)
  qed
qed simp

lemma run_all_distinct_owners:
  assumes "list_all (\<lambda>(who, b). broadcast_env_ok b) bs"
    and "i < j" "j < length (run_all env level cfg bs disk owners)"
    and "PutSession rq \<in> set (run_all env level cfg bs disk owners ! i)"
    and "PutSession rq' \<in> set (run_all env level cfg bs disk owners ! j)"
  shows "rq_owner_id rq \<noteq> rq_owner_id rq'"
  using assms
proof (induction bs arbitrary: disk owners i j)
  case (Cons p bs)
  obtain who b where p: "p = (who, b)" by (cases p)
  obtain d' o' ds where r: "run_broadcaster env level cfg who b disk owners = (d', o', ds)"
    by (metis prod_cases3)
  have c: "ds = [] \<or> (\<exists>x. owners x = None \<and> o' x \<noteq> None \<and> owned_by ds x)"
    using run_broadcaster_claims [OF r] Cons.prems(1) by (simp add: p)
  have run: "run_all env level cfg (p # bs) disk owners = ds # run_all env level cfg bs d' o'"
    by (simp add: p r)
  obtain k where j: "j = Suc k" using Cons.prems(2) by (cases j) auto
  have later: "PutSession rq' \<in> set (run_all env level cfg bs d' o' ! k)" "k < length (run_all env level cfg bs d' o')"
    using Cons.prems(3,5) by (simp_all add: run j)
  show ?case
  proof (cases i)
    case 0
    have "o' (rq_owner_id rq') = None"
      using run_all_owners [OF _ nth_mem [OF later(2)] later(1)] Cons.prems(1) by simp
    with c Cons.prems(4) show ?thesis by (auto simp: run 0 owned_by_def)
  next
    case (Suc m)
    with Cons.prems later show ?thesis by (intro Cons.IH [of m k d' o']) (simp_all add: run j)
  qed
qed simp

section \<open>Properties\<close>

text \<open>
  C10: In whatever order the broadcasts of a process sign in and claim their accounts, two of them never
  publish a session document for the same account, even when their token files hold the same one.
\<close>

theorem one_broadcast_per_account:
  assumes "list_all (\<lambda>(who, b). broadcast_env_ok b) bs"
    and "i < length (run_all env level cfg bs disk owners)" "j < length (run_all env level cfg bs disk owners)" "i \<noteq> j"
    and "PutSession rq \<in> set (run_all env level cfg bs disk owners ! i)"
    and "PutSession rq' \<in> set (run_all env level cfg bs disk owners ! j)"
  shows "rq_owner_id rq \<noteq> rq_owner_id rq'"
  using run_all_distinct_owners [OF assms(1)] assms(2-) by (metis linorder_neqE_nat)

text \<open>The broadcasts that a start has started, in order.\<close>

definition started :: "start_action list \<Rightarrow> string list" where
  "started as = concat (map (\<lambda>a. case a of StartBroadcast n \<Rightarrow> [n] | _ \<Rightarrow> []) as)"

lemma started_simps [simp]:
  "started [] = []" "started (as @ bs) = started as @ started bs"
  "started (a # as) = (case a of StartBroadcast n \<Rightarrow> [n] | _ \<Rightarrow> []) @ started as"
  by (simp_all add: started_def)

lemma started_map [simp]:
  "started (map (StartBroadcast \<circ> f) ts) = map f ts" "started (map (StartBroadcast \<circ> h \<circ> g) us) = map (h \<circ> g) us"
  by (induction ts, simp_all) (induction us, simp_all)

lemma started_quiet [simp]: "started (probe_actions c) = []" "started (config_actions w) = []"
  by (simp_all add: probe_actions_def config_actions_def split: transport_check.split option.split)

lemma started_if [simp]: "started (if b then as else bs) = (if b then started as else started bs)"
  by simp

lemma same_backend:
  "check_transport url_parse (cfg\<lparr>extra_broadcasts := es\<rparr>) = check_transport url_parse cfg"
  "check_transport url_parse (for_broadcast b cfg) = check_transport url_parse cfg"
  "relay_config (cfg\<lparr>extra_broadcasts := es\<rparr>) = relay_config cfg"
  "relay_config (for_broadcast b cfg) = relay_config cfg"
  by (simp_all add: check_transport_def for_broadcast_def relay_config_def Let_def split: sum.split)

lemma same_allow_list:
  "allow_xuid (cfg\<lparr>extra_broadcasts := es\<rparr>) = allow_xuid cfg"
  "allow_xuid (for_broadcast b cfg) = allow_xuid cfg"
  by (simp_all add: allow_xuid_def for_broadcast_def)

lemma main_running_Inr:
  assumes "main_running env cfg = (as, Inr prog)"
  shows "startup_ok (check_transport (st_url_parse env) cfg) \<and> pg_allow prog = allow_xuid cfg \<and>
    pg_tasks prog = map (extra_task cfg) (fst (resolve_broadcasts cfg)) @ [primary_task cfg] \<and>
    started as = map tk_name (pg_tasks prog)"
  using assms by (auto simp: main_running_def Let_def split: prod.splits if_splits option.splits)

lemma main_start_Inr:
  assumes "main_start env disk = (as, Inr prog)"
  shows "\<exists>cfg written bs. load_config (st_unmarshal env) (st_json_keys env) (st_config env) = (Inr cfg, written) \<and>
    main_running env cfg = (bs, Inr prog) \<and> started as = started bs"
  using assms
  by (auto simp: main_start_def Let_def split: prod.splits if_splits sum.splits)


text \<open>A process that ends during its start has started no broadcast and left no door open.\<close>

lemma no_door [simp]: "OpenDoor a \<notin> set (probe_actions c)" "OpenDoor a \<notin> set (config_actions w)"
  by (simp_all add: probe_actions_def config_actions_def split: transport_check.split option.split)

lemma main_running_Inl:
  assumes "main_running env cfg = (as, Inl e)"
  shows "started as = [] \<and> OpenDoor address \<notin> set as"
  using assms by (auto simp: main_running_def Let_def split: prod.splits if_splits option.splits)

lemma main_start_Inl:
  assumes "main_start env disk = (as, Inl e)"
  shows "started as = [] \<and> OpenDoor address \<notin> set as"
  using assms main_running_Inl
  by (auto simp: main_start_def Let_def split: prod.splits if_splits sum.splits)

lemma login_start_Inl:
  assumes "login_start env disk file no_accept = (as, Inl e)"
  shows "started as = [] \<and> OpenDoor address \<notin> set as"
  using assms by (auto simp: login_start_def Let_def split: prod.splits if_splits sum.splits)

theorem failed_start_starts_nothing:
  assumes "program_start env disk args = Some (as, Inl e)"
  shows "started as = [] \<and> OpenDoor address \<notin> set as"
  using assms main_start_Inl login_start_Inl
  by (auto simp: program_start_def split: option.splits)

text \<open>
  A \<open>-login\<close> run starts exactly the one broadcast of its token file, with the backend and the allow-list
  of the configuration; it opens no control port and no direct-IP door and probes no backend.
\<close>

theorem login_run_is_broadcast_only:
  assumes "login_start env disk file no_accept = (as, Inr prog)"
  shows "\<exists>cfg written. load_config (st_unmarshal env) (st_json_keys env) (st_config env) = (Inr cfg, written) \<and>
    started as = [login_name file] \<and>
    (\<forall>port address. OpenControl port \<notin> set as \<and> OpenDoor address \<notin> set as \<and> ProbeBackend address \<notin> set as) \<and>
    map tk_file (pg_tasks prog) = [file] \<and> pg_allow prog = allow_xuid cfg \<and>
    list_all (\<lambda>t. relay_config (tk_config t) = relay_config cfg \<and> no_friend_accept (tk_config t) = no_accept \<and>
      \<not> invites_enabled (tk_config t)) (pg_tasks prog)"
proof -
  obtain r written where r: "load_config (st_unmarshal env) (st_json_keys env) (st_config env) = (r, written)"
    by (meson surj_pair)
  obtain cfg where cfg: "r = Inr cfg" using assms r by (cases r) (simp_all add: login_start_def)
  obtain asked disk' q where q: "open_account env disk file = (asked, disk', q)" by (metis prod_cases3)
  have "as = config_actions written @ (if asked then [AskSignIn (login_name file) file] else []) @ [StartBroadcast (login_name file)]"
    "pg_allow prog = allow_xuid cfg" "pg_tasks prog = [login_task cfg file no_accept]"
    using assms r cfg q by (auto simp: login_start_def split: if_splits sum.splits)
  moreover have "relay_config (tk_config (login_task cfg file no_accept)) = relay_config cfg"
    by (simp add: login_task_def same_backend)
  ultimately show ?thesis
    using r cfg by (auto simp: config_actions_def login_task_def for_broadcast_def split: option.splits)
qed

section \<open>Witnesses\<close>

definition demo_extra :: broadcast_config where
  "demo_extra =
     \<lparr>bc_name = ''b'', bc_token_file = ''token2.json'', bc_host_name = '''', bc_world_name = '''',
      bc_invites = False, bc_invite_port = 0, bc_no_friend_accept = False\<rparr>"

definition demo_start :: start_env where
  "demo_start =
     \<lparr>st_now = 0, st_codec = unary_codec, st_live_valid = (\<lambda>t. True), st_refresh = (\<lambda>file t. Some t),
      st_device_code = (\<lambda>file. Some \<lparr>lt_access = ''l'', lt_expiry = 100\<rparr>),
      st_services = (\<lambda>file. example_services), st_write = (\<lambda>file. Stored),
      st_unmarshal = (\<lambda>b cfg. Some (cfg\<lparr>backend_transport := '''', extra_broadcasts := [demo_extra], compression := ''none''\<rparr>)),
      st_json_keys = (\<lambda>b. {}), st_url_parse = (\<lambda>a. None),
      st_config = Contents ''{}'', st_activity = Missing, st_dir = [''token.json''],
      st_control = True, st_door_listener = True, st_door_bind = True\<rparr>"

lemma demo_open_account:
  "\<exists>a. open_account demo_start Map.empty file = (True, [token_path file \<mapsto> unary_marshal \<lparr>lt_access = ''l'', lt_expiry = 100\<rparr>], Inr a)"
  by (simp add: open_account_def demo_start_def token_source_def source_of_def prompted_def session_token_def
      no_session_def caching_token_def source_token_def unary_codec_def token_locked_def example_login [unfolded example_services_def]
      example_services_def Let_def)

definition demo_cfg :: file_config where
  "demo_cfg = note_ignored_settings {} (resolve_control_port {} (resolve_server_address {}
     (default_config\<lparr>backend_transport := '''', extra_broadcasts := [demo_extra], compression := ''none''\<rparr>)))"

lemma demo_load: "load_config (st_unmarshal demo_start) (st_json_keys demo_start) (st_config demo_start) = (Inr demo_cfg, None)"
  by (simp add: load_config_def demo_start_def demo_cfg_def)

lemma demo_cfg_fields:
  "backend_transport demo_cfg = ''''" "extra_broadcasts demo_cfg = [demo_extra]" "compression demo_cfg = ''none''"
  "relay_direct_ip demo_cfg = False" "compression_threshold demo_cfg = 256"
  by code_simp+

lemma demo_check: "check_transport u demo_cfg = RelayRaknet (geyser_address demo_cfg)"
proof -
  have "to_lower (trim_space (backend_transport demo_cfg)) = ''''" by code_simp
  then show ?thesis by (simp add: check_transport_def)
qed

lemma demo_compression: "choose_compression demo_cfg = (NopCompression, True, 256)"
proof -
  have "to_lower (compression demo_cfg) = ''none''" by code_simp
  then show ?thesis by (simp add: choose_compression_def demo_cfg_fields)
qed

lemma demo_main:
  "\<exists>as. main_start demo_start Map.empty =
     (as, Inr \<lparr>pg_allow = allow_xuid demo_cfg, pg_compression = (NopCompression, 256),
       pg_tasks = map (extra_task demo_cfg) (fst (resolve_broadcasts demo_cfg)) @ [primary_task demo_cfg]\<rparr>)"
proof -
  have "st_activity demo_start = Missing" by (simp add: demo_start_def)
  then show ?thesis
    using demo_open_account [of token_cache_file]
    by (auto simp: main_start_def demo_load open_store_def main_running_def demo_compression demo_check startup_ok_def
        demo_cfg_fields Let_def)
qed

lemma demo_login_start:
  "\<exists>as. login_start demo_start Map.empty ''token2.json'' False =
     (as, Inr \<lparr>pg_allow = allow_xuid demo_cfg, pg_compression = (SnappyCompression, 256),
       pg_tasks = [login_task demo_cfg ''token2.json'' False]\<rparr>)"
proof -
  have "st_activity demo_start = Missing" by (simp add: demo_start_def)
  then show ?thesis
    using demo_open_account [of "''token2.json''"]
    by (auto simp: login_start_def demo_load open_store_def)
qed


theorem login_run_is_broadcast_only_witness:
  "\<exists>as prog. login_start demo_start Map.empty ''token2.json'' False = (as, Inr prog) \<and>
     started as = [login_name ''token2.json'']"
proof -
  obtain as prog where "login_start demo_start Map.empty ''token2.json'' False = (as, Inr prog)" using demo_login_start by blast
  with login_run_is_broadcast_only [OF this] show ?thesis by blast
qed

text \<open>
  A \<open>-login\<close> run compresses with snappy from 256 bytes on, whatever the configuration says: with one and the
  same configuration, the relay runs without compression and the login run with it.
\<close>

theorem login_ignores_compression:
  "\<exists>as prog as' prog'. main_start demo_start Map.empty = (as, Inr prog) \<and>
     login_start demo_start Map.empty ''token2.json'' False = (as', Inr prog') \<and>
     pg_compression prog = (NopCompression, 256) \<and> pg_compression prog' = (SnappyCompression, 256)"
  using demo_main demo_login_start by fastforce

theorem failed_start_starts_nothing_witness:
  "\<exists>as e. program_start (demo_start\<lparr>st_config := Unreadable\<rparr>) Map.empty [] = Some (as, Inl e) \<and> started as = []"
proof -
  have r: "program_start (demo_start\<lparr>st_config := Unreadable\<rparr>) Map.empty [] = Some ([], Inl (ConfigFailed ReadFailed))"
    by (simp add: program_start_def main_start_def load_config_def config_actions_def)
  from failed_start_starts_nothing [OF this] r show ?thesis by blast
qed

lemma demo_puts:
  assumes "\<not> backend_bypasses_relay (relay_config cfg)" "update_ticker cfg = Some t"
  shows "\<exists>as panics rq. broadcast_run u level x cfg [(example_session_env, r, True, False)]
      loop_init \<lparr>ps_real = 1, ps_drift = None\<rparr> = (as, panics) \<and> PutSession rq \<in> set as"
  using assms
  by (simp add: run_session_def example_session_env_def listen_def start_websocket_def start_messaging_def attach_def
        no_transports_def first_session_def current_world_def advertised_players_def serve_session_def go_live_def
        presence_update_def default_heartbeat_def create_session_def put_session_def expect_def Let_def
        session_end_def loop_body_def loop_init_def split: prod.split) blast

definition demo_broadcast :: "xuid \<Rightarrow> broadcast_env" where
  "demo_broadcast x =
     \<lparr>bn_xuid = Some x, bn_connected = True, bn_players = \<lparr>ps_real = 1, ps_drift = None\<rparr>,
      bn_generations = [(example_session_env, new_rta x, True, False)]\<rparr>"

lemma demo_run_broadcast:
  assumes "\<not> backend_bypasses_relay (relay_config (cfg\<lparr>broadcast_name := name\<rparr>))"
    and "update_ticker (cfg\<lparr>broadcast_name := name\<rparr>) = Some t" "owners x = None"
  shows "\<exists>r rq. run_broadcast u level (demo_broadcast x) name cfg owners = (owners(x \<mapsto> name), Inr r) \<and>
    PutSession rq \<in> set (fst r)"
  using demo_puts [OF assms(1,2), of u level x "new_rta x"] assms(3)
  by (auto simp: run_broadcast_def start_broadcast_def claim_xuid_def demo_broadcast_def Let_def)

definition demo_broadcasters :: "(broadcaster \<times> broadcast_env) list" where
  "demo_broadcasters = [(Primary, demo_broadcast ''1''), (Extra demo_extra, demo_broadcast ''2'')]"

lemma demo_run_all:
  "\<exists>as bs rq rq'. run_all demo_start (\<lambda>s. s) default_config demo_broadcasters Map.empty Map.empty = [as, bs] \<and>
     PutSession rq \<in> set as \<and> PutSession rq' \<in> set bs"
proof -
  let ?p = "default_config\<lparr>extra_broadcasts := []\<rparr>" and ?e = "for_broadcast demo_extra default_config"
  have ok: "\<not> backend_bypasses_relay (relay_config (?p\<lparr>broadcast_name := ''primary''\<rparr>))"
    "update_ticker (?p\<lparr>broadcast_name := ''primary''\<rparr>) = Some (30 * second)"
    "\<not> backend_bypasses_relay (relay_config (?e\<lparr>broadcast_name := bc_name demo_extra\<rparr>))"
    "update_ticker (?e\<lparr>broadcast_name := bc_name demo_extra\<rparr>) = Some (30 * second)"
    by code_simp+
  obtain r rq where 1: "run_broadcast (st_url_parse demo_start) (\<lambda>s. s) (demo_broadcast ''1'') ''primary'' ?p Map.empty =
      ([''1'' \<mapsto> ''primary''], Inr r)" "PutSession rq \<in> set (fst r)"
    using demo_run_broadcast [OF ok(1,2), of Map.empty "''1''" "st_url_parse demo_start" "\<lambda>s. s"] by auto
  obtain q rq' where 2: "run_broadcast (st_url_parse demo_start) (\<lambda>s. s) (demo_broadcast ''2'') (bc_name demo_extra) ?e
      [''1'' \<mapsto> ''primary''] = ([''1'' \<mapsto> ''primary'', ''2'' \<mapsto> bc_name demo_extra], Inr q)" "PutSession rq' \<in> set (fst q)"
    using demo_run_broadcast [OF ok(3,4), of "[''1'' \<mapsto> ''primary'']" "''2''" "st_url_parse demo_start" "\<lambda>s. s"] by auto
  obtain a where a: "open_account demo_start Map.empty (bc_token_file demo_extra) =
      (True, [token_path (bc_token_file demo_extra) \<mapsto> unary_marshal \<lparr>lt_access = ''l'', lt_expiry = 100\<rparr>], Inr a)"
    using demo_open_account by blast
  show ?thesis
    using 1 2
    by (cases r; cases q)
      (auto simp: demo_broadcasters_def run_broadcaster_def run_extra_def a documents_def)
qed

theorem one_broadcast_per_account_witness:
  "\<exists>as bs rq rq'. run_all demo_start (\<lambda>s. s) default_config demo_broadcasters Map.empty Map.empty = [as, bs] \<and>
     PutSession rq \<in> set as \<and> PutSession rq' \<in> set bs \<and> rq_owner_id rq \<noteq> rq_owner_id rq'"
proof -
  obtain as bs rq rq' where r: "run_all demo_start (\<lambda>s. s) default_config demo_broadcasters Map.empty Map.empty = [as, bs]"
    "PutSession rq \<in> set as" "PutSession rq' \<in> set bs"
    using demo_run_all by blast
  have "list_all (\<lambda>(who, b). broadcast_env_ok b) demo_broadcasters"
    by (simp add: demo_broadcasters_def demo_broadcast_def broadcast_env_ok_def players_ok_def example_session_env_def)
  from one_broadcast_per_account [OF this, of 0 demo_start "\<lambda>s. s" default_config Map.empty Map.empty 1 rq rq'] r
  show ?thesis by auto
qed

text \<open>A \<open>-login\<close> run without a configuration file writes one, like any first run.\<close>

theorem login_writes_config:
  "st_config env = Missing \<Longrightarrow> \<exists>cfg. WriteConfig cfg \<in> set (fst (login_start env disk file no_accept))"
  by (auto simp: login_start_def load_config_def config_actions_def Let_def split: prod.split sum.split)

theorem login_writes_config_witness:
  "\<exists>cfg. WriteConfig cfg \<in> set (fst (login_start (demo_start\<lparr>st_config := Missing\<rparr>) Map.empty ''token2.json'' False))"
  by (rule login_writes_config) simp

end
