(* ===== verification/Scraper_Run.thy ===== *)
theory Scraper_Run
  imports Scraper Sign_In Friend_Manager Messaging_Conn
begin

text \<open>
  The scraper as a process (\<open>cmd/scraper/main.go\<close>): its sign-in, its start up to the open output file, and the
  loop that visits its target again and again. The signal that a visit over the messaging service begins
  with is \<open>Conn.Signal\<close> of \<open>messaging/conn.go\<close>.
\<close>

section \<open>Sign-in\<close>

text \<open>The scraper has a token file of its own name; \<open>tokenSource\<close> and its caching source are those of \<open>main.go\<close>.\<close>

definition scraper_token_file :: string where "scraper_token_file = ''token.json''"

definition scraper_token_source ::
  "token_codec \<Rightarrow> (live_token \<Rightarrow> live_token option) \<Rightarrow> live_token option \<Rightarrow> token_disk \<Rightarrow> sign_in" where
  "scraper_token_source codec refresh device_code disk = token_source codec refresh device_code disk scraper_token_file"

definition scraper_caching_token ::
  "token_codec \<Rightarrow> (live_token \<Rightarrow> live_token option) \<Rightarrow> write_result \<Rightarrow> caching_source \<Rightarrow> token_disk \<Rightarrow>
   caching_source \<times> token_disk \<times> live_token option" where
  "scraper_caching_token codec refresh wr src disk = caching_token codec refresh wr src disk"

section \<open>Start\<close>

record scraper_flags =
  fl_friend :: string
  fl_experience :: string
  fl_args :: "string list"
  fl_no_friend_accept :: bool

text \<open>
  The answers: whether the sign-in gave a token source, whether the session came up, the account's own
  XUID, the first answer to the presence, the gamertag look-up, whether the two files open, and what the
  output file holds after the first prune.
\<close>

record scraper_env =
  sn_signed_in :: bool
  sn_session :: bool
  sn_self :: "xuid option"
  sn_presence :: "(int \<times> string) option"
  sn_resolve :: "string \<Rightarrow> xuid option"
  sn_opens :: bool
  sn_recorded :: "string option"

datatype scraper_exit =
    NotSignedIn | NoScraperSession | NoOwnIdentity | NoPresence | UnknownGamertag string | NoOutputFile

record scraper =
  sc_mode :: scrape_mode
  sc_self :: xuid
  sc_output :: string
  sc_seen :: "xuid set"
  sc_accepts_friends :: bool

text \<open>Whether a session is made: not for a plain address.\<close>

definition needs_session :: "scraper_flags \<Rightarrow> bool" where
  "needs_session f \<longleftrightarrow>
     fl_friend f \<noteq> '''' \<or>
     (fl_friend f = '''' \<and> scrape_address (fl_friend f) (fl_experience f) (fl_args f) = '''' \<and> fl_experience f = '''') \<or>
     fl_experience f \<noteq> ''''"

definition scraper_session :: "scraper_env \<Rightarrow> scraper_flags \<Rightarrow> scraper_exit + xuid" where
  "scraper_session env f =
     (if \<not> needs_session f then Inr ''''
      else if \<not> sn_session env then Inl NoScraperSession
      else (case sn_self env of
              None \<Rightarrow> Inl NoOwnIdentity
            | Some self \<Rightarrow>
                (case presence_update (sn_presence env) of Inl e \<Rightarrow> Inl NoPresence | Inr beat \<Rightarrow> Inr self)))"

definition scraper_start :: "scraper_env \<Rightarrow> scraper_flags \<Rightarrow> scraper_exit + scraper" where
  "scraper_start env f =
     (if \<not> sn_signed_in env then Inl NotSignedIn
      else (case scraper_session env f of
              Inl e \<Rightarrow> Inl e
            | Inr self \<Rightarrow>
                (case scraper_mode (sn_resolve env) (fl_friend f) (fl_experience f) (fl_args f) of
                   None \<Rightarrow> Inl (UnknownGamertag (fl_friend f))
                 | Some mode \<Rightarrow>
                     (if \<not> sn_opens env then Inl NoOutputFile
                      else Inr \<lparr>sc_mode = mode, sc_self = self,
                                sc_output = output_file (scrape_address (fl_friend f) (fl_experience f) (fl_args f)),
                                sc_seen = initial_seen self (sn_recorded env),
                                sc_accepts_friends = (needs_session f \<and> \<not> fl_no_friend_accept f)\<rparr>))))"

section \<open>The loop\<close>

text \<open>
  \<open>scrapeOnce\<close>: dial, spawn, record, and the packets that the connection reads before it ends. The result is
  what was recorded, what is seen then, and the error, which there always is.
\<close>

datatype once_error = DialFailed | SpawnFailed | ReadEnded

definition scrape_once ::
  "bool \<Rightarrow> bool \<Rightarrow> string \<Rightarrow> player_entry list option list \<Rightarrow> xuid set \<Rightarrow> (xuid \<times> string) list \<times> xuid set \<times> once_error" where
  "scrape_once dials spawns address pks seen =
     (if \<not> dials then ([], seen, DialFailed)
      else if \<not> spawns then ([], seen, SpawnFailed)
      else (let (calls, seen) = record_player_list (csv_field address) seen pks in (calls, seen, ReadEnded)))"

text \<open>
  One round of \<open>main\<close>'s loop: whether the context is done before it, the text of the error it ends with,
  and whether the context is done in the pause.
\<close>

record scraper_round =
  rd_done :: bool
  rd_error :: "string option"
  rd_done_in_pause :: bool

datatype loop_step = Visit | PauseFor duration

text \<open>In an experience a newly exempt pack makes the loop go on at once; nothing else does.\<close>

fun scraper_loop :: "scrape_mode \<Rightarrow> duration \<Rightarrow> scraper_round list \<Rightarrow> (string \<times> string) list \<Rightarrow> loop_step list" where
  "scraper_loop mode delay [] packs = []"
| "scraper_loop mode delay (r # rs) packs =
     (if rd_done r then []
      else (let (exempted, packs') = (case mode of Experience i \<Rightarrow> exempt_missing_pack (rd_error r) packs | _ \<Rightarrow> (False, packs))
            in if exempted then Visit # scraper_loop mode delay rs packs'
               else if rd_done_in_pause r then [Visit]
               else Visit # PauseFor delay # scraper_loop mode delay rs packs'))"

section \<open>Friends' worlds\<close>

text \<open>
  \<open>runFriendWorlds\<close>: what each round found (or that the listing failed), whether the context was alive before
  each of its worlds, and whether it ended in the pause.
\<close>

definition world_round_interval :: duration where "world_round_interval = 5 * 60 * second"

record worlds_round =
  wr_worlds :: "xbl_error + active_session list"
  wr_alive :: "bool list"
  wr_done :: bool

datatype worlds_step = World world_visit | RoundPause duration

definition round_worlds :: "worlds_round \<Rightarrow> active_session list" where
  "round_worlds r = (case wr_worlds r of Inl e \<Rightarrow> [] | Inr ws \<Rightarrow> ws)"

fun run_friend_worlds :: "worlds_round list \<Rightarrow> worlds_step list" where
  "run_friend_worlds [] = []"
| "run_friend_worlds (r # rs) =
     (let steps = visit_round (wr_alive r) (round_worlds r)
      in if length steps < length (round_worlds r) then map World steps
         else if wr_done r then map World steps
         else map World steps @ RoundPause world_round_interval # run_friend_worlds rs)"

lemma visit_round_worlds:
  "World (VisitWorld w) \<in> World ` set (visit_round alive ws) \<Longrightarrow> w \<in> set ws \<and> \<not> world_full w"
  by (induction alive ws rule: visit_round.induct) (auto split: if_splits)

text \<open>
  A world that is visited was listed in a round and had room for the visitor.
\<close>

theorem only_open_worlds_are_visited:
  "World (VisitWorld w) \<in> set (run_friend_worlds rs) \<Longrightarrow>
   \<not> world_full w \<and> (\<exists>r \<in> set rs. w \<in> set (round_worlds r))"
proof (induction rs)
  case (Cons r rs)
  then have "World (VisitWorld w) \<in> World ` set (visit_round (wr_alive r) (round_worlds r)) \<or>
      World (VisitWorld w) \<in> set (run_friend_worlds rs)"
    by (auto simp: Let_def split: if_splits)
  with Cons.IH visit_round_worlds [of w "wr_alive r" "round_worlds r"] show ?case by auto
qed simp

section \<open>Sending a signal\<close>

text \<open>
  \<open>Conn.Signal\<close>: the recipient's id is parsed by \<open>uuid.MustParse\<close>, which panics on anything that is not a UUID;
  \<open>is_uuid\<close> says what \<open>uuid.Parse\<close> accepts, \<open>answer\<close> what the call returns: nothing, or whether it holds an error.
\<close>

datatype send_result = SendPanics | SendFails | SendRefused | Sent

definition send_signal :: "(string \<Rightarrow> bool) \<Rightarrow> bool option \<Rightarrow> signal \<Rightarrow> send_result" where
  "send_signal is_uuid answer s =
     (if \<not> is_uuid (sig_network_id s) then SendPanics
      else (case answer of None \<Rightarrow> SendFails | Some err \<Rightarrow> if err then SendRefused else Sent))"

section \<open>Properties\<close>

text \<open>
  Pointed at an address, the scraper does not know its own account, and so it records itself when it shows up in the
  player list it reads, unless its file has it already.
\<close>

theorem scraper_records_itself_by_address:
  assumes "scraper_start env f = Inr sc" "sc_mode sc = Address address" "address \<noteq> ''''"
    and "record_player_list source (sc_seen sc) pks = (calls, seen)"
    and "own \<in> added_players pks" "own \<notin> load_already_seen (sn_recorded env)"
  shows "sc_self sc = '''' \<and> own \<in> set (map fst calls)"
proof -
  have self: "sc_self sc = ''''" "sc_seen sc = load_already_seen (sn_recorded env)"
    using assms(1-3)
    by (auto simp: scraper_start_def scraper_session_def needs_session_def scraper_mode_def resolve_friend_def
        scrape_address_def initial_seen_def Let_def split: if_splits option.splits sum.splits)
  then show ?thesis
    using record_player_list_exact [OF assms(4)] assms(5,6) by simp
qed

definition demo_scraper_env :: scraper_env where
  "demo_scraper_env =
     \<lparr>sn_signed_in = True, sn_session = True, sn_self = Some ''9'', sn_presence = Some (200, ''''),
      sn_resolve = (\<lambda>g. None), sn_opens = True, sn_recorded = None\<rparr>"

definition demo_flags :: scraper_flags where
  "demo_flags = \<lparr>fl_friend = '''', fl_experience = '''', fl_args = [''1.2.3.4:19132''], fl_no_friend_accept = False\<rparr>"

lemma demo_scraper:
  "\<exists>sc. scraper_start demo_scraper_env demo_flags = Inr sc \<and> sc_mode sc = Address ''1.2.3.4:19132'' \<and>
     sc_seen sc = {}"
  by (simp add: scraper_start_def scraper_session_def needs_session_def scraper_mode_def resolve_friend_def
      scrape_address_def initial_seen_def load_already_seen_def demo_scraper_env_def demo_flags_def)

theorem scraper_records_itself_by_address_witness:
  "\<exists>sc calls seen. scraper_start demo_scraper_env demo_flags = Inr sc \<and>
     record_player_list ''Hive'' (sc_seen sc) demo_packets = (calls, seen) \<and> ''9'' \<in> set (map fst calls)"
proof -
  obtain sc where sc: "scraper_start demo_scraper_env demo_flags = Inr sc" "sc_mode sc = Address ''1.2.3.4:19132''"
    using demo_scraper by blast
  obtain calls seen where r: "record_player_list ''Hive'' (sc_seen sc) demo_packets = (calls, seen)"
    by (meson surj_pair)
  have "''9'' \<in> added_players demo_packets"
    unfolding added_players_def demo_packets_def
    by (rule CollectI, rule exI [of _ "\<lparr>pe_add = True, pe_xuid = ''9'', pe_username = ''Me''\<rparr>"]) auto
  moreover have "''9'' \<notin> load_already_seen (sn_recorded demo_scraper_env)"
    by (simp add: load_already_seen_def demo_scraper_env_def)
  ultimately have "sc_self sc = '''' \<and> ''9'' \<in> set (map fst calls)"
    by (intro scraper_records_itself_by_address [OF sc _ r]) simp_all
  with sc(1) r show ?thesis by blast
qed

text \<open>How often a run of the loop visits and pauses.\<close>

definition visits :: "loop_step list \<Rightarrow> nat" where
  "visits steps = length (filter (\<lambda>s. s = Visit) steps)"

definition pauses :: "loop_step list \<Rightarrow> nat" where
  "pauses steps = length (filter (\<lambda>s. s \<noteq> Visit) steps)"

lemma visits_simps [simp]:
  "visits [] = 0" "pauses [] = 0" "visits (Visit # ss) = Suc (visits ss)" "pauses (Visit # ss) = pauses ss"
  "visits (PauseFor d # ss) = visits ss" "pauses (PauseFor d # ss) = Suc (pauses ss)"
  by (simp_all add: visits_def pauses_def)

lemma finite_named_packs [simp]: "finite (named_packs errs)"
proof -
  have "named_packs errs \<subseteq> (\<lambda>e. the (find_pack (the e))) ` set errs" by (force simp: named_packs_def)
  then show ?thesis using finite_surj by blast
qed

lemma named_packs_Cons: "named_packs errs \<subseteq> named_packs (e # errs)"
  by (auto simp: named_packs_def)

lemma scraper_loop_paced:
  "visits (scraper_loop mode delay rs packs) \<le>
     Suc (pauses (scraper_loop mode delay rs packs) + card (named_packs (map rd_error rs) - set packs))"
proof (induction rs arbitrary: packs)
  case (Cons r rs)
  let ?N = "named_packs (map rd_error rs)" and ?M = "named_packs (map rd_error (r # rs))"
  have sub: "?N \<subseteq> ?M" using named_packs_Cons by simp
  have mono: "card (?N - set packs) \<le> card (?M - set packs)"
    by (rule card_mono) (use sub in auto)
  obtain b packs' where ex: "(case mode of Experience i \<Rightarrow> exempt_missing_pack (rd_error r) packs | _ \<Rightarrow> (False, packs)) = (b, packs')"
    by (meson surj_pair)
  show ?case
  proof (cases "rd_done r")
    case False
    show ?thesis
    proof (cases b)
      case True
      then obtain i where "exempt_missing_pack (rd_error r) packs = (True, packs')"
        using ex by (cases mode) auto
      from exempt_missing_pack_steps [OF this] obtain t p where
        p: "rd_error r = Some t" "find_pack t = Some p" "p \<notin> set packs" "packs' = packs @ [p]" by auto
      then have new: "p \<in> ?M - set packs" by (auto simp: named_packs_def)
      have "card (?N - set packs') \<le> card (?M - set packs - {p})"
        by (rule card_mono) (use sub p(4) in auto)
      also have "\<dots> < card (?M - set packs)"
        by (rule card_Diff1_less) (use new in simp_all)
      finally have "card (?N - set packs') < card (?M - set packs)" .
      with Cons.IH [of packs'] False ex True show ?thesis by simp
    next
      case nb: False
      then have "packs' = packs" using ex exempt_missing_pack_steps by (cases mode) auto
      with Cons.IH [of packs] False ex nb mono show ?thesis by (cases "rd_done_in_pause r") simp_all
    qed
  qed simp
qed simp

text \<open>
  In any run of the scraper's loop there are at most as many visits as pauses and distinct missing packs that errors
  have named, and one more: it does not hammer a server that keeps refusing it.
\<close>

theorem visits_are_paced:
  "visits (scraper_loop mode delay rs []) \<le>
     Suc (pauses (scraper_loop mode delay rs []) + card (named_packs (map rd_error rs)))"
  using scraper_loop_paced [of mode delay rs "[]"] by simp

text \<open>
  A world whose session document names something else than a UUID as its messaging id makes the scraper panic with the first
  signal it sends there: the id is used as it came.
\<close>

theorem foreign_messaging_id_panics:
  assumes "find (\<lambda>c. cn_pmsg_id c \<noteq> '''') conns = Some c" "\<not> is_uuid (cn_pmsg_id c)"
    and "dial_friend_signaling True conns = Inr choice" "sig_network_id s = network_id choice"
  shows "send_signal is_uuid answer s = SendPanics"
proof -
  have "conns \<noteq> []" using assms(1) by auto
  then have "choice = ByMessaging (cn_pmsg_id c)"
    using assms(1,3) by (simp add: dial_friend_signaling_def choose_signaling_def)
  with assms(2,4) show ?thesis by (simp add: send_signal_def)
qed

theorem foreign_messaging_id_panics_witness:
  "send_signal (\<lambda>i. length i = 36) (Some False) ((example_msg SigOffer ''o'')\<lparr>sig_network_id := ''x''\<rparr>) = SendPanics"
  by (rule foreign_messaging_id_panics [where conns = "[\<lparr>cn_type = 3, cn_host_ip = '''', cn_host_port = 0, cn_nether_id = 0,
        cn_pmsg_id = ''x''\<rparr>]" and choice = "ByMessaging ''x''" and
        c = "\<lparr>cn_type = 3, cn_host_ip = '''', cn_host_port = 0, cn_nether_id = 0, cn_pmsg_id = ''x''\<rparr>"])
    (simp_all add: dial_friend_signaling_def choose_signaling_def)

end
