(* ===== verification/Rta_Session.thy ===== *)
theory Rta_Session
  imports Session_Life
begin

text \<open>
  One broadcast's RTA connection and its generations of sessions (\<open>xbl/rta.go\<close> and \<open>runSession\<close> of
  \<open>main.go\<close>): the read loop of the RTA stores a new connection id and then calls
  \<open>OnConnectionIDChanged\<close>, while \<open>runSession\<close> reads the id first, brings up its signaling, and
  registers its own callback only when its session exists.
\<close>

section \<open>State and steps\<close>

text \<open>
  \<open>hb_pending\<close>: the id that is stored and whose callback is still to come. \<open>hb_starting\<close>: the id
  that a \<open>runSession\<close> has read before it registers. \<open>hb_target\<close>: the session whose callback is
  registered.
\<close>

record hub =
  hb_id :: string
  hb_pending :: "string option"
  hb_starting :: "string option"
  hb_target :: "live_session option"

record session_start =
  ss_env :: session_env
  ss_rta :: rta
  ss_xuid :: xuid
  ss_session_id :: string
  ss_pmsg :: string
  ss_nether_id :: "64 word"
  ss_cfg :: file_config
  ss_players :: player_state

datatype hub_event =
    IdStored string
  | CallbackRuns "unit exchange"
  | StartReads
  | StartFails
  | Registers session_start
  | Lives live_event

definition new_hub :: hub where
  "new_hub = \<lparr>hb_id = '''', hb_pending = None, hb_starting = None, hb_target = None\<rparr>"

text \<open>The session that \<open>runSession\<close> builds on the id it has read.\<close>

definition started_session :: "(string \<Rightarrow> string) \<Rightarrow> session_start \<Rightarrow> string \<Rightarrow> live_session" where
  "started_session level st conn =
     (let (p, s) = first_session level (ss_env st) (ss_xuid st) (ss_session_id st) conn (ss_pmsg st) (ss_nether_id st)
          (ss_cfg st) (ss_players st)
      in \<lparr>lv_cfg = ss_cfg st, lv_initial = conn, lv_session = s, lv_rta = ss_rta st, lv_players = p,
          lv_count_failing = False, lv_cause = None\<rparr>)"

text \<open>
  The read loop is one goroutine: it stores no id while a callback is to come. The connection ids of
  a session come through the callback only.
\<close>

fun hub_step :: "(string \<Rightarrow> string) \<Rightarrow> hub_event \<Rightarrow> hub \<Rightarrow> hub \<times> live_action list" where
  "hub_step level (IdStored c) h =
     (if hb_pending h = None \<and> c \<noteq> '''' then (h\<lparr>hb_id := c, hb_pending := Some c\<rparr>, []) else (h, []))"
| "hub_step level (CallbackRuns answer) h =
     (case hb_pending h of
        None \<Rightarrow> (h, [])
      | Some c \<Rightarrow>
          (case hb_target h of
             None \<Rightarrow> (h\<lparr>hb_pending := None\<rparr>, [])
           | Some l \<Rightarrow>
               (let (l, as) = on_connection_id_changed c answer l
                in (h\<lparr>hb_pending := None, hb_target := Some l\<rparr>, as))))"
| "hub_step level StartReads h =
     (if hb_starting h = None \<and> hb_id h \<noteq> '''' then (h\<lparr>hb_starting := Some (hb_id h)\<rparr>, []) else (h, []))"
| "hub_step level StartFails h = (h\<lparr>hb_starting := None\<rparr>, [])"
| "hub_step level (Registers st) h =
     (case hb_starting h of
        None \<Rightarrow> (h, [])
      | Some conn \<Rightarrow> (h\<lparr>hb_starting := None, hb_target := Some (started_session level st conn)\<rparr>, []))"
| "hub_step level (Lives e) h =
     (case hb_target h of
        None \<Rightarrow> (h, [])
      | Some l \<Rightarrow>
          (case e of
             ConnectionId c answer \<Rightarrow> (h, [])
           | _ \<Rightarrow> (let (l, as) = live_step e l in (h\<lparr>hb_target := Some l\<rparr>, as))))"

fun hub_run :: "(string \<Rightarrow> string) \<Rightarrow> hub_event list \<Rightarrow> hub \<Rightarrow> hub \<times> live_action list" where
  "hub_run level [] h = (h, [])"
| "hub_run level (e # es) h =
     (let (h, as) = hub_step level e h; (h, bs) = hub_run level es h in (h, as @ bs))"

definition stored_ids :: "hub_event list \<Rightarrow> string list" where
  "stored_ids es = concat (map (\<lambda>e. case e of IdStored c \<Rightarrow> [c] | _ \<Rightarrow> []) es)"

text \<open>
  No callback runs for an id that a start has not seen, while that start has not registered yet.
\<close>

fun no_callback_missed :: "(string \<Rightarrow> string) \<Rightarrow> hub_event list \<Rightarrow> hub \<Rightarrow> bool" where
  "no_callback_missed level [] h \<longleftrightarrow> True"
| "no_callback_missed level (e # es) h \<longleftrightarrow>
     (case e of
        CallbackRuns answer \<Rightarrow> hb_starting h = None \<or> hb_starting h = Some (hb_id h)
      | _ \<Rightarrow> True) \<and> no_callback_missed level es (fst (hub_step level e h))"

section \<open>Invariant\<close>

definition session_connection :: "live_session \<Rightarrow> string" where
  "session_connection l = xs_connection_id (lv_session l)"

definition target_ok :: "string set \<Rightarrow> hub \<Rightarrow> live_session \<Rightarrow> bool" where
  "target_ok seen h l \<longleftrightarrow>
     lv_initial l \<in> seen \<and> (lv_initial l = hb_id h \<longrightarrow> session_connection l = hb_id h) \<and>
     (hb_pending h = None \<longrightarrow> session_connection l = hb_id h)"

definition hub_ok :: "string set \<Rightarrow> hub \<Rightarrow> bool" where
  "hub_ok seen h \<longleftrightarrow>
     hb_id h \<in> seen \<and> (\<forall>c. hb_pending h = Some c \<longrightarrow> c = hb_id h) \<and>
     (\<forall>c. hb_starting h = Some c \<longrightarrow> c \<in> seen \<and> (c = hb_id h \<or> hb_pending h \<noteq> None)) \<and>
     (\<forall>l. hb_target h = Some l \<longrightarrow> target_ok seen h l)"

lemma started_session_simps [simp]:
  "lv_initial (started_session level st conn) = conn"
  "session_connection (started_session level st conn) = conn"
  by (simp_all add: started_session_def session_connection_def first_session_def Let_def new_session_def
      set_world_info_def split: prod.split)

lemma callback_connection:
  "session_connection (fst (on_connection_id_changed c answer l)) =
     (if c = lv_initial l then session_connection l else c)"
  "lv_initial (fst (on_connection_id_changed c answer l)) = lv_initial l"
  by (simp_all add: on_connection_id_changed_def session_connection_def set_connection_id_def Let_def split: option.split)

lemma live_step_same_connection:
  assumes "\<nexists>c answer. e = ConnectionId c answer"
  shows "session_connection (fst (live_step e l)) = session_connection l \<and> lv_initial (fst (live_step e l)) = lv_initial l"
proof (cases e)
  case (CountTick now moves backend answer)
  then show ?thesis
    by (auto simp: session_connection_def count_tick_def publish_world_def set_world_info_def Let_def
        split: prod.split refresh_result.split)
next
  case (UpdateTick now moves answer)
  then show ?thesis
    by (auto simp: session_connection_def update_tick_def publish_world_def set_world_info_def Let_def split: prod.split)
next
  case (MembersChanged nonce g q)
  obtain s pushed err where r: "refresh_nonces nonce g q (lv_session l) = (s, pushed, err)"
    by (metis prod_cases3)
  with refresh_nonces_ids [OF r] MembersChanged show ?thesis
    by (simp add: session_connection_def members_changed_def)
qed (use assms in \<open>auto simp: session_connection_def\<close>)

definition is_connection_id :: "live_event \<Rightarrow> bool" where
  "is_connection_id e \<longleftrightarrow> (case e of ConnectionId c answer \<Rightarrow> True | _ \<Rightarrow> False)"

lemma hub_step_lives:
  "hub_step level (Lives e) h =
     (case hb_target h of
        None \<Rightarrow> (h, [])
      | Some l \<Rightarrow>
          (if is_connection_id e then (h, [])
           else (h\<lparr>hb_target := Some (fst (live_step e l))\<rparr>, snd (live_step e l))))"
  by (cases e) (auto simp: is_connection_id_def Let_def split: option.split prod.split)

lemma not_connection_id: "\<not> is_connection_id e \<Longrightarrow> \<nexists>c answer. e = ConnectionId c answer"
  by (auto simp: is_connection_id_def)

lemma hub_step_ok:
  assumes "hub_ok seen h" "\<And>c. e = IdStored c \<Longrightarrow> c \<notin> seen"
    and "\<And>answer. e = CallbackRuns answer \<Longrightarrow> hb_starting h = None \<or> hb_starting h = Some (hb_id h)"
  shows "hub_ok (seen \<union> set (stored_ids [e])) (fst (hub_step level e h))"
proof (cases e)
  case (IdStored c)
  with assms(1,2) show ?thesis by (auto simp: hub_ok_def target_ok_def stored_ids_def)
next
  case (CallbackRuns answer)
  show ?thesis
  proof (cases "hb_pending h")
    case None
    with CallbackRuns assms(1) show ?thesis by (simp add: stored_ids_def)
  next
    case (Some c)
    have c: "c = hb_id h" using assms(1) Some by (simp add: hub_ok_def)
    show ?thesis
    proof (cases "hb_target h")
      case None
      with CallbackRuns assms(1,3) Some c show ?thesis by (auto simp: hub_ok_def stored_ids_def)
    next
      case t: (Some l)
      obtain l' as where l': "on_connection_id_changed c answer l = (l', as)"
        by (cases "on_connection_id_changed c answer l")
      have "session_connection l' = c" "lv_initial l' = lv_initial l"
        using callback_connection [of c answer l] l' assms(1) t c by (auto simp: hub_ok_def target_ok_def)
      with CallbackRuns assms(1,3) Some c t l' show ?thesis
        by (auto simp: hub_ok_def target_ok_def stored_ids_def)
    qed
  qed
next
  case (Lives ev)
  show ?thesis
  proof (cases "hb_target h")
    case None
    with Lives assms(1) show ?thesis by (simp add: hub_step_lives stored_ids_def del: hub_step.simps)
  next
    case (Some l)
    with Lives assms(1) live_step_same_connection [OF not_connection_id, of ev l] show ?thesis
      by (auto simp: hub_step_lives stored_ids_def hub_ok_def target_ok_def simp del: hub_step.simps)
  qed
next
  case (Registers st)
  with assms(1) show ?thesis
    by (cases "hb_starting h") (auto simp: hub_ok_def target_ok_def stored_ids_def)
qed (use assms(1) in \<open>auto simp: hub_ok_def target_ok_def stored_ids_def\<close>)

lemma stored_ids_Cons: "stored_ids (e # es) = stored_ids [e] @ stored_ids es"
  by (simp add: stored_ids_def)

lemma hub_run_ok:
  assumes "hub_ok seen h" "distinct (stored_ids es)" "seen \<inter> set (stored_ids es) = {}" "no_callback_missed level es h"
  shows "\<exists>seen'. hub_ok seen' (fst (hub_run level es h))"
  using assms
proof (induction es arbitrary: seen h)
  case (Cons e es)
  have ids: "stored_ids (e # es) = stored_ids [e] @ stored_ids es" by (rule stored_ids_Cons)
  have "hub_ok (seen \<union> set (stored_ids [e])) (fst (hub_step level e h))"
  proof (rule hub_step_ok [OF Cons.prems(1)])
    show "c \<notin> seen" if "e = IdStored c" for c using Cons.prems(3) that by (auto simp: stored_ids_def)
    show "hb_starting h = None \<or> hb_starting h = Some (hb_id h)" if "e = CallbackRuns answer" for answer
      using Cons.prems(4) that by simp
  qed
  from Cons.IH [OF this] Cons.prems(2-4)
  have "\<exists>seen'. hub_ok seen' (fst (hub_run level es (fst (hub_step level e h))))"
    by (auto simp: ids)
  then show ?case by (simp add: case_prod_unfold Let_def)
qed auto

section \<open>Properties\<close>

text \<open>
  C27: As long as no callback runs for an id that a start in progress has not read, the registered
  session of a broadcast advertises the RTA's current connection id whenever the read loop has no
  callback left to run, over any number of reconnects and generations.
\<close>

theorem session_follows_connection:
  assumes "distinct ('''' # stored_ids es)" "no_callback_missed level es new_hub"
    and "fst (hub_run level es new_hub) = h" "hb_pending h = None" "hb_target h = Some l"
  shows "xs_connection_id (lv_session l) = hb_id h"
proof -
  have "hub_ok {''''} new_hub" by (simp add: hub_ok_def new_hub_def)
  from hub_run_ok [OF this _ _ assms(2)] assms(1,3) obtain seen where "hub_ok seen h" by auto
  with assms(4,5) show ?thesis by (simp add: hub_ok_def target_ok_def session_connection_def)
qed

definition puts_connection :: "string \<Rightarrow> live_action \<Rightarrow> bool" where
  "puts_connection c a \<longleftrightarrow> (case a of PutSession q \<Rightarrow> rq_connection q = c | Reconnect \<Rightarrow> True)"

lemma live_step_puts:
  assumes "\<not> is_connection_id e"
  shows "list_all (puts_connection (session_connection l)) (snd (live_step e l))"
proof (cases e)
  case (CountTick now moves backend answer)
  then show ?thesis
    by (auto simp: session_connection_def count_tick_def publish_world_def set_world_info_def Let_def
        puts_connection_def build_request_def split: prod.split refresh_result.split)
next
  case (UpdateTick now moves answer)
  then show ?thesis
    by (auto simp: session_connection_def update_tick_def publish_world_def set_world_info_def Let_def
        puts_connection_def build_request_def split: prod.split)
next
  case (MembersChanged nonce g q)
  obtain s pushed err where r: "refresh_nonces nonce g q (lv_session l) = (s, pushed, err)"
    by (metis prod_cases3)
  with refresh_nonces_ids [OF r] MembersChanged show ?thesis
    by (simp add: session_connection_def members_changed_def puts_connection_def build_request_def)
qed (use assms in \<open>auto simp: is_connection_id_def\<close>)

lemma lives_run:
  assumes "hb_target h = Some l" "\<forall>e \<in> set es. \<exists>ev. e = Lives ev"
  shows "\<exists>l'. hb_target (fst (hub_run level es h)) = Some l' \<and> session_connection l' = session_connection l \<and>
    hb_id (fst (hub_run level es h)) = hb_id h \<and>
    list_all (puts_connection (session_connection l)) (snd (hub_run level es h))"
  using assms
proof (induction es arbitrary: h l)
  case (Cons e es)
  then obtain ev where e: "e = Lives ev" by auto
  obtain h' as where h': "hub_step level (Lives ev) h = (h', as)" by (cases "hub_step level (Lives ev) h")
  have step: "\<exists>l'. hb_target h' = Some l' \<and> session_connection l' = session_connection l \<and> hb_id h' = hb_id h \<and>
      list_all (puts_connection (session_connection l)) as"
  proof (cases "is_connection_id ev")
    case True
    with h' Cons.prems(1) show ?thesis by (auto simp: hub_step_lives simp del: hub_step.simps)
  next
    case False
    with h' Cons.prems(1) live_step_puts [OF False, of l] live_step_same_connection [OF not_connection_id [OF False], of l]
    show ?thesis by (auto simp: hub_step_lives simp del: hub_step.simps)
  qed
  then obtain l' where l': "hb_target h' = Some l'" "session_connection l' = session_connection l" "hb_id h' = hb_id h"
    "list_all (puts_connection (session_connection l)) as" by blast
  obtain h2 bs where h2: "hub_run level es h' = (h2, bs)" by (cases "hub_run level es h'")
  from Cons.IH [OF l'(1)] Cons.prems(2) l' h2 show ?case
    by (auto simp: e h' simp del: hub_step.simps)
qed auto

text \<open>
  C28: A reconnect between the read and the registration is missed: its callback goes to the session that
  is being replaced, and whatever the new session does until the next reconnect, every document it
  puts advertises the connection that is gone.
\<close>

theorem reconnect_in_startup_is_missed:
  assumes "hb_pending h = None" "hb_starting h = None" "hb_id h \<noteq> ''''" "c \<noteq> ''''" "c \<noteq> hb_id h"
    and "\<forall>e \<in> set es. \<exists>ev. e = Lives ev"
    and "begun = fst (hub_run level [StartReads, IdStored c, CallbackRuns answer, Registers st] h)"
  shows "\<exists>l. hb_target (fst (hub_run level es begun)) = Some l \<and> xs_connection_id (lv_session l) = hb_id h \<and>
    hb_id (fst (hub_run level es begun)) = c \<and> list_all (puts_connection (hb_id h)) (snd (hub_run level es begun))"
proof -
  have "hb_target begun = Some (started_session level st (hb_id h)) \<and> hb_id begun = c"
    using assms(1-4) unfolding assms(7) by (auto split: option.split prod.split)
  with lives_run [OF _ assms(6), of begun "started_session level st (hb_id h)" level]
  obtain l where "hb_target (fst (hub_run level es begun)) = Some l" "session_connection l = hb_id h"
    "hb_id (fst (hub_run level es begun)) = c" "list_all (puts_connection (hb_id h)) (snd (hub_run level es begun))"
    by auto
  then show ?thesis by (auto simp: session_connection_def)
qed

section \<open>Witnesses\<close>

definition demo_session_start :: session_start where
  "demo_session_start =
     \<lparr>ss_env = example_session_env, ss_rta = new_rta ''1'', ss_xuid = ''1'', ss_session_id = '''', ss_pmsg = ''p'',
      ss_nether_id = 5, ss_cfg = default_config, ss_players = \<lparr>ps_real = 1, ps_drift = None\<rparr>\<rparr>"

definition demo_hub_events :: "hub_event list" where
  "demo_hub_events =
     [IdStored ''c1'', CallbackRuns NoAnswer, StartReads, Registers demo_session_start,
      IdStored ''c2'', CallbackRuns (Answer 200 (Some ()))]"

text \<open>The id of a session after its callback ran, whatever else the session holds.\<close>

lemma demo_hub_run:
  "\<exists>l. hb_target (fst (hub_run (\<lambda>i. i) demo_hub_events new_hub)) = Some l \<and>
    hb_pending (fst (hub_run (\<lambda>i. i) demo_hub_events new_hub)) = None \<and>
    hb_id (fst (hub_run (\<lambda>i. i) demo_hub_events new_hub)) = ''c2''"
  by (auto simp: demo_hub_events_def new_hub_def split: prod.split)

theorem session_follows_connection_witness:
  "\<exists>l. hb_target (fst (hub_run (\<lambda>i. i) demo_hub_events new_hub)) = Some l \<and> xs_connection_id (lv_session l) = ''c2''"
proof -
  have d: "distinct ('''' # stored_ids demo_hub_events)" by (simp add: demo_hub_events_def stored_ids_def)
  have "no_callback_missed (\<lambda>i. i) demo_hub_events new_hub"
    by (simp add: demo_hub_events_def new_hub_def)
  from session_follows_connection [OF d this refl] demo_hub_run show ?thesis by auto
qed

theorem reconnect_in_startup_is_missed_witness:
  "\<exists>l. hb_target (fst (hub_run (\<lambda>i. i) [StartReads, IdStored ''c2'', CallbackRuns NoAnswer, Registers demo_session_start]
       (new_hub\<lparr>hb_id := ''c1''\<rparr>))) = Some l \<and> xs_connection_id (lv_session l) = ''c1''"
  using reconnect_in_startup_is_missed [of "new_hub\<lparr>hb_id := ''c1''\<rparr>" "''c2''" "[]", OF _ _ _ _ _ _ refl]
  by (simp add: new_hub_def)

end
