(* ===== verification/Friend_Accepts.thy ===== *)
theory Friend_Accepts
  imports Friend_Manager
begin

text \<open>
  The two goroutines of \<open>FriendManager\<close> (\<open>xbl/friends.go\<close>) together: \<open>Run\<close> puts the pending requests
  it finds into the queue, \<open>runQueue\<close> answers one after the other. What both do in an interleaved run
  is a list of \<open>friend_event\<close>; a request's place in the queue is the measure of how far its answer is.
\<close>

section \<open>Runs\<close>

text \<open>What the turns of \<open>runQueue\<close> send.\<close>

fun friend_actions ::
  "(string \<Rightarrow> instant option) \<Rightarrow> friend_event list \<Rightarrow> friend_manager \<Rightarrow> friend_action list" where
  "friend_actions http_date [] f = []"
| "friend_actions http_date (e # es) f =
     (case e of
        QueueTurn now answer \<Rightarrow> snd (queue_step http_date now answer f)
      | Round now answer \<Rightarrow> []) @ friend_actions http_date es (friend_step http_date f e)"

definition is_turn :: "friend_event \<Rightarrow> bool" where
  "is_turn e \<longleftrightarrow> (case e of QueueTurn now answer \<Rightarrow> True | Round now answer \<Rightarrow> False)"

definition turns :: "friend_event list \<Rightarrow> nat" where
  "turns es = length (filter is_turn es)"

definition has_token :: "friend_event \<Rightarrow> bool" where
  "has_token e \<longleftrightarrow> (case e of QueueTurn now answer \<Rightarrow> answer \<noteq> NoAuth | Round now answer \<Rightarrow> True)"

section \<open>The queue\<close>

lemma enqueue_queue:
  "fm_queue (enqueue f p) = (if length (fm_queue f) < friend_queue_capacity then fm_queue f @ [p] else fm_queue f)"
  by (simp add: enqueue_def)

lemma enqueued: "\<exists>qs. fm_queue (foldl enqueue f ps) = fm_queue f @ qs"
proof (induction ps arbitrary: f)
  case (Cons p ps)
  obtain qs where "fm_queue (foldl enqueue (enqueue f p) ps) = fm_queue (enqueue f p) @ qs" using Cons.IH by blast
  then show ?case by (auto simp: enqueue_queue)
qed simp

lemma enqueued_all:
  "length (fm_queue f) + length ps \<le> friend_queue_capacity \<Longrightarrow> fm_queue (foldl enqueue f ps) = fm_queue f @ ps"
  by (induction ps arbitrary: f) (simp_all add: enqueue_queue)

lemma round_appends: "\<exists>qs. fm_queue (friend_step http_date f (Round now answer)) = fm_queue f @ qs"
  using enqueued
  by (auto simp: friend_round_def check_pending_def set_retry_after_def Let_def
      split: people_answer.split option.split)

lemma turn_pops:
  "fm_queue f = q # qs \<Longrightarrow> fm_queue (friend_step http_date f (QueueTurn now answer)) = qs"
  by (auto simp: queue_step_def process_request_def set_retry_after_def split: accept_answer.split)

lemma turn_accepts:
  "fm_queue f = q # qs \<Longrightarrow> answer \<noteq> NoAuth \<Longrightarrow> Accept (fp_xuid q) \<in> set (snd (queue_step http_date now answer f))"
  by (auto simp: queue_step_def process_request_def split: accept_answer.split)

lemma turns_Cons: "turns (e # es) = (if is_turn e then Suc (turns es) else turns es)"
  by (simp add: turns_def)

text \<open>A request at place \<open>k\<close> is answered within \<open>k + 1\<close> turns, whatever is queued behind it.\<close>

lemma queued_request_answered:
  assumes "k < length (fm_queue f)" "k < turns es" "list_all has_token es"
  shows "Accept (fp_xuid (fm_queue f ! k)) \<in> set (friend_actions http_date es f)"
  using assms
proof (induction es arbitrary: f k)
  case Nil
  then show ?case by (simp add: turns_def)
next
  case (Cons e es)
  show ?case
  proof (cases e)
    case (Round now answer)
    obtain qs where q: "fm_queue (friend_step http_date f e) = fm_queue f @ qs"
      using round_appends [of http_date f now answer] Round by auto
    have "Accept (fp_xuid (fm_queue (friend_step http_date f e) ! k)) \<in> set (friend_actions http_date es (friend_step http_date f e))"
      using Cons.IH [of k "friend_step http_date f e"] Cons.prems q Round by (simp add: turns_Cons is_turn_def)
    then show ?thesis using q Cons.prems(1) by (simp add: nth_append)
  next
    case (QueueTurn now answer)
    obtain q qs where f: "fm_queue f = q # qs" using Cons.prems(1) by (cases "fm_queue f") auto
    note rest = turn_pops [OF f, of http_date now answer]
    show ?thesis
    proof (cases k)
      case 0
      with turn_accepts [OF f, of answer http_date now] Cons.prems(3) QueueTurn f show ?thesis
        by (simp add: has_token_def)
    next
      case (Suc j)
      have "Accept (fp_xuid (fm_queue (friend_step http_date f e) ! j)) \<in> set (friend_actions http_date es (friend_step http_date f e))"
        using Cons.IH [of j "friend_step http_date f e"] Cons.prems Suc rest f QueueTurn
        by (simp add: turns_Cons is_turn_def del: friend_step.simps)
      then show ?thesis using rest f Suc QueueTurn by (simp del: friend_step.simps)
    qed
  qed
qed

section \<open>Properties\<close>


text \<open>
  A scan that finds the queue full changes nothing: its requests are answered only when a later scan finds them again.
\<close>

theorem full_queue_drops:
  assumes "length (fm_queue f) = friend_queue_capacity" "wait_before_check now f = 0"
  shows "friend_step http_date f (Round now (People (Some ps))) = f"
proof -
  have "foldl enqueue f ps = f" using assms(1) by (induction ps) (simp_all add: enqueue_def)
  with assms(2) show ?thesis by (simp add: friend_round_def check_pending_def)
qed

section \<open>Witnesses\<close>

definition demo_pending :: "friend_person list" where
  "demo_pending = [\<lparr>fp_xuid = ''5'', fp_gamertag = ''Ann''\<rparr>, \<lparr>fp_xuid = ''6'', fp_gamertag = ''Bo''\<rparr>]"

lemma demo_wait: "wait_before_check 0 new_friend_manager = 0"
  by code_simp


theorem full_queue_drops_witness:
  "friend_step (\<lambda>s. None) (new_friend_manager\<lparr>fm_queue := replicate 64 \<lparr>fp_xuid = ''5'', fp_gamertag = ''Ann''\<rparr>\<rparr>)
     (Round 0 (People (Some demo_pending))) =
   new_friend_manager\<lparr>fm_queue := replicate 64 \<lparr>fp_xuid = ''5'', fp_gamertag = ''Ann''\<rparr>\<rparr>"
proof (rule full_queue_drops)
  show "wait_before_check 0 (new_friend_manager\<lparr>fm_queue := replicate 64 \<lparr>fp_xuid = ''5'', fp_gamertag = ''Ann''\<rparr>\<rparr>) = 0"
    using demo_wait by (simp add: wait_before_check_def)
qed (simp add: friend_queue_capacity_def)

end
