(* ===== verification/Social_Requests.thy ===== *)
theory Social_Requests
  imports Xbl_Requests Friend_Manager
begin

text \<open>
  The other requests that carry the account's Xbox Live token: friends (\<open>xbl/friends.go\<close>,
  \<open>addfriend.go\<close>, \<open>friendslist.go\<close>), presence (\<open>presence.go\<close> and \<open>checkOwnPresence\<close> of \<open>main.go\<close>) and
  profiles (\<open>profile.go\<close>); and all of them together with those of \<open>Xbl_Requests\<close>. XUIDs, gamertags and
  handles come from other accounts and are put into the URLs as they are.
\<close>

section \<open>Requests\<close>

definition pending_request :: "string \<Rightarrow> http_request" where
  "pending_request auth =
     \<lparr>hr_method = ''GET'', hr_url = ''https://peoplehub.xboxlive.com/users/me/people/friendrequests(received)'',
      hr_headers = [(''Authorization'', auth), (''x-xbl-contract-version'', ''7''), (''accept-language'', ''en-GB'')],
      hr_body = NoBody\<rparr>"

definition accept_request :: "xuid \<Rightarrow> string \<Rightarrow> http_request" where
  "accept_request x auth =
     \<lparr>hr_method = ''PUT'', hr_url = ''https://social.xboxlive.com/users/me/people/friends/v2/xuid('' @ x @ '')'',
      hr_headers = [(''Authorization'', auth)], hr_body = NoBody\<rparr>"

definition deny_request :: "xuid \<Rightarrow> string \<Rightarrow> http_request" where
  "deny_request x auth =
     \<lparr>hr_method = ''DELETE'', hr_url = ''https://social.xboxlive.com/users/me/people/xuid('' @ x @ '')'',
      hr_headers = [(''Authorization'', auth)], hr_body = NoBody\<rparr>"

definition add_friend_request :: "xuid \<Rightarrow> string \<Rightarrow> http_request" where
  "add_friend_request x auth =
     \<lparr>hr_method = ''PUT'', hr_url = ''https://social.xboxlive.com/users/me/people/friends/v2/xuid('' @ x @ '')'',
      hr_headers = [(''Authorization'', auth)], hr_body = NoBody\<rparr>"

definition list_friends_request :: "string \<Rightarrow> http_request" where
  "list_friends_request auth =
     \<lparr>hr_method = ''GET'', hr_url = ''https://social.xboxlive.com/users/me/people'',
      hr_headers = [(''Authorization'', auth), (''Accept'', ''application/json'')], hr_body = NoBody\<rparr>"

definition presence_request :: "xuid \<Rightarrow> string \<Rightarrow> http_request" where
  "presence_request x auth =
     \<lparr>hr_method = ''POST'',
      hr_url = ''https://userpresence.xboxlive.com/users/xuid('' @ x @ '')/devices/current/titles/current'',
      hr_headers = [(''Authorization'', auth), (''Content-Type'', ''application/json''),
                    (''x-xbl-contract-version'', ''3'')],
      hr_body = RawBody (''{'' @ [CHR 0x22] @ ''state'' @ [CHR 0x22] @ '': '' @ [CHR 0x22] @ ''active'' @ [CHR 0x22] @ ''}'')\<rparr>"

definition own_presence_request :: "xuid \<Rightarrow> string \<Rightarrow> http_request" where
  "own_presence_request x auth =
     \<lparr>hr_method = ''GET'', hr_url = ''https://userpresence.xboxlive.com/users/xuid('' @ x @ '')'',
      hr_headers = [(''Authorization'', auth), (''x-xbl-contract-version'', ''3''), (''Accept-Language'', ''en-US'')],
      hr_body = NoBody\<rparr>"

definition profile_base_url :: string where "profile_base_url = ''https://profile.xboxlive.com/users/''"

definition profile_request :: "string \<Rightarrow> string \<Rightarrow> http_request" where
  "profile_request selector auth =
     \<lparr>hr_method = ''GET'', hr_url = profile_base_url @ selector,
      hr_headers = [(''Authorization'', auth), (''x-xbl-contract-version'', ''3'')], hr_body = NoBody\<rparr>"

section \<open>Answering one friend request\<close>

text \<open>
  \<open>process\<close> with its calls: the token of the accept and its answer, and the token of the deny that
  may follow, which is asked for anew. \<open>sent\<close> is what went out; the flag says whether the people
  service's limit was met.
\<close>

datatype put_answer = PutLost | PutLimited | PutIsFriend bool

definition process_calls ::
  "xuid \<Rightarrow> string option \<Rightarrow> (http_request \<Rightarrow> put_answer) \<Rightarrow> string option \<Rightarrow> http_request list \<times> bool" where
  "process_calls x accept_token service deny_token =
     (case accept_token of
        None \<Rightarrow> ([], False)
      | Some auth \<Rightarrow>
          (let r = accept_request x auth;
               deny = (case deny_token of None \<Rightarrow> [] | Some auth \<Rightarrow> [deny_request x auth])
           in case service r of
                PutLost \<Rightarrow> (r # deny, False)
              | PutLimited \<Rightarrow> ([r], True)
              | PutIsFriend is_friend \<Rightarrow> (if is_friend then [r] else r # deny, False)))"

text \<open>The answer as \<open>process_request\<close> of \<open>Friend_Manager\<close> takes it.\<close>

definition accept_answer_of :: "string option \<Rightarrow> put_answer \<Rightarrow> string \<Rightarrow> accept_answer" where
  "accept_answer_of accept_token a retry_after =
     (if accept_token = None then NoAuth
      else (case a of
              PutLost \<Rightarrow> AcceptFailed
            | PutLimited \<Rightarrow> AcceptLimited retry_after
            | PutIsFriend is_friend \<Rightarrow> Accepts is_friend))"

fun action_request :: "string \<Rightarrow> friend_action \<Rightarrow> http_request" where
  "action_request auth (Accept x) = accept_request x auth"
| "action_request auth (Deny x) = deny_request x auth"

section \<open>Every call of the account\<close>

datatype account_call =
    PublishSession xbl_session
  | BindHandle xbl_session
  | SendInviteTo xbl_session xuid
  | FindWorlds "xuid list"
  | JoinByHandle xuid string string string
  | PendingRequests
  | AcceptFriend xuid
  | DenyFriend xuid
  | AddFriend xuid
  | ListPeople
  | Heartbeat xuid
  | OwnPresence xuid
  | ByGamertag string
  | ByXuid xuid

definition gamertag_selector :: "string \<Rightarrow> string" where
  "gamertag_selector gamertag = ''gt('' @ gamertag @ '')/profile/settings?settings=Gamertag''"

definition xuid_selector :: "xuid \<Rightarrow> string" where
  "xuid_selector x = ''xuid('' @ x @ '')/profile/settings?settings=Gamertag''"

fun account_request :: "account_call \<Rightarrow> string \<Rightarrow> http_request" where
  "account_request (PublishSession s) auth = put_request s auth"
| "account_request (BindHandle s) auth = handle_request s auth"
| "account_request (SendInviteTo s x) auth = invite_post s x auth"
| "account_request (FindWorlds xs) auth = activity_request xs auth"
| "account_request (JoinByHandle x conn uuid handle) auth = join_request x conn uuid handle auth"
| "account_request PendingRequests auth = pending_request auth"
| "account_request (AcceptFriend x) auth = accept_request x auth"
| "account_request (DenyFriend x) auth = deny_request x auth"
| "account_request (AddFriend x) auth = add_friend_request x auth"
| "account_request ListPeople auth = list_friends_request auth"
| "account_request (Heartbeat x) auth = presence_request x auth"
| "account_request (OwnPresence x) auth = own_presence_request x auth"
| "account_request (ByGamertag g) auth = profile_request (gamertag_selector g) auth"
| "account_request (ByXuid x) auth = profile_request (xuid_selector x) auth"

section \<open>Where a URL leads\<close>

text \<open>The host of an https URL: what stands between the scheme and the first slash.\<close>

definition https_host :: "string \<Rightarrow> string option" where
  "https_host url = map_option (takeWhile (\<lambda>c. c \<noteq> CHR 0x2F)) (cut_prefix url ''https://'')"

definition xbox_host :: "string \<Rightarrow> bool" where
  "xbox_host url \<longleftrightarrow> (case https_host url of None \<Rightarrow> False | Some host \<Rightarrow> has_suffix host ''.xboxlive.com'')"

lemma https_host_append:
  "CHR 0x2F \<notin> set host \<Longrightarrow> https_host (''https://'' @ host @ CHR 0x2F # rest) = Some host"
  unfolding https_host_def by (simp only: cut_prefix_append) (simp add: takeWhile_append)

lemma xbox_host_append:
  "CHR 0x2F \<notin> set sub \<Longrightarrow> xbox_host (''https://'' @ (sub @ ''.xboxlive.com'') @ CHR 0x2F # rest)"
  unfolding xbox_host_def
  by (subst https_host_append) (simp_all add: has_suffix_def suffix_def)

lemmas request_defs = put_request_def handle_request_def invite_post_def activity_request_def join_request_def
  pending_request_def accept_request_def deny_request_def add_friend_request_def list_friends_request_def
  presence_request_def own_presence_request_def profile_request_def json_headers_def

lemmas url_defs = session_url_def create_handle_url_def activity_handles_url_def join_by_handle_url_def
  profile_base_url_def

section \<open>What a server sees\<close>

text \<open>The part of a URL that is sent: the HTTP library keeps what follows a number sign to itself.\<close>

definition sent_url :: "string \<Rightarrow> string" where
  "sent_url url = takeWhile (\<lambda>c. c \<noteq> CHR 0x23) url"

section \<open>Properties\<close>


text \<open>
  What a turn of the queue sends is what \<open>process_request\<close> of the friend manager says it does, as far as
  there are tokens: without a second token the deny is missing.
\<close>

theorem process_sends_its_actions:
  assumes "accept_token = Some auth" "process_calls x accept_token service deny_token = (out, limited)"
    and "process_request http_date now (accept_answer_of accept_token (service (accept_request x auth)) retry_after)
      \<lparr>fp_xuid = x, fp_gamertag = g\<rparr> f = (f', acts)"
  shows "(deny_token = Some auth \<longrightarrow> out = map (action_request auth) acts) \<and>
    (deny_token = None \<longrightarrow> out = [accept_request x auth]) \<and>
    (limited \<longleftrightarrow> service (accept_request x auth) = PutLimited)"
  using assms
  by (cases "service (accept_request x auth)")
    (auto simp: process_calls_def process_request_def accept_answer_of_def Let_def split: if_splits)

theorem process_sends_its_actions_witness:
  "fst (process_calls ''5'' (Some ''t'') (\<lambda>r. PutIsFriend False) (Some ''t'')) = [accept_request ''5'' ''t'', deny_request ''5'' ''t'']"
proof -
  obtain out limited where c: "process_calls ''5'' (Some ''t'') (\<lambda>r. PutIsFriend False) (Some ''t'') = (out, limited)"
    by (cases "process_calls ''5'' (Some ''t'') (\<lambda>r. PutIsFriend False) (Some ''t'')")
  have "process_request (\<lambda>s. None) 0 (accept_answer_of (Some ''t'') (PutIsFriend False) '''')
      \<lparr>fp_xuid = ''5'', fp_gamertag = ''Ann''\<rparr> new_friend_manager = (new_friend_manager, [Accept ''5'', Deny ''5''])"
    by (simp add: process_request_def accept_answer_of_def)
  from process_sends_its_actions [OF refl c this] c show ?thesis by simp
qed

text \<open>
  Gamertags are put into the URL as they are: of a gamertag with a number sign, as the console shows it for a name
  that is not unique, only the part before the sign is asked for, and the rest of the path is not sent.
\<close>

theorem gamertag_is_cut_at_number_sign:
  assumes "CHR 0x23 \<notin> set a"
  shows "sent_url (hr_url (account_request (ByGamertag (a @ CHR 0x23 # b)) auth)) = profile_base_url @ ''gt('' @ a"
proof -
  have "CHR 0x23 \<notin> set (profile_base_url @ ''gt('' @ a)" using assms by (simp add: profile_base_url_def)
  then have "takeWhile (\<lambda>c. c \<noteq> CHR 0x23) ((profile_base_url @ ''gt('' @ a) @ CHR 0x23 # r) = profile_base_url @ ''gt('' @ a" for r
    by (subst takeWhile_append2) auto
  then show ?thesis by (simp add: sent_url_def profile_request_def gamertag_selector_def)
qed

theorem gamertag_is_cut_at_number_sign_witness:
  "sent_url (hr_url (account_request (ByGamertag (''Ann'' @ CHR 0x23 # ''1234'')) ''t'')) = ''https://profile.xboxlive.com/users/gt(Ann''"
  using gamertag_is_cut_at_number_sign [of "''Ann''" "''1234''" "''t''"] by (simp add: profile_base_url_def)

end
