(* ===== verification/Mutex.thy ===== *)
theory Mutex
  imports N2R_Prelude
begin

text \<open>
  Goroutines that share a state behind one \<open>sync.Mutex\<close>. A call is a program of single accesses,
  a schedule says which goroutine moves next. Shown here for all programs whose accesses stand
  between \<open>Lock\<close> and \<open>Unlock\<close>: what a schedule does is what the critical sections do one after
  another, in the order in which they got the mutex, and no schedule ends in a deadlock.
\<close>

section \<open>Programs and schedules\<close>

text \<open>
  \<open>Calls\<close> is a step that touches nothing shared, such as waiting for a service.
\<close>

datatype ('s, 'a) prog =
    Ret 'a
  | Acquire "('s, 'a) prog"
  | Release "('s, 'a) prog"
  | Reads "'s \<Rightarrow> ('s, 'a) prog"
  | Writes "'s \<Rightarrow> 's" "('s, 'a) prog"
  | Calls "('s, 'a) prog"

text \<open>A critical section with a deferred unlock, which runs whatever the body comes to.\<close>

definition with_lock :: "(('a \<Rightarrow> ('s, 'a) prog) \<Rightarrow> ('s, 'a) prog) \<Rightarrow> ('s, 'a) prog" where
  "with_lock body = Acquire (body (\<lambda>r. Release (Ret r)))"

text \<open>\<open>th_log\<close> records who got the mutex, in order.\<close>

record ('s, 'a) threads =
  th_holder :: "nat option"
  th_state :: 's
  th_progs :: "('s, 'a) prog list"
  th_log :: "nat list"

definition start_threads :: "'s \<Rightarrow> ('s, 'a) prog list \<Rightarrow> ('s, 'a) threads" where
  "start_threads s ps = \<lparr>th_holder = None, th_state = s, th_progs = ps, th_log = []\<rparr>"

definition goes_on :: "nat \<Rightarrow> ('s, 'a) prog \<Rightarrow> ('s, 'a) threads \<Rightarrow> ('s, 'a) threads" where
  "goes_on i p c = c\<lparr>th_progs := (th_progs c)[i := p]\<rparr>"

lemma goes_on_simps [simp]:
  "th_progs (goes_on i p c) = (th_progs c)[i := p]" "th_state (goes_on i p c) = th_state c"
  "th_holder (goes_on i p c) = th_holder c" "th_log (goes_on i p c) = th_log c"
  by (simp_all add: goes_on_def)

text \<open>
  One step of goroutine \<open>i\<close>; \<open>None\<close> when it has returned or has to wait. Go lets anyone unlock a
  locked mutex.
\<close>

definition thread_next :: "nat \<Rightarrow> ('s, 'a) threads \<Rightarrow> ('s, 'a) threads option" where
  "thread_next i c =
     (if i < length (th_progs c)
      then (case th_progs c ! i of
              Ret a \<Rightarrow> None
            | Acquire p \<Rightarrow>
                (if th_holder c = None then Some ((goes_on i p c)\<lparr>th_holder := Some i, th_log := th_log c @ [i]\<rparr>) else None)
            | Release p \<Rightarrow> (if th_holder c = None then None else Some ((goes_on i p c)\<lparr>th_holder := None\<rparr>))
            | Reads k \<Rightarrow> Some (goes_on i (k (th_state c)) c)
            | Writes u p \<Rightarrow> Some ((goes_on i p c)\<lparr>th_state := u (th_state c)\<rparr>)
            | Calls p \<Rightarrow> Some (goes_on i p c))
      else None)"

primrec run_schedule :: "nat list \<Rightarrow> ('s, 'a) threads \<Rightarrow> ('s, 'a) threads option" where
  "run_schedule [] c = Some c"
| "run_schedule (i # is) c = (case thread_next i c of None \<Rightarrow> None | Some c \<Rightarrow> run_schedule is c)"

lemma run_schedule_append:
  "run_schedule (is @ js) c = (case run_schedule is c of None \<Rightarrow> None | Some c \<Rightarrow> run_schedule js c)"
  by (induction "is" arbitrary: c) (auto split: option.split)

definition returned :: "('s, 'a) threads \<Rightarrow> bool" where
  "returned c \<longleftrightarrow> list_all (\<lambda>p. \<exists>a. p = Ret a) (th_progs c)"

section \<open>Discipline\<close>

text \<open>Every access under the mutex, no lock while it is held, none kept at the end.\<close>

primrec guarded :: "('s, 'a) prog \<Rightarrow> bool \<Rightarrow> bool" where
  "guarded (Ret a) h \<longleftrightarrow> \<not> h"
| "guarded (Acquire p) h \<longleftrightarrow> \<not> h \<and> guarded p True"
| "guarded (Release p) h \<longleftrightarrow> h \<and> guarded p False"
| "guarded (Reads k) h \<longleftrightarrow> h \<and> (\<forall>s. guarded (k s) True)"
| "guarded (Writes u p) h \<longleftrightarrow> h \<and> guarded p True"
| "guarded (Calls p) h \<longleftrightarrow> guarded p h"

text \<open>At most so many steps, whatever is read.\<close>

primrec fits :: "('s, 'a) prog \<Rightarrow> nat \<Rightarrow> bool" where
  "fits (Ret a) n \<longleftrightarrow> True"
| "fits (Acquire p) n \<longleftrightarrow> 0 < n \<and> fits p (n - 1)"
| "fits (Release p) n \<longleftrightarrow> 0 < n \<and> fits p (n - 1)"
| "fits (Reads k) n \<longleftrightarrow> 0 < n \<and> (\<forall>s. fits (k s) (n - 1))"
| "fits (Writes u p) n \<longleftrightarrow> 0 < n \<and> fits p (n - 1)"
| "fits (Calls p) n \<longleftrightarrow> 0 < n \<and> fits p (n - 1)"

text \<open>A critical section run to its unlock, and what is left once the calls outside are over.\<close>

primrec critical :: "('s, 'a) prog \<Rightarrow> 's \<Rightarrow> 's \<times> ('s, 'a) prog" where
  "critical (Ret a) s = (s, Ret a)"
| "critical (Acquire p) s = (s, Acquire p)"
| "critical (Release p) s = (s, p)"
| "critical (Reads k) s = critical (k s) s"
| "critical (Writes u p) s = critical p (u s)"
| "critical (Calls p) s = critical p s"

primrec settle :: "('s, 'a) prog \<Rightarrow> ('s, 'a) prog" where
  "settle (Ret a) = Ret a"
| "settle (Acquire p) = Acquire p"
| "settle (Release p) = Release p"
| "settle (Reads k) = Reads k"
| "settle (Writes u p) = Writes u p"
| "settle (Calls p) = settle p"

text \<open>The coarse machine: a turn of goroutine \<open>i\<close> is one whole critical section.\<close>

definition turn :: "'s \<times> ('s, 'a) prog list \<Rightarrow> nat \<Rightarrow> 's \<times> ('s, 'a) prog list" where
  "turn sp i =
     (case snd sp ! i of
        Acquire p \<Rightarrow> (let (s, q) = critical p (fst sp) in (s, (snd sp)[i := settle q]))
      | _ \<Rightarrow> sp)"

text \<open>Where the coarse machine stands: whoever holds the mutex has already finished its section.\<close>

definition coarse :: "('s, 'a) threads \<Rightarrow> 's \<times> ('s, 'a) prog list" where
  "coarse c =
     (case th_holder c of
        None \<Rightarrow> (th_state c, map settle (th_progs c))
      | Some i \<Rightarrow> (let (s, q) = critical (th_progs c ! i) (th_state c) in (s, (map settle (th_progs c))[i := settle q])))"

definition disciplined :: "('s, 'a) threads \<Rightarrow> bool" where
  "disciplined c \<longleftrightarrow>
     (\<forall>i < length (th_progs c). guarded (th_progs c ! i) (th_holder c = Some i)) \<and>
     (\<forall>i. th_holder c = Some i \<longrightarrow> i < length (th_progs c))"

lemma disciplined_at:
  "disciplined c \<Longrightarrow> i < length (th_progs c) \<Longrightarrow> guarded (th_progs c ! i) (th_holder c = Some i)"
  by (simp add: disciplined_def)

lemma disciplined_start: "list_all (\<lambda>p. guarded p False) ps \<Longrightarrow> disciplined (start_threads s ps)"
  by (simp add: disciplined_def start_threads_def list_all_length)

lemma thread_next_length: "thread_next i c = Some c' \<Longrightarrow> length (th_progs c') = length (th_progs c)"
  by (auto simp: thread_next_def split: if_splits prog.splits)

lemma thread_next_disciplined:
  assumes "disciplined c" "thread_next i c = Some c'"
  shows "disciplined c'"
proof -
  have i: "i < length (th_progs c)" using assms(2) by (simp add: thread_next_def split: if_splits)
  note g = disciplined_at [OF assms(1) i]
  have others: "j < length (th_progs c) \<Longrightarrow> guarded (th_progs c ! j) (th_holder c = Some j)" for j
    using assms(1) by (rule disciplined_at)
  have holder: "th_holder c = Some j \<Longrightarrow> j < length (th_progs c)" for j
    using assms(1) by (simp add: disciplined_def)
  show ?thesis
  proof (cases "th_progs c ! i")
    case (Acquire p)
    with assms(2) i g others show ?thesis
      by (fastforce simp: thread_next_def disciplined_def nth_list_update split: if_splits)
  next
    case (Release p)
    with assms(2) i g others show ?thesis
      by (fastforce simp: thread_next_def disciplined_def nth_list_update split: if_splits)
  next
    case (Reads k)
    with assms(2) i g others show ?thesis
      by (fastforce simp: thread_next_def disciplined_def nth_list_update)
  next
    case (Writes u p)
    with assms(2) i g others show ?thesis
      by (fastforce simp: thread_next_def disciplined_def nth_list_update)
  qed (use assms(2) i g others holder in \<open>auto simp: thread_next_def disciplined_def nth_list_update\<close>)
qed

text \<open>One step is a turn when it takes the mutex, and nothing on the coarse machine otherwise.\<close>

lemma thread_next_coarse:
  assumes "disciplined c" "thread_next i c = Some c'"
  shows "th_log c' = th_log c \<and> coarse c' = coarse c \<or> th_log c' = th_log c @ [i] \<and> coarse c' = turn (coarse c) i"
proof -
  have i: "i < length (th_progs c)" using assms(2) by (simp add: thread_next_def split: if_splits)
  note g = disciplined_at [OF assms(1) i]
  show ?thesis
  proof (cases "th_progs c ! i")
    case (Acquire p)
    with assms(2) i show ?thesis
      by (auto simp: thread_next_def coarse_def turn_def map_update split: if_splits prod.split)
  next
    case (Calls p)
    then have m: "map settle ((th_progs c)[i := p]) = map settle (th_progs c)"
      using i by (metis list_update_id map_update settle.simps(6))
    show ?thesis
    proof (cases "th_holder c")
      case None
      with Calls assms(2) i m show ?thesis by (auto simp: thread_next_def coarse_def)
    next
      case (Some j)
      with Calls assms(2) i m show ?thesis
        by (cases "j = i") (auto simp: thread_next_def coarse_def)
    qed
  qed (use assms(2) i g in \<open>auto simp: thread_next_def coarse_def map_update split: if_splits prod.split\<close>)
qed

lemma run_schedule_coarse:
  assumes "disciplined c" "run_schedule is c = Some c'"
  shows "disciplined c' \<and> (\<exists>js. th_log c' = th_log c @ js \<and> coarse c' = foldl turn (coarse c) js)"
  using assms
proof (induction "is" arbitrary: c)
  case (Cons i "is")
  from Cons.prems(2) obtain c1 where c1: "thread_next i c = Some c1" "run_schedule is c1 = Some c'"
    by (auto split: option.splits)
  from Cons.IH [OF thread_next_disciplined [OF Cons.prems(1) c1(1)] c1(2)]
  obtain js where js: "disciplined c'" "th_log c' = th_log c1 @ js" "coarse c' = foldl turn (coarse c1) js" by blast
  from thread_next_coarse [OF Cons.prems(1) c1(1)] show ?case
  proof
    assume "th_log c1 = th_log c \<and> coarse c1 = coarse c"
    with js show ?thesis by auto
  next
    assume "th_log c1 = th_log c @ [i] \<and> coarse c1 = turn (coarse c) i"
    with js have "th_log c' = th_log c @ i # js \<and> coarse c' = foldl turn (coarse c) (i # js)" by simp
    with js(1) show ?thesis by blast
  qed
qed auto

section \<open>Progress\<close>

lemma stuck_is_returned:
  assumes "disciplined c" "\<And>i. thread_next i c = None"
  shows "returned c"
proof -
  have holder: "th_holder c = None"
  proof (rule ccontr)
    assume "th_holder c \<noteq> None"
    then obtain i where i: "th_holder c = Some i" by auto
    with assms(1) have l: "i < length (th_progs c)" by (simp add: disciplined_def)
    from disciplined_at [OF assms(1) l] i l assms(2) [of i] show False
      by (auto simp: thread_next_def split: prog.splits)
  qed
  have "\<exists>a. th_progs c ! i = Ret a" if l: "i < length (th_progs c)" for i
    using disciplined_at [OF assms(1) l] holder l assms(2) [of i]
    by (auto simp: thread_next_def split: prog.splits)
  then show ?thesis by (simp add: returned_def list_all_length)
qed

lemma thread_next_fits:
  assumes "list_all2 fits (th_progs c) ns" "thread_next i c = Some c'"
  shows "\<exists>ms. list_all2 fits (th_progs c') ms \<and> Suc (sum_list ms) = sum_list ns"
proof -
  have i: "i < length (th_progs c)" using assms(2) by (simp add: thread_next_def split: if_splits)
  with assms(1) have l: "i < length ns" "fits (th_progs c ! i) (ns ! i)"
    by (auto simp: list_all2_lengthD list_all2_nthD)
  have p: "\<exists>p. th_progs c' = (th_progs c)[i := p] \<and> fits p (ns ! i - 1) \<and> 0 < ns ! i"
    using assms(2) i l(2) by (cases "th_progs c ! i") (auto simp: thread_next_def split: if_splits)
  then obtain p where "th_progs c' = (th_progs c)[i := p]" "fits p (ns ! i - 1)" "0 < ns ! i" by blast
  moreover from this l(1) have "Suc (sum_list (ns[i := ns ! i - 1])) = sum_list ns"
    using elem_le_sum_list [OF l(1)] by (simp add: sum_list_update)
  ultimately show ?thesis using assms(1) by (metis list_all2_update_cong)
qed

lemma run_schedule_bounded:
  assumes "list_all2 fits (th_progs c) ns" "run_schedule is c = Some c'"
  shows "length is \<le> sum_list ns"
  using assms
proof (induction "is" arbitrary: c ns)
  case (Cons i "is")
  from Cons.prems(2) obtain c1 where c1: "thread_next i c = Some c1" "run_schedule is c1 = Some c'"
    by (auto split: option.splits)
  from thread_next_fits [OF Cons.prems(1) c1(1)] obtain ms
    where "list_all2 fits (th_progs c1) ms" "Suc (sum_list ms) = sum_list ns" by blast
  with Cons.IH [OF _ c1(2)] show ?case by fastforce
qed simp

lemma every_schedule_ends:
  assumes "list_all (\<lambda>p. guarded p False \<and> fits p n) ps" "run_schedule is (start_threads s ps) = Some c"
  shows "length is \<le> n * length ps \<and> ((\<forall>i. thread_next i c = None) \<longrightarrow> returned c)"
proof -
  have d: "disciplined (start_threads s ps)"
    using assms(1) by (intro disciplined_start) (auto simp: list_all_iff)
  have "list_all2 fits (th_progs (start_threads s ps)) (replicate (length ps) n)"
    using assms(1) by (auto simp: start_threads_def list_all2_conv_all_nth list_all_length)
  from run_schedule_bounded [OF this assms(2)] have "length is \<le> n * length ps"
    by (simp add: sum_list_replicate mult.commute)
  with stuck_is_returned run_schedule_coarse [OF d assms(2)] show ?thesis by blast
qed

section \<open>Calls with one critical section\<close>

text \<open>Such a call does to the state what \<open>f\<close> does in one step, and returns what \<open>f\<close> returns.\<close>

definition once :: "('s, 'a) prog \<Rightarrow> ('s \<Rightarrow> 's \<times> 'a) \<Rightarrow> bool" where
  "once p f \<longleftrightarrow> (\<exists>b. p = Acquire b \<and>
     (\<forall>s. fst (critical b s) = fst (f s) \<and> settle (snd (critical b s)) = Ret (snd (f s))))"

text \<open>The state after the calls of \<open>order\<close>, one after another.\<close>

definition serially :: "('s \<Rightarrow> 's \<times> 'a) list \<Rightarrow> nat list \<Rightarrow> 's \<Rightarrow> 's" where
  "serially fs order s = foldl (\<lambda>s i. fst ((fs ! i) s)) s order"

lemma serially_append: "serially fs (xs @ [i]) s = fst ((fs ! i) (serially fs xs s))"
  by (simp add: serially_def)

definition serial_at :: "('s, 'a) prog list \<Rightarrow> ('s \<Rightarrow> 's \<times> 'a) list \<Rightarrow> 's \<Rightarrow> nat list \<Rightarrow> 's \<times> ('s, 'a) prog list \<Rightarrow> bool" where
  "serial_at ps fs s log sp \<longleftrightarrow>
     distinct log \<and> set log \<subseteq> {..<length ps} \<and> fst sp = serially fs log s \<and> length (snd sp) = length ps \<and>
     (\<forall>i < length ps. i \<notin> set log \<longrightarrow> snd sp ! i = ps ! i) \<and>
     (\<forall>k < length log. snd sp ! (log ! k) = Ret (snd ((fs ! (log ! k)) (serially fs (take k log) s))))"

lemma serial_at_turn:
  assumes "list_all2 once ps fs" "serial_at ps fs s log sp" "i < length ps" "i \<notin> set log"
  shows "serial_at ps fs s (log @ [i]) (turn sp i)"
proof -
  have "once (ps ! i) (fs ! i)" using assms(1,3) by (rule list_all2_nthD)
  then obtain b where b: "ps ! i = Acquire b" "\<And>s. fst (critical b s) = fst ((fs ! i) s)"
    "\<And>s. settle (snd (critical b s)) = Ret (snd ((fs ! i) s))" by (auto simp: once_def)
  have at: "snd sp ! i = Acquire b" using assms(2-4) b(1) by (simp add: serial_at_def)
  have t: "turn sp i = (fst ((fs ! i) (fst sp)), (snd sp)[i := Ret (snd ((fs ! i) (fst sp)))])"
    using b(2,3) [of "fst sp"] by (simp add: turn_def at case_prod_unfold Let_def)
  have ne: "log ! k \<noteq> i" if "k < length log" for k using assms(4) that by (metis nth_mem)
  show ?thesis
    using assms(2-4) ne unfolding serial_at_def t
    by (auto simp: serially_append nth_append nth_list_update less_Suc_eq)
qed

lemma serial_at_holds:
  assumes "list_all2 once ps fs" "disciplined c" "serial_at ps fs s (th_log c) (coarse c)"
    and "run_schedule is c = Some c'"
  shows "serial_at ps fs s (th_log c') (coarse c')"
  using assms(2-4)
proof (induction "is" arbitrary: c)
  case (Cons i "is")
  from Cons.prems(3) obtain c1 where c1: "thread_next i c = Some c1" "run_schedule is c1 = Some c'"
    by (auto split: option.splits)
  have i: "i < length (th_progs c)" using c1(1) by (simp add: thread_next_def split: if_splits)
  have l: "length (snd (coarse c)) = length (th_progs c)"
    by (simp add: coarse_def case_prod_unfold Let_def split: option.split)
  have "serial_at ps fs s (th_log c1) (coarse c1)"
    using thread_next_coarse [OF Cons.prems(1) c1(1)]
  proof
    assume n: "th_log c1 = th_log c @ [i] \<and> coarse c1 = turn (coarse c) i"
    then obtain p where a: "th_progs c ! i = Acquire p" "th_holder c = None"
      using c1(1) by (auto simp: thread_next_def split: if_splits prog.splits)
    then have "snd (coarse c) ! i = Acquire p" using i by (simp add: coarse_def)
    then have "i \<notin> set (th_log c)" using Cons.prems(2) by (auto simp: serial_at_def in_set_conv_nth)
    moreover have "i < length ps" using Cons.prems(2) i l by (simp add: serial_at_def)
    ultimately show ?thesis using serial_at_turn [OF assms(1) Cons.prems(2)] n by simp
  qed (use Cons.prems(2) in simp)
  from Cons.IH [OF thread_next_disciplined [OF Cons.prems(1) c1(1)] this c1(2)] show ?case .
qed simp

lemma once_settled: "once p f \<Longrightarrow> settle p = p"
  by (auto simp: once_def)

lemma serial_at_start:
  assumes "list_all2 once ps fs"
  shows "serial_at ps fs s (th_log (start_threads s ps)) (coarse (start_threads s ps))"
proof -
  have "map settle ps ! i = ps ! i" if "i < length ps" for i
    using once_settled list_all2_nthD [OF assms that] that by simp
  then show ?thesis by (simp add: serial_at_def coarse_def start_threads_def serially_def)
qed

text \<open>
  When all have returned, each had the mutex once, and state and results are those of the calls one
  after another in that order.
\<close>

lemma schedules_are_serial:
  assumes "list_all2 once ps fs" "list_all (\<lambda>p. guarded p False) ps"
    and "run_schedule is (start_threads s ps) = Some c" "returned c"
  shows "distinct (th_log c) \<and> set (th_log c) = {..<length ps} \<and> th_state c = serially fs (th_log c) s \<and>
    (\<forall>k < length ps. th_progs c ! (th_log c ! k) =
       Ret (snd ((fs ! (th_log c ! k)) (serially fs (take k (th_log c)) s))))"
proof -
  have d: "disciplined (start_threads s ps)" using assms(2) by (rule disciplined_start)
  from run_schedule_coarse [OF d assms(3)] have d': "disciplined c" by blast
  have ret: "\<exists>a. th_progs c ! i = Ret a" if "i < length (th_progs c)" for i
    using assms(4) that by (simp add: returned_def list_all_length)
  have h: "th_holder c = None"
  proof (rule ccontr)
    assume "th_holder c \<noteq> None"
    then obtain i where i: "th_holder c = Some i" by auto
    with d' have l: "i < length (th_progs c)" by (simp add: disciplined_def)
    from disciplined_at [OF d' l] i ret [OF l] show False by auto
  qed
  have "map settle (th_progs c) = th_progs c"
    using ret by (intro nth_equalityI) (fastforce dest: ret)+
  with h have co: "coarse c = (th_state c, th_progs c)" by (simp add: coarse_def)
  from serial_at_holds [OF assms(1) d serial_at_start [OF assms(1)] assms(3)]
  have at: "serial_at ps fs s (th_log c) (th_state c, th_progs c)" by (simp add: co)
  have "i \<in> set (th_log c)" if "i < length ps" for i
  proof (rule ccontr)
    assume "i \<notin> set (th_log c)"
    with at that have "th_progs c ! i = ps ! i" "i < length (th_progs c)" by (auto simp: serial_at_def)
    moreover have "once (ps ! i) (fs ! i)" using assms(1) that by (rule list_all2_nthD)
    ultimately show False using ret by (fastforce simp: once_def)
  qed
  with at have s: "set (th_log c) = {..<length ps}" by (auto simp: serial_at_def)
  with at have "length (th_log c) = length ps"
    by (metis card_lessThan distinct_card serial_at_def)
  with at s show ?thesis by (simp add: serial_at_def)
qed

end
