(* ===== verification/Session_Locks.thy ===== *)
theory Session_Locks
  imports Mutex Sign_In
begin

text \<open>
  \<open>session/session.go\<close> access by access: the methods of \<open>Session\<close> as programs of \<open>Mutex\<close>, each
  read and write of a field under \<open>s.mu\<close> a step of its own, each call to a service a step that
  lets the others go on. \<open>Session_Tokens\<close> and \<open>Sign_In\<close> have the same methods as one step each; here it is shown
  that this is what they amount to when goroutines call them at the same time, and that none waits for ever.
\<close>

section \<open>Bodies\<close>

type_synonym 'r token_prog = "(auth_session, 'r) prog"

text \<open>\<open>tokenLocked\<close>.\<close>

definition token_body ::
  "(live_token \<Rightarrow> bool) \<Rightarrow> services \<Rightarrow> (live_token option \<Rightarrow> 'r token_prog) \<Rightarrow> 'r token_prog" where
  "token_body live_valid sv k =
     Reads (\<lambda>s. if (case as_tok s of None \<Rightarrow> False | Some t \<Rightarrow> live_valid t)
       then Reads (\<lambda>s. k (as_tok s))
       else Calls (case sv_live sv of
                     None \<Rightarrow> k None
                   | Some t \<Rightarrow> Writes (as_tok_update (\<lambda>_. Some t)) (Reads (\<lambda>s. k (as_tok s)))))"

text \<open>
  \<open>loginWithPlayfabLocked\<close>: the token source that is handed to \<open>Login\<close> is \<open>lockedTokenSource\<close>,
  which runs \<open>tokenLocked\<close> inside the section.
\<close>

definition playfab_login_body ::
  "(live_token \<Rightarrow> bool) \<Rightarrow> services \<Rightarrow> (bool \<Rightarrow> 'r token_prog) \<Rightarrow> 'r token_prog" where
  "playfab_login_body live_valid sv k =
     (let answered = Calls (Writes (as_playfab_update (\<lambda>_. fst (sv_login sv))) (k (\<not> snd (sv_login sv))))
      in if sv_login_asks sv then token_body live_valid sv (\<lambda>t. answered) else answered)"

text \<open>\<open>playfabIdentityLocked\<close>.\<close>

definition identity_body ::
  "(live_token \<Rightarrow> bool) \<Rightarrow> instant \<Rightarrow> services \<Rightarrow> (playfab_identity option outcome \<Rightarrow> 'r token_prog) \<Rightarrow> 'r token_prog" where
  "identity_body live_valid now sv k =
     Reads (\<lambda>s. case as_playfab s of
         None \<Rightarrow> k Panics
       | Some p \<Rightarrow>
           (if past_expiration_time now (pi_expiration p)
            then playfab_login_body live_valid sv (\<lambda>ok. if ok then Reads (\<lambda>s. k (Returns (as_playfab s))) else k Fails)
            else Reads (\<lambda>s. k (Returns (as_playfab s)))))"

text \<open>\<open>obtainMcTokenLocked\<close>.\<close>

definition obtain_body ::
  "(live_token \<Rightarrow> bool) \<Rightarrow> instant \<Rightarrow> services \<Rightarrow> (unit outcome \<Rightarrow> 'r token_prog) \<Rightarrow> 'r token_prog" where
  "obtain_body live_valid now sv k =
     identity_body live_valid now sv (\<lambda>r. case r of
         Panics \<Rightarrow> k Panics
       | Fails \<Rightarrow> k Fails
       | Returns None \<Rightarrow> k Panics
       | Returns (Some p) \<Rightarrow>
           Writes (as_user_token_update (\<lambda>_. pi_ticket p))
             (Calls (case sv_mc sv (pi_ticket p) of
                None \<Rightarrow> k Fails
              | Some t \<Rightarrow> Writes (as_mc_update (\<lambda>_. Some t)) (k (Returns ())))))"

text \<open>What \<open>MCToken\<close> and \<open>ForceRefreshMCToken\<close> return at their end: the field, which may be nil.\<close>

definition return_mc :: "(service_token option outcome \<Rightarrow> 'r token_prog) \<Rightarrow> unit outcome \<Rightarrow> 'r token_prog" where
  "return_mc k r =
     (case r of Panics \<Rightarrow> k Panics | Fails \<Rightarrow> k Fails | Returns u \<Rightarrow> Reads (\<lambda>s. k (Returns (as_mc s))))"

definition mc_token_body ::
  "(live_token \<Rightarrow> bool) \<Rightarrow> instant \<Rightarrow> services \<Rightarrow> (service_token option outcome \<Rightarrow> 'r token_prog) \<Rightarrow> 'r token_prog" where
  "mc_token_body live_valid now sv k =
     Reads (\<lambda>s. if (case as_mc s of None \<Rightarrow> True | Some t \<Rightarrow> past_expiration_time now (mt_valid_until t))
       then obtain_body live_valid now sv (return_mc k)
       else Reads (\<lambda>s. k (Returns (as_mc s))))"

section \<open>Methods\<close>

datatype session_call = TokenCall | IdentityCall | McTokenCall | ForceRefreshCall | McJwtCall string | XblCall string | UriCall

datatype session_result =
    LiveResult "live_token option"
  | IdentityResult "playfab_identity option outcome"
  | McResult "service_token option outcome"
  | JwtResult "string outcome"
  | XblResult "string option"
  | UriResult string

text \<open>
  \<open>issue token key\<close> and \<open>request_xbl token party\<close> answer what \<open>MultiplayerToken\<close> and
  \<open>RequestXBLToken\<close> ask for after they have let go of the mutex. \<open>RequestXBLToken\<close> takes it a second
  time, to read the token cache. \<open>tw_uri\<close> is the URI of the discovered environment.
\<close>

record token_world =
  tw_valid :: "live_token \<Rightarrow> bool"
  tw_issue :: "service_token \<Rightarrow> string \<Rightarrow> string option"
  tw_request_xbl :: "live_token \<Rightarrow> string \<Rightarrow> string option"
  tw_uri :: "string option"

definition mc_jwt :: "token_world \<Rightarrow> string \<Rightarrow> service_token option outcome \<Rightarrow> string outcome" where
  "mc_jwt w key r =
     (case r of
        Panics \<Rightarrow> Panics
      | Fails \<Rightarrow> Fails
      | Returns None \<Rightarrow> Panics
      | Returns (Some t) \<Rightarrow> (case tw_issue w t key of None \<Rightarrow> Fails | Some jwt \<Rightarrow> Returns jwt))"

fun method_prog :: "token_world \<Rightarrow> instant \<times> services \<times> session_call \<Rightarrow> session_result token_prog" where
  "method_prog w (now, sv, TokenCall) = with_lock (\<lambda>ret. token_body (tw_valid w) sv (\<lambda>t. ret (LiveResult t)))"
| "method_prog w (now, sv, IdentityCall) =
     with_lock (\<lambda>ret. identity_body (tw_valid w) now sv (\<lambda>r. ret (IdentityResult r)))"
| "method_prog w (now, sv, McTokenCall) =
     with_lock (\<lambda>ret. mc_token_body (tw_valid w) now sv (\<lambda>r. ret (McResult r)))"
| "method_prog w (now, sv, ForceRefreshCall) =
     with_lock (\<lambda>ret. obtain_body (tw_valid w) now sv (return_mc (\<lambda>r. ret (McResult r))))"
| "method_prog w (now, sv, McJwtCall key) =
     Acquire (mc_token_body (tw_valid w) now sv (\<lambda>r. Release (Calls (Ret (JwtResult (mc_jwt w key r))))))"
| "method_prog w (now, sv, XblCall party) =
     Acquire (token_body (tw_valid w) sv (\<lambda>t. Release
       (case t of
          None \<Rightarrow> Ret (XblResult None)
        | Some t \<Rightarrow> Acquire (Reads (\<lambda>s. Release (Calls (Ret (XblResult (tw_request_xbl w t party)))))))))"
| "method_prog w (now, sv, UriCall) = with_lock (\<lambda>ret. Reads (\<lambda>s. ret (UriResult (authorization_service_uri (tw_uri w)))))"

lemmas body_defs = token_body_def playfab_login_body_def identity_body_def obtain_body_def return_mc_def mc_token_body_def
  with_lock_def

section \<open>One step each\<close>

text \<open>The same methods as steps of \<open>Session_Tokens\<close> and \<open>Sign_In\<close>. A nil Minecraft token is never returned.\<close>

fun method_step :: "token_world \<Rightarrow> instant \<times> services \<times> session_call \<Rightarrow> auth_session \<Rightarrow> auth_session \<times> session_result" where
  "method_step w (now, sv, TokenCall) s = apsnd LiveResult (token_locked (tw_valid w) sv s)"
| "method_step w (now, sv, IdentityCall) s = apsnd IdentityResult (playfab_identity_call (tw_valid w) now sv s)"
| "method_step w (now, sv, McTokenCall) s = apsnd (McResult \<circ> map_outcome Some) (mc_token (tw_valid w) now sv s)"
| "method_step w (now, sv, ForceRefreshCall) s =
     apsnd (McResult \<circ> map_outcome Some) (force_refresh_mc_token (tw_valid w) now sv s)"
| "method_step w (now, sv, McJwtCall key) s =
     apsnd JwtResult (multiplayer_token (tw_valid w) (tw_issue w) now sv key s)"
| "method_step w (now, sv, XblCall party) s =
     apsnd XblResult (request_xbl_token (tw_valid w) (tw_request_xbl w) sv party s)"
| "method_step w (now, sv, UriCall) s = (s, UriResult (authorization_service_uri (tw_uri w)))"

lemma critical_token:
  "critical (token_body live_valid sv k) s =
     critical (k (snd (token_locked live_valid sv s))) (fst (token_locked live_valid sv s))"
  by (auto simp: token_body_def token_locked_def split: option.split)

lemma critical_login:
  "critical (playfab_login_body live_valid sv k) s =
     critical (k (snd (login_with_playfab live_valid sv s))) (fst (login_with_playfab live_valid sv s))"
  by (simp add: playfab_login_body_def login_with_playfab_def critical_token case_prod_unfold Let_def)

lemma critical_identity:
  "critical (identity_body live_valid now sv k) s =
     critical (k (snd (playfab_identity_locked live_valid now sv s))) (fst (playfab_identity_locked live_valid now sv s))"
  by (auto simp: identity_body_def playfab_identity_locked_def critical_login case_prod_unfold Let_def split: option.split)

lemma critical_obtain:
  "critical (obtain_body live_valid now sv (return_mc k)) s =
     critical (k (map_outcome Some (snd (obtain_mc_token live_valid now sv s)))) (fst (obtain_mc_token live_valid now sv s))"
  by (cases "playfab_identity_locked live_valid now sv s")
    (auto simp: obtain_body_def obtain_mc_token_def critical_identity return_mc_def Let_def split: outcome.split option.split)

lemma critical_mc_token:
  "critical (mc_token_body live_valid now sv k) s =
     critical (k (map_outcome Some (snd (mc_token live_valid now sv s)))) (fst (mc_token live_valid now sv s))"
  by (auto simp: mc_token_body_def mc_token_def critical_obtain split: option.split)

section \<open>Discipline of the bodies\<close>

lemma guarded_token [simp]: "guarded (token_body live_valid sv k) True" if "\<And>t. guarded (k t) True"
  using that by (simp add: token_body_def split: option.split)

lemma guarded_login [simp]: "guarded (playfab_login_body live_valid sv k) True" if "\<And>ok. guarded (k ok) True"
  using that by (simp add: playfab_login_body_def Let_def)

lemma guarded_identity [simp]: "guarded (identity_body live_valid now sv k) True" if "\<And>r. guarded (k r) True"
  using that by (simp add: identity_body_def split: option.split)

lemma guarded_obtain [simp]: "guarded (obtain_body live_valid now sv k) True" if "\<And>r. guarded (k r) True"
  unfolding obtain_body_def
  by (rule guarded_identity) (use that in \<open>simp split: outcome.split option.split\<close>)

lemma guarded_return_mc [simp]: "guarded (return_mc k r) True" if "\<And>r. guarded (k r) True"
  using that by (simp add: return_mc_def split: outcome.split)

lemma guarded_mc_token [simp]: "guarded (mc_token_body live_valid now sv k) True" if "\<And>r. guarded (k r) True"
  using that by (simp add: mc_token_body_def)

lemma method_guarded: "guarded (method_prog w c) False"
proof -
  obtain now sv call where c: "c = (now, sv, call)" by (cases c)
  show ?thesis by (cases call) (simp_all add: c with_lock_def split: option.split)
qed

text \<open>At most so many steps in a section, and then those of what follows it.\<close>

lemma fits_token: "fits (token_body live_valid sv k) m" if "n + 4 \<le> m" "\<And>t m. n \<le> m \<Longrightarrow> fits (k t) m"
  using that by (simp add: token_body_def split: option.split)

lemma fits_login: "fits (playfab_login_body live_valid sv k) m" if "n + 6 \<le> m" "\<And>ok m. n \<le> m \<Longrightarrow> fits (k ok) m"
  using that by (auto simp: playfab_login_body_def Let_def intro!: fits_token [of "n + 2"])

lemma fits_identity: "fits (identity_body live_valid now sv k) m" if "n + 8 \<le> m" "\<And>r m. n \<le> m \<Longrightarrow> fits (k r) m"
  using that by (auto simp: identity_body_def intro!: fits_login [of "n + 1"] split: option.split)

lemma fits_obtain: "fits (obtain_body live_valid now sv k) m" if "n + 11 \<le> m" "\<And>r m. n \<le> m \<Longrightarrow> fits (k r) m"
  unfolding obtain_body_def
  by (rule fits_identity [of "n + 3"]) (use that in \<open>simp_all split: outcome.split option.split\<close>)

lemma fits_return_mc: "fits (return_mc k r) m" if "n + 1 \<le> m" "\<And>r m. n \<le> m \<Longrightarrow> fits (k r) m"
  using that by (simp add: return_mc_def split: outcome.split)

lemma fits_mc_token: "fits (mc_token_body live_valid now sv k) m" if "n + 13 \<le> m" "\<And>r m. n \<le> m \<Longrightarrow> fits (k r) m"
  using that by (auto simp: mc_token_body_def intro!: fits_obtain [of "n + 1"] fits_return_mc [of n])

text \<open>Sixteen steps are enough for every method.\<close>

definition method_steps :: nat where "method_steps = 16"

lemma method_fits: "fits (method_prog w c) method_steps"
proof -
  obtain now sv call where c: "c = (now, sv, call)" by (cases c)
  have r: "fits (Release (Ret a)) m" if "1 \<le> m" for m and a :: session_result using that by simp
  have b: "fits (Release (Calls (Ret a))) m" if "2 \<le> m" for m and a :: session_result using that by simp
  show ?thesis
  proof (cases call)
    case TokenCall
    have "fits (token_body (tw_valid w) sv (\<lambda>t. Release (Ret (LiveResult t)))) 15"
      by (rule fits_token [of 1]) simp_all
    with TokenCall c show ?thesis by (simp add: with_lock_def method_steps_def)
  next
    case IdentityCall
    have "fits (identity_body (tw_valid w) now sv (\<lambda>r. Release (Ret (IdentityResult r)))) 15"
      by (rule fits_identity [of 1]) simp_all
    with IdentityCall c show ?thesis by (simp add: with_lock_def method_steps_def)
  next
    case McTokenCall
    have "fits (mc_token_body (tw_valid w) now sv (\<lambda>r. Release (Ret (McResult r)))) 15"
      by (rule fits_mc_token [of 1]) simp_all
    with McTokenCall c show ?thesis by (simp add: with_lock_def method_steps_def)
  next
    case ForceRefreshCall
    have "fits (obtain_body (tw_valid w) now sv (return_mc (\<lambda>r. Release (Ret (McResult r))))) 15"
      by (rule fits_obtain [of 2], simp) (rule fits_return_mc [of 1], simp_all)
    with ForceRefreshCall c show ?thesis by (simp add: with_lock_def method_steps_def)
  next
    case (McJwtCall key)
    have "fits (mc_token_body (tw_valid w) now sv (\<lambda>r. Release (Calls (Ret (JwtResult (mc_jwt w key r)))))) 15"
      by (rule fits_mc_token [of 2]) simp_all
    with McJwtCall c show ?thesis by (simp add: method_steps_def)
  next
    case (XblCall party)
    have "fits (token_body (tw_valid w) sv (\<lambda>t. Release (case t of None \<Rightarrow> Ret (XblResult None)
        | Some t \<Rightarrow> Acquire (Reads (\<lambda>s. Release (Calls (Ret (XblResult (tw_request_xbl w t party))))))))) 15"
      by (rule fits_token [of 5]) (simp_all split: option.split)
    with XblCall c show ?thesis by (simp add: method_steps_def)
  qed (simp add: c with_lock_def method_steps_def)
qed

section \<open>Properties\<close>

text \<open>
  C32: However the calls of the methods of one session overlap, no call waits for ever: a schedule
  has at most sixteen steps for each call, and when nobody can go on any more all have returned.
\<close>

theorem overlapping_calls_return:
  assumes "run_schedule is (start_threads s (map (method_prog w) calls)) = Some c"
  shows "length is \<le> 16 * length calls \<and> ((\<forall>i. thread_next i c = None) \<longrightarrow> returned c)"
proof -
  have "list_all (\<lambda>p. guarded p False \<and> fits p method_steps) (map (method_prog w) calls)"
    by (simp add: list_all_iff method_guarded method_fits)
  from every_schedule_ends [OF this assms] show ?thesis by (simp add: method_steps_def)
qed

text \<open>The methods that take the mutex once: all but \<open>RequestXBLToken\<close>.\<close>

definition locks_once :: "instant \<times> services \<times> session_call \<Rightarrow> bool" where
  "locks_once c \<longleftrightarrow> (case snd (snd c) of XblCall party \<Rightarrow> False | _ \<Rightarrow> True)"

lemma method_once:
  assumes "locks_once c"
  shows "once (method_prog w c) (method_step w c)"
proof -
  obtain now sv call where c: "c = (now, sv, call)" by (cases c)
  show ?thesis
  proof (cases call)
    case (McJwtCall key)
    then show ?thesis
      by (simp add: c once_def critical_mc_token multiplayer_token_def mc_jwt_def split: prod.split outcome.split option.split)
  qed (use assms in \<open>simp_all add: c once_def with_lock_def critical_token critical_identity critical_mc_token critical_obtain
      force_refresh_mc_token_def playfab_identity_call_def locks_once_def\<close>)
qed


section \<open>Witnesses\<close>

text \<open>
  A logged-in session; \<open>MultiplayerToken\<close> lets go of the mutex and waits for the service, \<open>Token\<close>
  comes in between.
\<close>

definition demo_world :: token_world where
  "demo_world =
     \<lparr>tw_valid = (\<lambda>t. True), tw_issue = (\<lambda>t key. Some (mt_header t @ key)), tw_request_xbl = (\<lambda>t party. Some party),
      tw_uri = Some ''u''\<rparr>"

definition demo_logged_in :: auth_session where
  "demo_logged_in =
     \<lparr>as_tok = Some \<lparr>lt_access = ''l'', lt_expiry = 100\<rparr>,
      as_playfab = Some \<lparr>pi_ticket = ''p'', pi_expiration = hour\<rparr>,
      as_mc = Some \<lparr>mt_header = ''h'', mt_valid_until = 4 * hour\<rparr>, as_user_token = ''p'', as_ready = True\<rparr>"

definition demo_calls :: "(instant \<times> services \<times> session_call) list" where
  "demo_calls = [(0, example_services, McJwtCall ''k''), (0, example_services, TokenCall)]"

definition demo_end :: "(auth_session, session_result) threads" where
  "demo_end =
     \<lparr>th_holder = None, th_state = demo_logged_in,
      th_progs = [Ret (JwtResult (Returns ''hk'')), Ret (LiveResult (as_tok demo_logged_in))], th_log = [0, 1]\<rparr>"

lemma demo_schedule:
  "run_schedule [0, 0, 0, 0, 1, 1, 0, 1, 1] (start_threads demo_logged_in (map (method_prog demo_world) demo_calls)) =
   Some demo_end"
  by (simp add: demo_calls_def demo_end_def demo_world_def demo_logged_in_def start_threads_def thread_next_def goes_on_def
      body_defs mc_jwt_def past_expiration_time_def expiration_time_delta_def hour_def minute_def second_def)

theorem overlapping_calls_return_witness:
  "length [0, 0, 0, 0, 1, 1, 0, 1, 1 :: nat] \<le> 16 * length demo_calls \<and> returned demo_end"
proof -
  have "thread_next i demo_end = None" for i
    by (cases i) (auto simp: thread_next_def demo_end_def nth_Cons split: nat.split)
  with overlapping_calls_return [OF demo_schedule] show ?thesis by blast
qed


end
