(* ===== verification/Publish_Race.thy ===== *)
theory Publish_Race
  imports Xbl_Requests
begin

text \<open>
  Two goroutines publish the document of one session: the update loop of \<open>runSession\<close>
  (\<open>main.go\<close>) on its tickers, and the read loop of the RTA connection, whose callbacks refresh the nonces
  (\<open>RefreshNonces\<close> of \<open>xbl/session.go\<close>) or set a new connection id. \<open>buildRequest\<close> reads the
  settings, the nonces and the connection id each under a mutex of its own, and nothing orders the requests of
  the two goroutines. The directory shows the document that reached it last.
\<close>

section \<open>State and steps\<close>

text \<open>
  Where an \<open>Update\<close> stands: it has read nothing yet, the settings, the nonces too, or it has built its
  request, which waits for a token and is on its way.
\<close>

datatype update_stage =
    Idle
  | Starts
  | ReadCfg world_info
  | ReadNonces world_info "(xuid \<times> string) list"
  | Sends session_request

datatype publisher = UpdateLoop | RtaLoop

record publishing =
  pb_session :: xbl_session
  pb_update_loop :: update_stage
  pb_rta_loop :: update_stage
  pb_document :: "session_request option"

datatype publish_event =
    Tick world_info
  | MembersRead "xuid \<Rightarrow> string" "member list"
  | Reconnected string
  | Goes publisher
  | Loses publisher

definition stage_of :: "publisher \<Rightarrow> publishing \<Rightarrow> update_stage" where
  "stage_of g p = (case g of UpdateLoop \<Rightarrow> pb_update_loop p | RtaLoop \<Rightarrow> pb_rta_loop p)"

definition set_stage :: "publisher \<Rightarrow> update_stage \<Rightarrow> publishing \<Rightarrow> publishing" where
  "set_stage g st p = (case g of UpdateLoop \<Rightarrow> p\<lparr>pb_update_loop := st\<rparr> | RtaLoop \<Rightarrow> p\<lparr>pb_rta_loop := st\<rparr>)"

text \<open>One read of \<open>buildRequest\<close>, or the arrival of the request.\<close>

definition update_goes :: "publisher \<Rightarrow> publishing \<Rightarrow> publishing" where
  "update_goes g p =
     (let s = pb_session p
      in case stage_of g p of
           Idle \<Rightarrow> p
         | Starts \<Rightarrow> set_stage g (ReadCfg (xs_cfg s)) p
         | ReadCfg cfg \<Rightarrow> set_stage g (ReadNonces cfg (xs_nonces s)) p
         | ReadNonces cfg ns \<Rightarrow> set_stage g (Sends (build_request (s\<lparr>xs_cfg := cfg, xs_nonces := ns\<rparr>))) p
         | Sends q \<Rightarrow> (set_stage g Idle p)\<lparr>pb_document := Some q\<rparr>)"

text \<open>
  Each goroutine begins nothing new while it waits for its own update. \<open>MembersRead\<close> is the part of
  \<open>RefreshNonces\<close> after its answer: it updates only when some connection changed.
\<close>

fun publish_step :: "publish_event \<Rightarrow> publishing \<Rightarrow> publishing" where
  "publish_step (Tick w) p =
     (if pb_update_loop p = Idle
      then p\<lparr>pb_session := set_world_info w (pb_session p), pb_update_loop := Starts\<rparr> else p)"
| "publish_step (MembersRead nonce members) p =
     (if pb_rta_loop p = Idle
      then (let (s, changed) = refresh_locked nonce (active_connections (xs_xuid (pb_session p)) members) (pb_session p)
            in p\<lparr>pb_session := s, pb_rta_loop := (if changed then Starts else Idle)\<rparr>)
      else p)"
| "publish_step (Reconnected c) p =
     (if pb_rta_loop p = Idle
      then p\<lparr>pb_session := set_connection_id c (pb_session p), pb_rta_loop := Starts\<rparr> else p)"
| "publish_step (Goes g) p = update_goes g p"
| "publish_step (Loses g) p = (case stage_of g p of Sends q \<Rightarrow> set_stage g Idle p | _ \<Rightarrow> p)"

definition publish_run :: "publish_event list \<Rightarrow> publishing \<Rightarrow> publishing" where
  "publish_run es p = fold publish_step es p"

text \<open>A session that is live: its document is there and nobody updates.\<close>

definition live_publishing :: "xbl_session \<Rightarrow> publishing" where
  "live_publishing s =
     \<lparr>pb_session = s, pb_update_loop = Idle, pb_rta_loop = Idle, pb_document = Some (build_request s)\<rparr>"

lemma stage_simps [simp]:
  "stage_of UpdateLoop p = pb_update_loop p" "stage_of RtaLoop p = pb_rta_loop p"
  "set_stage UpdateLoop st p = p\<lparr>pb_update_loop := st\<rparr>" "set_stage RtaLoop st p = p\<lparr>pb_rta_loop := st\<rparr>"
  by (simp_all add: stage_of_def set_stage_def)

section \<open>Updates that do not overlap\<close>

text \<open>At no moment of the run are both goroutines updating, and no request is lost.\<close>

fun updates_alone :: "publish_event list \<Rightarrow> publishing \<Rightarrow> bool" where
  "updates_alone [] p \<longleftrightarrow> True"
| "updates_alone (e # es) p \<longleftrightarrow>
     (case e of Loses g \<Rightarrow> False | _ \<Rightarrow> True) \<and>
     (pb_update_loop (publish_step e p) = Idle \<or> pb_rta_loop (publish_step e p) = Idle) \<and>
     updates_alone es (publish_step e p)"

text \<open>What a goroutine has read so far is what the session still holds.\<close>

definition stage_current :: "xbl_session \<Rightarrow> update_stage \<Rightarrow> bool" where
  "stage_current s st \<longleftrightarrow>
     (case st of
        Idle \<Rightarrow> True
      | Starts \<Rightarrow> True
      | ReadCfg cfg \<Rightarrow> cfg = xs_cfg s
      | ReadNonces cfg ns \<Rightarrow> cfg = xs_cfg s \<and> ns = xs_nonces s
      | Sends q \<Rightarrow> q = build_request s)"

definition publishing_ok :: "publishing \<Rightarrow> bool" where
  "publishing_ok p \<longleftrightarrow>
     stage_current (pb_session p) (pb_update_loop p) \<and> stage_current (pb_session p) (pb_rta_loop p) \<and>
     (pb_update_loop p = Idle \<or> pb_rta_loop p = Idle) \<and>
     (pb_update_loop p = Idle \<and> pb_rta_loop p = Idle \<longrightarrow> pb_document p = Some (build_request (pb_session p)))"

lemma issue_nonce_unchanged:
  "fold (issue_nonce nonce) active (ns, cs, ch) = (ns', cs', False) \<Longrightarrow> \<not> ch \<and> ns' = ns \<and> cs' = cs"
proof (induction active arbitrary: ns cs ch)
  case (Cons a active)
  then show ?case
    by (cases a) (auto simp: issue_nonce_def split: if_splits)
qed simp

lemma refresh_unchanged:
  assumes "refresh_locked nonce active s = (s', False)"
  shows "s' = s"
proof -
  define gone where "gone = filter (\<lambda>x. x \<notin> fst ` set active) (map fst (xs_nonces s))"
  obtain ns cs where f: "fold (issue_nonce nonce) active (filter (\<lambda>(x, n). x \<notin> set gone) (xs_nonces s),
      filter (\<lambda>(x, c). x \<notin> set gone) (xs_nonce_connections s), gone \<noteq> []) = (ns, cs, False)"
    "s' = s\<lparr>xs_nonces := ns, xs_nonce_connections := cs\<rparr>"
    using assms by (auto simp: refresh_locked_def gone_def Let_def split: prod.splits)
  from issue_nonce_unchanged [OF f(1)] f(2) show ?thesis by auto
qed

lemma publish_step_ok:
  assumes "publishing_ok p" "\<And>g. e \<noteq> Loses g"
    and "pb_update_loop (publish_step e p) = Idle \<or> pb_rta_loop (publish_step e p) = Idle"
  shows "publishing_ok (publish_step e p)"
proof (cases e)
  case (MembersRead nonce members)
  obtain s changed where r: "refresh_locked nonce (active_connections (xs_xuid (pb_session p)) members) (pb_session p) = (s, changed)"
    by (cases "refresh_locked nonce (active_connections (xs_xuid (pb_session p)) members) (pb_session p)")
  show ?thesis
  proof (cases changed)
    case True
    with assms(1,3) MembersRead r show ?thesis by (auto simp: publishing_ok_def stage_current_def)
  next
    case False
    with r have "refresh_locked nonce (active_connections (xs_xuid (pb_session p)) members) (pb_session p) = (s, False)"
      by simp
    from refresh_unchanged [OF this] have "s = pb_session p" .
    with assms(1) MembersRead r False show ?thesis by (auto simp: publishing_ok_def)
  qed
next
  case (Goes g)
  with assms(1) show ?thesis
    by (cases g) (auto simp: publishing_ok_def stage_current_def update_goes_def Let_def split: update_stage.splits)
qed (use assms in \<open>auto simp: publishing_ok_def stage_current_def\<close>)

lemma publish_run_ok: "publishing_ok p \<Longrightarrow> updates_alone es p \<Longrightarrow> publishing_ok (publish_run es p)"
proof (induction es arbitrary: p)
  case (Cons e es)
  then have "publishing_ok (publish_step e p)"
    by (intro publish_step_ok) (auto split: publish_event.splits)
  with Cons show ?case by (simp add: publish_run_def)
qed (simp add: publish_run_def)

section \<open>Updates that overlap\<close>

lemma publish_run_Cons: "publish_run (e # es) p = publish_run es (publish_step e p)"
  by (simp add: publish_run_def)

lemma publish_run_append: "publish_run (es @ fs) p = publish_run fs (publish_run es p)"
  by (simp add: publish_run_def)

text \<open>A refresh that finds nobody new changes nothing.\<close>

lemma refresh_again:
  assumes "nonces_inv s" "map_of (xs_nonce_connections s) = map_of (active_connections (xs_xuid s) members)"
  shows "refresh_locked nonce (active_connections (xs_xuid s) members) s = (s, False)"
proof -
  obtain s' changed where r: "refresh_locked nonce (active_connections (xs_xuid s) members) s = (s', changed)"
    by (cases "refresh_locked nonce (active_connections (xs_xuid s) members) s")
  with refresh_locked_spec(3) [OF assms(1) active_connections_distinct r] assms(2) have "\<not> changed" by simp
  with r refresh_unchanged show ?thesis by fastforce
qed

lemma refreshes_do_nothing:
  assumes "nonces_inv (pb_session p)" "pb_rta_loop p = Idle"
    and "map_of (xs_nonce_connections (pb_session p)) = map_of (active_connections (xs_xuid (pb_session p)) members)"
  shows "publish_run (map (\<lambda>nonce. MembersRead nonce members) nonces) p = p"
proof -
  have "publish_step (MembersRead nonce members) p = p" for nonce
    using assms(2) refresh_again [OF assms(1,3)] by (cases p) simp
  then show ?thesis by (induction nonces) (simp_all add: publish_run_def del: publish_step.simps)
qed

text \<open>A refresh and its update, while the update loop has read the nonces of before.\<close>

definition overlapping_refresh :: "world_info \<Rightarrow> (xuid \<Rightarrow> string) \<Rightarrow> member list \<Rightarrow> publish_event list" where
  "overlapping_refresh w nonce members =
     [Tick w, Goes UpdateLoop, Goes UpdateLoop, MembersRead nonce members] @ replicate 4 (Goes RtaLoop) @
     [Goes UpdateLoop, Goes UpdateLoop]"

section \<open>Properties\<close>

text \<open>
  C33: As long as the two goroutines never update at the same time and no request is lost, the
  directory shows the session as it is (settings, nonces, connection id) whenever nobody updates, over any
  sequence of ticks, refreshes and reconnects.
\<close>

theorem lone_updates_publish_everything:
  assumes "updates_alone es (live_publishing s)" "publish_run es (live_publishing s) = p"
    and "pb_update_loop p = Idle" "pb_rta_loop p = Idle"
  shows "pb_document p = Some (build_request (pb_session p))"
proof -
  have "publishing_ok (live_publishing s)" by (simp add: publishing_ok_def live_publishing_def stage_current_def)
  from publish_run_ok [OF this assms(1)] assms(2-4) show ?thesis by (simp add: publishing_ok_def)
qed

text \<open>
  C34: When they do overlap, a player who joins while a tick is between reading the nonces and the arrival of
  its request loses his nonce: the refresh publishes it, the older request of the tick arrives later and
  puts the document back to the nonce of before, or none, and no further refresh with the same members publishes it again.
\<close>

theorem overlapping_update_hides_nonce:
  assumes "nonces_inv s" "map_of (active_connections (xs_xuid s) members) x = Some c"
    and "map_of (xs_nonce_connections s) x \<noteq> Some c"
    and "p = publish_run (overlapping_refresh w nonce members @ map (\<lambda>n. MembersRead n members) again) (live_publishing s)"
  shows "pb_update_loop p = Idle \<and> pb_rta_loop p = Idle \<and> map_of (xs_nonces (pb_session p)) x = Some (nonce x) \<and>
    (\<exists>q. pb_document p = Some q \<and> map_of (rq_nonces q) x = map_of (xs_nonces s) x)"
proof -
  let ?a = "active_connections (xs_xuid s) members"
  let ?s = "set_world_info w s"
  have inv: "nonces_inv ?s" using assms(1) by (simp add: nonces_inv_def set_world_info_def)
  obtain s' changed where r: "refresh_locked nonce ?a ?s = (s', changed)" by (cases "refresh_locked nonce ?a ?s")
  note spec = refresh_locked_spec [OF inv active_connections_distinct r]
  have ch: changed using spec(3) assms(2,3) by (auto simp: set_world_info_def)
  have n: "map_of (xs_nonces s') x = Some (nonce x)"
    using spec(2) [of x] assms(2,3) by (simp add: set_world_info_def)
  have same: "xs_xuid s' = xs_xuid s" using r by (auto simp: refresh_locked_def set_world_info_def Let_def split: prod.splits)
  define m where "m = publish_run (overlapping_refresh w nonce members) (live_publishing s)"
  have m: "m = \<lparr>pb_session = s', pb_update_loop = Idle, pb_rta_loop = Idle,
      pb_document = Some (build_request (s'\<lparr>xs_cfg := xs_cfg ?s, xs_nonces := xs_nonces s\<rparr>))\<rparr>"
    using r ch by (simp add: m_def overlapping_refresh_def publish_run_def live_publishing_def update_goes_def numeral_eq_Suc
        set_world_info_def)
  have inv': "nonces_inv s'"
  proof -
    have "map_of (xs_nonces s') y = None \<longleftrightarrow> map_of (xs_nonce_connections s') y = None" for y
      using spec(1) spec(2) [of y] inv by (auto simp: nonces_inv_def domIff set_eq_iff split: option.split)
    then show ?thesis by (auto simp: nonces_inv_def domIff set_eq_iff)
  qed
  have "p = m"
    using refreshes_do_nothing [of m members again] inv' spec(1) same
    by (simp add: assms(4) publish_run_append m_def [symmetric]) (simp add: m)
  then show ?thesis using n by (simp add: m build_request_def)
qed

text \<open>The next tick that is left alone repairs the document, whatever it showed before.\<close>

theorem next_tick_repairs:
  assumes "pb_update_loop p = Idle" "p' = publish_run (Tick w # replicate 4 (Goes UpdateLoop)) p"
  shows "pb_document p' = Some (build_request (pb_session p')) \<and> pb_update_loop p' = Idle \<and>
    xs_nonces (pb_session p') = xs_nonces (pb_session p)"
  unfolding assms(2) using assms(1)
  by (simp add: publish_run_def update_goes_def numeral_eq_Suc set_world_info_def)

section \<open>Witnesses\<close>

theorem lone_updates_publish_everything_witness:
  "let p = publish_run (MembersRead (\<lambda>x. ''n'' @ x) [demo_member] # replicate 4 (Goes RtaLoop)) (live_publishing (demo_hosted [] []))
   in pb_document p = Some (build_request (pb_session p))"
proof -
  let ?es = "MembersRead (\<lambda>x. ''n'' @ x) [demo_member] # replicate 4 (Goes RtaLoop)"
  obtain s changed where r: "refresh_locked (\<lambda>x. ''n'' @ x) (active_connections (xs_xuid (demo_hosted [] [])) [demo_member])
      (demo_hosted [] []) = (s, changed)"
    by (cases "refresh_locked (\<lambda>x. ''n'' @ x) (active_connections (xs_xuid (demo_hosted [] [])) [demo_member]) (demo_hosted [] [])")
  have a: "updates_alone ?es (live_publishing (demo_hosted [] []))"
    using r by (simp add: live_publishing_def update_goes_def numeral_eq_Suc split: update_stage.splits)
  have "pb_update_loop (publish_run ?es (live_publishing (demo_hosted [] []))) = Idle"
    "pb_rta_loop (publish_run ?es (live_publishing (demo_hosted [] []))) = Idle"
    using r by (simp_all add: publish_run_def live_publishing_def update_goes_def numeral_eq_Suc)
  from lone_updates_publish_everything [OF a refl this] show ?thesis by simp
qed

theorem overlapping_update_hides_nonce_witness:
  "let p = publish_run (overlapping_refresh (xs_cfg (demo_hosted [] [])) (\<lambda>x. ''n'' @ x) [demo_member]) (live_publishing (demo_hosted [] []))
   in map_of (xs_nonces (pb_session p)) ''5'' = Some ''n5'' \<and>
     (\<exists>q. pb_document p = Some q \<and> map_of (rq_nonces q) ''5'' = None)"
proof -
  have i: "nonces_inv (demo_hosted [] [])" by (simp add: nonces_inv_def)
  from overlapping_update_hides_nonce [OF i demo_active _ refl, of "xs_cfg (demo_hosted [] [])" "\<lambda>x. ''n'' @ x" "[]"]
  show ?thesis by simp
qed

theorem next_tick_repairs_witness:
  "let p = publish_run (Tick (xs_cfg (demo_hosted [] [])) # replicate 4 (Goes UpdateLoop)) (live_publishing (demo_hosted [] []))
   in pb_document p = Some (build_request (pb_session p))"
proof -
  have "pb_update_loop (live_publishing (demo_hosted [] [])) = Idle" by (simp add: live_publishing_def)
  from next_tick_repairs [OF this refl] show ?thesis by (simp add: Let_def)
qed

end
